(* ===== verification/Leda_Prelude.thy ===== *)
theory Leda_Prelude
  imports Main "HOL-Library.Word"
begin

text \<open>
  The prelude of the development: the machine types the C sources use, the
  faults a C statement can run into (as values), the result type that carries
  them, the byte order of the wire and marshalling formats, and the generic
  lemmas on lists and results that the component theories share.
\<close>

unbundle bit_operations_syntax

section \<open>Machine types\<close>

type_synonym byte = "8 word"
type_synonym c_long = "64 word"
type_synonym addr = nat

text \<open>Address \<open>0\<close> is \<open>NULL\<close>.\<close>

text \<open>
  The value of an integer expression stored into a C \<open>int\<close> of 32 bits
  (the conversion gcc implements: reduction modulo \<open>2 ^ 32\<close>, two's complement).
\<close>

definition c_int :: "int \<Rightarrow> int" where
  "c_int z = signed_take_bit 31 z"

lemma c_int_small [simp]:
  "- (2 ^ 31) \<le> z \<Longrightarrow> z < 2 ^ 31 \<Longrightarrow> c_int z = z"
  by (simp add: c_int_def signed_take_bit_int_eq_self)

lemma c_int_lower: "- (2 ^ 31) \<le> c_int z"
  using signed_take_bit_int_greater_eq_minus_exp [of 31 z] by (simp add: c_int_def)

lemma c_int_upper: "c_int z < 2 ^ 31"
  using signed_take_bit_int_less_exp [of 31 z] by (simp add: c_int_def)

section \<open>Faults and results\<close>

text \<open>
  What can stop a C function: dereferencing \<open>NULL\<close> or freed memory, an access
  outside an array, a division by zero, exhaustion of the C stack, a failed
  allocation, and the non-local exit of \<open>lua_error\<close> and \<open>luaL_error\<close> with its message.
\<close>

datatype c_fault =
    NullDeref
  | UseAfterFree
  | OutOfBounds
  | DivByZero
  | StackOverflow
  | LuaError string

type_synonym 'a result = "c_fault + 'a"

definition rbind :: "'a result \<Rightarrow> ('a \<Rightarrow> 'b result) \<Rightarrow> 'b result" where
  "rbind m f = (case m of Inl e \<Rightarrow> Inl e | Inr x \<Rightarrow> f x)"

lemma rbind_simps [simp]:
  "rbind (Inl e) f = Inl e"
  "rbind (Inr x) f = f x"
  by (simp_all add: rbind_def)

lemma rbind_Inr_iff: "rbind m f = Inr y \<longleftrightarrow> (\<exists>x. m = Inr x \<and> f x = Inr y)"
  by (cases m) auto

lemma rbind_InrE:
  assumes "rbind m f = Inr y"
  obtains x where "m = Inr x" and "f x = Inr y"
  using assms by (auto simp: rbind_Inr_iff)

lemma rbind_assoc: "rbind (rbind m f) g = rbind m (\<lambda>x. rbind (f x) g)"
  by (cases m) auto

lemma rbind_cong [fundef_cong]:
  "m = m' \<Longrightarrow> (\<And>x. m' = Inr x \<Longrightarrow> f x = f' x) \<Longrightarrow> rbind m f = rbind m' f'"
  by (cases m') auto

text \<open>An indexed read and write of a C array, with the out-of-range access made a fault.\<close>

definition array_get :: "'a list \<Rightarrow> int \<Rightarrow> 'a result" where
  "array_get xs i = (if 0 \<le> i \<and> i < int (length xs) then Inr (xs ! nat i) else Inl OutOfBounds)"

definition array_set :: "'a list \<Rightarrow> int \<Rightarrow> 'a \<Rightarrow> 'a list result" where
  "array_set xs i v =
     (if 0 \<le> i \<and> i < int (length xs) then Inr (xs[nat i := v]) else Inl OutOfBounds)"

lemma array_get_ok [simp]: "i < length xs \<Longrightarrow> array_get xs (int i) = Inr (xs ! i)"
  by (simp add: array_get_def)

lemma array_set_ok [simp]: "i < length xs \<Longrightarrow> array_set xs (int i) v = Inr (xs[i := v])"
  by (simp add: array_set_def)

lemma array_get_Inr_iff:
  "array_get xs i = Inr v \<longleftrightarrow> 0 \<le> i \<and> nat i < length xs \<and> v = xs ! nat i"
  by (auto simp: array_get_def nat_less_iff)

lemma array_set_Inr_iff:
  "array_set xs i v = Inr ys \<longleftrightarrow> 0 \<le> i \<and> nat i < length xs \<and> ys = xs[nat i := v]"
  by (auto simp: array_set_def nat_less_iff)

definition array_upd :: "'a list \<Rightarrow> int \<Rightarrow> ('a \<Rightarrow> 'a) \<Rightarrow> 'a list result" where
  "array_upd xs i f = rbind (array_get xs i) (\<lambda>x. array_set xs i (f x))"

lemma array_upd_ok [simp]: "i < length xs \<Longrightarrow> array_upd xs (int i) f = Inr (xs[i := f (xs ! i)])"
  by (simp add: array_upd_def)

lemma array_upd_nat: "0 \<le> i \<Longrightarrow> nat i < length xs \<Longrightarrow> array_upd xs i f = Inr (xs[nat i := f (xs ! nat i)])"
  using array_upd_ok [of "nat i" xs f] by simp

lemma array_get_nat: "0 \<le> i \<Longrightarrow> nat i < length xs \<Longrightarrow> array_get xs i = Inr (xs ! nat i)"
  by (simp add: array_get_Inr_iff)

lemma array_set_nat: "0 \<le> i \<Longrightarrow> nat i < length xs \<Longrightarrow> array_set xs i v = Inr (xs[nat i := v])"
  by (simp add: array_set_Inr_iff)

text \<open>
  A C loop \<open>for(i=0;i<n;i++)\<close> over a state, stopped by the first fault:
  \<open>for_each\<close> on the indices \<open>[0..<n]\<close>.
\<close>

fun for_each :: "('i \<Rightarrow> 's \<Rightarrow> 's result) \<Rightarrow> 'i list \<Rightarrow> 's \<Rightarrow> 's result" where
  "for_each f [] s = Inr s"
| "for_each f (i # is) s = rbind (f i s) (for_each f is)"

lemma for_each_Nil_fun [simp]: "for_each f [] = Inr"
  by (rule ext) simp

lemma rbind_Inr_right [simp]: "rbind m Inr = m"
  by (cases m) auto

lemma for_each_append:
  "for_each f (is @ js) s = rbind (for_each f is s) (for_each f js)"
  by (induction "is" arbitrary: s) (auto simp: rbind_def split: sum.splits)

lemma for_each_inv:
  assumes "for_each f is s = Inr s'" and "P s"
    and step: "\<And>i t t'. i \<in> set is \<Longrightarrow> P t \<Longrightarrow> f i t = Inr t' \<Longrightarrow> P t'"
  shows "P s'"
  using assms
proof (induction "is" arbitrary: s)
  case Nil
  then show ?case by simp
next
  case (Cons i "is")
  from Cons.prems(1) obtain t where t: "f i s = Inr t" "for_each f is t = Inr s'"
    by (auto elim: rbind_InrE)
  have "P t" using Cons.prems(2) t(1) by (intro Cons.prems(3) [of i s t]) simp_all
  with t(2) show ?case
  proof (rule Cons.IH)
    show "\<And>j u u'. j \<in> set is \<Longrightarrow> P u \<Longrightarrow> f j u = Inr u' \<Longrightarrow> P u'"
      by (rule Cons.prems(3)) simp_all
  qed
qed

lemma for_each_array_upd:
  "n \<le> length xs \<Longrightarrow>
   for_each (\<lambda>i ys. array_upd ys (int i) f) [0..<n] xs = Inr (map f (take n xs) @ drop n xs)"
proof (induction n)
  case 0
  then show ?case by simp
next
  case (Suc n)
  then have n: "n < length xs" by simp
  then have "drop n xs = xs ! n # drop (Suc n) xs" by (simp add: Cons_nth_drop_Suc)
  with Suc n show ?case
    by (simp add: for_each_append take_Suc_conv_app_nth list_update_append nth_append)
qed

corollary for_each_array_upd_all:
  "length xs = n \<Longrightarrow> for_each (\<lambda>i ys. array_upd ys (int i) f) [0..<n] xs = Inr (map f xs)"
  by (simp add: for_each_array_upd)

section \<open>Byte order\<close>

text \<open>
  The platform is little endian: an \<open>n\<close>-byte integer lies in memory least
  significant byte first. \<open>le_bytes\<close> is what \<open>memcpy\<close> out of an integer
  copies, \<open>le_val\<close> what \<open>memcpy\<close> into it reads.
\<close>

primrec le_bytes :: "nat \<Rightarrow> nat \<Rightarrow> byte list" where
  "le_bytes 0 x = []"
| "le_bytes (Suc n) x = of_nat (x mod 256) # le_bytes n (x div 256)"

primrec le_val :: "byte list \<Rightarrow> nat" where
  "le_val [] = 0"
| "le_val (b # bs) = unat b + 256 * le_val bs"

lemma le_bytes_numeral: "le_bytes (numeral k) x = of_nat (x mod 256) # le_bytes (pred_numeral k) (x div 256)"
  by (simp only: numeral_eq_Suc le_bytes.simps)

lemma length_le_bytes [simp]: "length (le_bytes n x) = n"
  by (induction n arbitrary: x) auto

lemma unat_of_nat_byte: "unat (of_nat (x mod 256) :: byte) = x mod 256"
  by (simp add: unat_of_nat)

lemma le_val_le_bytes: "le_val (le_bytes n x) = x mod 256 ^ n"
proof (induction n arbitrary: x)
  case 0
  then show ?case by simp
next
  case (Suc n)
  have "x mod 256 ^ Suc n = x mod 256 + 256 * (x div 256 mod 256 ^ n)"
    by (simp add: mod_mult2_eq)
  then show ?case by (simp add: Suc.IH unat_of_nat_byte)
qed

lemma le_val_bound: "le_val bs < 256 ^ length bs"
proof (induction bs)
  case Nil
  then show ?case by simp
next
  case (Cons b bs)
  have "unat b < 256" using unsigned_less [of b] by simp
  with Cons show ?case by simp
qed

lemma le_bytes_le_val: "le_bytes (length bs) (le_val bs) = bs"
proof (induction bs)
  case Nil
  then show ?case by simp
next
  case (Cons b bs)
  have "unat b < 256" using unsigned_less [of b] by simp
  then have "(unat b + 256 * le_val bs) mod 256 = unat b"
    and "(unat b + 256 * le_val bs) div 256 = le_val bs" by simp_all
  with Cons show ?case by simp
qed

lemma le_bytes_inject:
  "x < 256 ^ n \<Longrightarrow> y < 256 ^ n \<Longrightarrow> le_bytes n x = le_bytes n y \<longleftrightarrow> x = y"
  by (metis le_val_le_bytes mod_less)

end
