(* ===== verification/Leda_Atomic.thy ===== *)
theory Leda_Atomic
  imports Leda_Prelude
begin

text \<open>
  The atomic integers of \<open>src/kernel/atomic.c\<close> and the macros of \<open>atomic.h\<close>.
  The first part is the sequential meaning of each operation. The second part
  is the code as threads run it, one statement at a time under the mutex of the
  structure, and the proof that every interleaving behaves like the operations
  executed one after the other, in the order of their stores.
\<close>

section \<open>The operations\<close>

record atomicInt =
  ai :: c_long

definition atomic_new :: "c_long \<Rightarrow> atomicInt" where
  "atomic_new x = \<lparr>ai = x\<rparr>"

definition atomic_value :: "atomicInt \<Rightarrow> c_long" where
  "atomic_value x = ai x"

definition atomic_fetch_and_store :: "atomicInt \<Rightarrow> c_long \<Rightarrow> c_long \<times> atomicInt" where
  "atomic_fetch_and_store x y = (let oldx = ai x in (oldx, x\<lparr>ai := y\<rparr>))"

definition atomic_fetch_and_add :: "atomicInt \<Rightarrow> c_long \<Rightarrow> c_long \<times> atomicInt" where
  "atomic_fetch_and_add x y = (let oldx = ai x in (oldx, x\<lparr>ai := ai x + y\<rparr>))"

definition atomic_compare_and_swap ::
  "atomicInt \<Rightarrow> c_long \<Rightarrow> c_long \<Rightarrow> c_long \<times> atomicInt" where
  "atomic_compare_and_swap x y z =
     (let oldx = ai x in (oldx, if oldx = z then x\<lparr>ai := y\<rparr> else x))"

text \<open>The macros of \<open>atomic.h\<close>, as statements: the returned old value is dropped.\<close>

definition READ :: "atomicInt \<Rightarrow> c_long" where
  "READ x = atomic_value x"

definition STORE :: "atomicInt \<Rightarrow> c_long \<Rightarrow> atomicInt" where
  "STORE x y = snd (atomic_fetch_and_store x y)"

definition ADD :: "atomicInt \<Rightarrow> c_long \<Rightarrow> atomicInt" where
  "ADD x y = snd (atomic_fetch_and_add x y)"

definition SUB :: "atomicInt \<Rightarrow> c_long \<Rightarrow> atomicInt" where
  "SUB x y = snd (atomic_fetch_and_add x (- y))"

lemmas atomic_defs =
  atomic_new_def atomic_value_def atomic_fetch_and_store_def atomic_fetch_and_add_def
  atomic_compare_and_swap_def READ_def STORE_def ADD_def SUB_def


section \<open>The contract of an atomic integer\<close>

text \<open>
  What the rest of the kernel relies on of \<open>atomic.h\<close>, whichever of its two
  implementations (\<open>atomic.c\<close> or the TBB one) is linked: the macros act on the
  value read as assignment, addition and subtraction modulo \<open>2 ^ 64\<close>.
\<close>

locale atomic_counter =
  fixes new :: "c_long \<Rightarrow> 'a"
    and rd :: "'a \<Rightarrow> c_long"
    and store :: "'a \<Rightarrow> c_long \<Rightarrow> 'a"
    and add :: "'a \<Rightarrow> c_long \<Rightarrow> 'a"
    and sub :: "'a \<Rightarrow> c_long \<Rightarrow> 'a"
  assumes rd_new: "rd (new x) = x"
    and rd_store: "rd (store a y) = y"
    and rd_add: "rd (add a y) = rd a + y"
    and rd_sub: "rd (sub a y) = rd a - y"
begin

text \<open>A batch of additions amounts to the sum, in whatever order they are made.\<close>

lemma rd_adds: "rd (foldl add a ys) = rd a + sum_list ys"
  by (induction ys arbitrary: a) (auto simp: rd_add)

lemma rd_add_sub: "rd (sub (add a y) y) = rd a"
  by (simp add: rd_add rd_sub)

lemma rd_store_adds: "rd (foldl add (store a x) ys) = x + sum_list ys"
  by (simp add: rd_adds rd_store)

end

interpretation ac: atomic_counter atomic_new READ STORE ADD SUB
  by unfold_locales (simp_all add: atomic_defs Let_def)

lemmas atomic_simps [simp] = ac.rd_new ac.rd_store ac.rd_add ac.rd_sub

section \<open>The operations under the mutex, statement by statement\<close>

text \<open>
  One thread runs one operation: it takes the mutex, loads the old value, stores
  the new one, releases the mutex and returns the old value. Between any two of
  these statements any other thread may run. \<open>hist\<close> is a ghost: the threads in
  the order of their stores.
\<close>

datatype aop = AStore c_long | AAdd c_long | ACas c_long c_long

datatype apc = Start | Locked | Loaded c_long | Stored c_long | Done c_long

record asys =
  cell :: atomicInt
  holder :: "nat option"
  pcs :: "nat \<Rightarrow> apc"
  hist :: "nat list"

fun atomic_call :: "aop \<Rightarrow> atomicInt \<Rightarrow> c_long \<times> atomicInt" where
  "atomic_call (AStore y) x = atomic_fetch_and_store x y"
| "atomic_call (AAdd y) x = atomic_fetch_and_add x y"
| "atomic_call (ACas y z) x = atomic_compare_and_swap x y z"

text \<open>The store statement of each function; the swap compares the value loaded before.\<close>

fun astore :: "aop \<Rightarrow> c_long \<Rightarrow> atomicInt \<Rightarrow> atomicInt" where
  "astore (AStore y) oldx x = x\<lparr>ai := y\<rparr>"
| "astore (AAdd y) oldx x = x\<lparr>ai := ai x + y\<rparr>"
| "astore (ACas y z) oldx x = (if oldx = z then x\<lparr>ai := y\<rparr> else x)"

definition asys_init :: "atomicInt \<Rightarrow> asys" where
  "asys_init x = \<lparr>cell = x, holder = None, pcs = (\<lambda>_. Start), hist = []\<rparr>"

inductive astep :: "(nat \<Rightarrow> aop) \<Rightarrow> asys \<Rightarrow> asys \<Rightarrow> bool" for ops where
  lock: "pcs s t = Start \<Longrightarrow> holder s = None \<Longrightarrow>
     astep ops s (s\<lparr>holder := Some t, pcs := (pcs s)(t := Locked)\<rparr>)"
| load: "pcs s t = Locked \<Longrightarrow>
     astep ops s (s\<lparr>pcs := (pcs s)(t := Loaded (ai (cell s)))\<rparr>)"
| store: "pcs s t = Loaded v \<Longrightarrow>
     astep ops s (s\<lparr>cell := astore (ops t) v (cell s),
                    pcs := (pcs s)(t := Stored v), hist := hist s @ [t]\<rparr>)"
| unlock: "pcs s t = Stored v \<Longrightarrow>
     astep ops s (s\<lparr>holder := None, pcs := (pcs s)(t := Done v)\<rparr>)"

inductive areach :: "(nat \<Rightarrow> aop) \<Rightarrow> atomicInt \<Rightarrow> asys \<Rightarrow> bool" for ops x where
  init: "areach ops x (asys_init x)"
| step: "areach ops x s \<Longrightarrow> astep ops s s' \<Longrightarrow> areach ops x s'"

text \<open>The sequential execution of the operations of a list of threads, with what each returns.\<close>

fun replay :: "(nat \<Rightarrow> aop) \<Rightarrow> atomicInt \<Rightarrow> nat list \<Rightarrow> atomicInt \<times> (nat \<rightharpoonup> c_long)" where
  "replay ops x [] = (x, Map.empty)"
| "replay ops x (t # ts) =
     (let (r, x') = atomic_call (ops t) x in
      (fst (replay ops x' ts), [t \<mapsto> r] ++ snd (replay ops x' ts)))"

lemma dom_replay: "dom (snd (replay ops x ts)) = set ts"
  by (induction ts arbitrary: x) (simp_all add: Let_def split_beta)

lemma replay_append:
  "replay ops x (ts @ us) =
     (fst (replay ops (fst (replay ops x ts)) us),
      snd (replay ops x ts) ++ snd (replay ops (fst (replay ops x ts)) us))"
  by (induction ts arbitrary: x) (simp_all add: Let_def split_beta)

lemma replay_snoc:
  "replay ops x (ts @ [t]) =
     (snd (atomic_call (ops t) (fst (replay ops x ts))),
      (snd (replay ops x ts))(t \<mapsto> fst (atomic_call (ops t) (fst (replay ops x ts)))))"
  by (simp add: replay_append Let_def split_beta)

lemma astore_atomic_call: "astore p (ai x) x = snd (atomic_call p x)"
  by (cases p) (auto simp: atomic_defs Let_def)

lemma fst_atomic_call: "fst (atomic_call p x) = ai x"
  by (cases p) (auto simp: atomic_defs Let_def)

text \<open>
  The invariant has two parts. The mutex is held by exactly the thread between
  lock and unlock, and the value that thread loaded is still current; the cell
  and the return values are those of the sequential execution of \<open>hist\<close>.
\<close>

fun in_section :: "apc \<Rightarrow> bool" where
  "in_section Locked = True"
| "in_section (Loaded v) = True"
| "in_section (Stored v) = True"
| "in_section _ = False"

fun past_store :: "apc \<Rightarrow> c_long option" where
  "past_store (Stored v) = Some v"
| "past_store (Done v) = Some v"
| "past_store _ = None"

definition lock_inv :: "asys \<Rightarrow> bool" where
  "lock_inv s \<longleftrightarrow>
     (\<forall>t. in_section (pcs s t) \<longleftrightarrow> holder s = Some t) \<and>
     (\<forall>t v. pcs s t = Loaded v \<longrightarrow> v = ai (cell s))"

definition hist_inv :: "(nat \<Rightarrow> aop) \<Rightarrow> atomicInt \<Rightarrow> asys \<Rightarrow> bool" where
  "hist_inv ops x s \<longleftrightarrow>
     distinct (hist s) \<and>
     replay ops x (hist s) = (cell s, \<lambda>t. past_store (pcs s t))"

lemma lock_inv_unique:
  "lock_inv s \<Longrightarrow> in_section (pcs s t) \<Longrightarrow> u \<noteq> t \<Longrightarrow> \<not> in_section (pcs s u)"
  unfolding lock_inv_def by (metis option.inject)

lemma lock_inv_astep: "astep ops s s' \<Longrightarrow> lock_inv s \<Longrightarrow> lock_inv s'"
proof (induction rule: astep.induct)
  case (store s t v)
  then have u: "\<not> in_section (pcs s u)" if "u \<noteq> t" for u
    using lock_inv_unique [of s t u] that by simp
  have "pcs s u \<noteq> Loaded w" if "u \<noteq> t" for u w
    using u [OF that] by auto
  moreover from store have "holder s = Some t"
    unfolding lock_inv_def by (metis in_section.simps(2))
  ultimately show ?case using store u unfolding lock_inv_def by simp
next
  case (unlock s t v)
  then have "\<not> in_section (pcs s u)" if "u \<noteq> t" for u
    using lock_inv_unique [of s t u] that by simp
  with unlock show ?case unfolding lock_inv_def by simp
qed (fastforce simp: lock_inv_def)+

lemma hist_inv_store:
  assumes "hist_inv ops x s" and "pcs s t = Loaded v" and v: "v = ai (cell s)"
  shows "hist_inv ops x (s\<lparr>cell := astore (ops t) v (cell s),
           pcs := (pcs s)(t := Stored v), hist := hist s @ [t]\<rparr>)"
proof -
  from assms(1) have d: "distinct (hist s)"
    and r: "replay ops x (hist s) = (cell s, \<lambda>t. past_store (pcs s t))"
    by (auto simp: hist_inv_def)
  have "set (hist s) = {t. past_store (pcs s t) \<noteq> None}"
    using dom_replay [of ops x "hist s"] by (simp add: r dom_def)
  with assms(2) have "t \<notin> set (hist s)" by simp
  with d show ?thesis
    by (simp add: hist_inv_def replay_snoc r v astore_atomic_call fst_atomic_call fun_eq_iff)
qed

lemma hist_inv_astep:
  assumes "astep ops s s'" and "lock_inv s" and "hist_inv ops x s"
  shows "hist_inv ops x s'"
  using assms
proof (induction rule: astep.induct)
  case (store s t v)
  then show ?case by (intro hist_inv_store) (auto simp: lock_inv_def)
qed (auto simp: hist_inv_def fun_eq_iff)

lemma areach_inv: "areach ops x s \<Longrightarrow> lock_inv s \<and> hist_inv ops x s"
proof (induction rule: areach.induct)
  case init
  show ?case by (auto simp: lock_inv_def hist_inv_def asys_init_def fun_eq_iff)
next
  case (step s s')
  then show ?case by (blast intro: lock_inv_astep hist_inv_astep)
qed

text \<open>A schedule: at each entry the named thread executes its next statement.\<close>

fun aexec :: "(nat \<Rightarrow> aop) \<Rightarrow> nat \<Rightarrow> asys \<Rightarrow> asys" where
  "aexec ops t s = (case pcs s t of
      Start \<Rightarrow> if holder s = None
                then s\<lparr>holder := Some t, pcs := (pcs s)(t := Locked)\<rparr> else s
    | Locked \<Rightarrow> s\<lparr>pcs := (pcs s)(t := Loaded (ai (cell s)))\<rparr>
    | Loaded v \<Rightarrow> s\<lparr>cell := astore (ops t) v (cell s),
                      pcs := (pcs s)(t := Stored v), hist := hist s @ [t]\<rparr>
    | Stored v \<Rightarrow> s\<lparr>holder := None, pcs := (pcs s)(t := Done v)\<rparr>
    | Done v \<Rightarrow> s)"

lemma areach_aexec: "areach ops x s \<Longrightarrow> areach ops x (aexec ops t s)"
  by (auto split: apc.splits intro: areach.step astep.intros)

lemma areach_schedule: "areach ops x s \<Longrightarrow> areach ops x (fold (aexec ops) ts s)"
  by (induction ts arbitrary: s) (auto intro: areach_aexec simp del: aexec.simps)

text \<open>
  C22. However the statements of the threads interleave, what the threads that
  finished returned and what the cell holds are those of the operations of
  \<open>atomic.c\<close> executed one after the other, in some order without repetition.
\<close>

theorem atomic_linearizable:
  assumes "areach ops x s"
  shows "\<exists>ts. distinct ts \<and> cell s = fst (replay ops x ts) \<and>
           (\<forall>t v. pcs s t = Done v \<longrightarrow> t \<in> set ts \<and> snd (replay ops x ts) t = Some v)"
proof -
  from areach_inv [OF assms] have h: "distinct (hist s)"
    and r: "replay ops x (hist s) = (cell s, \<lambda>t. past_store (pcs s t))"
    by (auto simp: hist_inv_def)
  have "t \<in> set (hist s)" if "pcs s t = Done v" for t v
    using dom_replay [of ops x "hist s"] that by (auto simp: r dom_def)
  with h r show ?thesis by (intro exI [of _ "hist s"]) auto
qed

abbreviation wit_adds :: "nat \<Rightarrow> aop" where
  "wit_adds \<equiv> (\<lambda>t. AAdd (if t = 0 then 5 else 7))"

abbreviation wit_asys :: asys where
  "wit_asys \<equiv> fold (aexec wit_adds) [0, 1, 0, 0, 1, 0, 1, 1, 1, 1] (asys_init (atomic_new 1))"

theorem atomic_linearizable_witness:
  "pcs wit_asys 1 = Done 6 \<and>
   (\<exists>ts. cell wit_asys = fst (replay wit_adds (atomic_new 1) ts) \<and>
         snd (replay wit_adds (atomic_new 1) ts) 1 = Some 6)"
proof -
  have p: "pcs wit_asys 1 = Done 6" by (simp add: asys_init_def atomic_new_def)
  have "areach wit_adds (atomic_new 1) wit_asys"
    by (intro areach_schedule areach.init)
  from atomic_linearizable [OF this] p show ?thesis by blast
qed

lemma replay_adds:
  "\<forall>t. ops t = AAdd (y t) \<Longrightarrow> ai (fst (replay ops x ts)) = ai x + sum_list (map y ts)"
  by (induction ts arbitrary: x) (auto simp: atomic_defs Let_def)

text \<open>
  No update is lost: when any number of threads have each finished an
  \<open>atomic_fetch_and_add\<close> on the same cell and no other is under way, the cell
  holds the initial value plus all the addends (modulo \<open>2 ^ 64\<close>).
\<close>

theorem atomic_no_lost_update:
  assumes "areach ops (atomic_new v) s"
    and adds: "\<forall>t. ops t = AAdd (y t)"
    and quiet: "\<forall>t. pcs s t = Start \<or> (\<exists>r. pcs s t = Done r)"
  shows "READ (cell s) = v + (\<Sum>t \<in> {t. pcs s t \<noteq> Start}. y t)"
proof -
  from areach_inv [OF assms(1)] have d: "distinct (hist s)"
    and r: "replay ops (atomic_new v) (hist s) = (cell s, \<lambda>t. past_store (pcs s t))"
    by (auto simp: hist_inv_def)
  have "past_store (pcs s t) \<noteq> None \<longleftrightarrow> pcs s t \<noteq> Start" for t
    using quiet by (metis apc.distinct(7) option.distinct(1) past_store.simps(2,3))
  then have "set (hist s) = {t. pcs s t \<noteq> Start}"
    using dom_replay [of ops "atomic_new v" "hist s"] by (auto simp: r dom_def)
  with d have "(\<Sum>t \<in> {t. pcs s t \<noteq> Start}. y t) = sum_list (map y (hist s))"
    by (simp add: sum_list_distinct_conv_sum_set)
  with replay_adds [OF adds, of "atomic_new v" "hist s"] r show ?thesis
    by (simp add: atomic_defs)
qed

theorem atomic_no_lost_update_witness:
  "READ (cell wit_asys) = 1 + (\<Sum>t \<in> {t. pcs wit_asys t \<noteq> Start}. if t = 0 then 5 else 7)"
proof (rule atomic_no_lost_update)
  show "areach wit_adds (atomic_new 1) wit_asys" by (intro areach_schedule areach.init)
  show "\<forall>t. wit_adds t = AAdd (if t = 0 then 5 else 7)" by simp
  show "\<forall>t. pcs wit_asys t = Start \<or> (\<exists>r. pcs wit_asys t = Done r)"
    by (simp add: asys_init_def atomic_new_def)
qed

end
