(* ===== verification/Leda_Queue.thy ===== *)
theory Leda_Queue
  imports Leda_Prelude
begin

text \<open>
  The locked queue of \<open>src/kernel/queue.c\<close>. The queue structure and its linked
  elements are modelled with an explicit store of elements, so that a pointer to
  a freed element is visible as such. The operations are translated statement by
  statement; \<open>sync\<close> records the mutex and signal calls an operation makes, in
  order. The abstraction \<open>rep\<close> relates a queue to the list of the pointers it
  holds, and the locale \<open>bounded_queue\<close> is the contract the rest of the kernel
  relies on.

  Sizes and capacities are C \<open>int\<close>s in the source; a queue of \<open>2 ^ 31\<close> elements
  does not fit in memory and the model uses unbounded integers for them. The
  allocator never hands out a freed address again, so an access through a
  dangling pointer is always recognised.
\<close>

section \<open>Data\<close>

record 'a queue_element =
  ptr :: 'a
  nxt :: addr

datatype signal = full_queue | empty_queue

datatype sync_op = Lock | Unlock | SignalOne signal | SignalWait signal

record 'a LFQueue =
  head :: addr
  tail :: addr
  qsize :: int
  capacity :: int
  cells :: "addr \<rightharpoonup> 'a queue_element"
  brk :: addr
  sync :: "sync_op list"

definition sync_call :: "sync_op \<Rightarrow> 'a LFQueue \<Rightarrow> 'a LFQueue" where
  "sync_call c q = q\<lparr>sync := sync q @ [c]\<rparr>"

text \<open>The element at an address; \<open>NULL\<close> and freed addresses are faults.\<close>

definition deref :: "'a LFQueue \<Rightarrow> addr \<Rightarrow> 'a queue_element result" where
  "deref q a = (if a = 0 then Inl NullDeref
     else case cells q a of None \<Rightarrow> Inl UseAfterFree | Some e \<Rightarrow> Inr e)"

definition set_next :: "'a LFQueue \<Rightarrow> addr \<Rightarrow> addr \<Rightarrow> 'a LFQueue result" where
  "set_next q a n =
     rbind (deref q a) (\<lambda>e. Inr (q\<lparr>cells := (cells q)(a \<mapsto> e\<lparr>nxt := n\<rparr>)\<rparr>))"

text \<open>Allocation of an element holding \<open>*source\<close> with \<open>next\<close> set to \<open>NULL\<close>.\<close>

definition new_element :: "'a LFQueue \<Rightarrow> 'a \<Rightarrow> addr \<times> 'a LFQueue" where
  "new_element q x =
     (brk q, q\<lparr>cells := (cells q)(brk q \<mapsto> \<lparr>ptr = x, nxt = 0\<rparr>), brk := Suc (brk q)\<rparr>)"

section \<open>Operations\<close>

text \<open>\<open>queue_new\<close>; the argument says whether \<open>malloc\<close> succeeded.\<close>

definition queue_new :: "bool \<Rightarrow> 'a LFQueue option" where
  "queue_new mem = (if \<not> mem then None else
     Some \<lparr>head = 0, tail = 0, qsize = 0, capacity = -1, cells = Map.empty, brk = 1, sync = []\<rparr>)"

text \<open>A call that may block: it returned, or it waits on a signal with the mutex released.\<close>

datatype 'q call = Waiting 'q | Returned 'q

definition queue_push_body :: "'a LFQueue \<Rightarrow> 'a \<Rightarrow> 'a LFQueue result" where
  "queue_push_body q x =
     (let (el, q) = new_element q x in
      if tail q = 0 then
        Inr (sync_call (SignalOne empty_queue) (sync_call Unlock
               (q\<lparr>head := el, tail := el, qsize := qsize q + 1\<rparr>)))
      else rbind (set_next q (tail q) el) (\<lambda>q.
        Inr (sync_call Unlock (q\<lparr>tail := el, qsize := qsize q + 1\<rparr>))))"

definition queue_push_wait :: "'a LFQueue \<Rightarrow> 'a \<Rightarrow> 'a LFQueue call result" where
  "queue_push_wait q x =
     (if capacity q \<ge> 0 \<and> qsize q = capacity q
      then Inr (Waiting (sync_call (SignalWait full_queue) q))
      else rbind (queue_push_body q x) (\<lambda>q. Inr (Returned q)))"

definition queue_push :: "'a LFQueue \<Rightarrow> 'a \<Rightarrow> 'a LFQueue call result" where
  "queue_push q x = queue_push_wait (sync_call Lock q) x"

definition queue_set_capacity :: "'a LFQueue \<Rightarrow> int \<Rightarrow> 'a LFQueue" where
  "queue_set_capacity q cap = sync_call Unlock ((sync_call Lock q)\<lparr>capacity := cap\<rparr>)"

definition queue_capacity :: "'a LFQueue \<Rightarrow> int" where
  "queue_capacity q = capacity q"

definition queue_size :: "'a LFQueue \<Rightarrow> int \<times> 'a LFQueue" where
  "queue_size q = (qsize q, sync_call Unlock (sync_call Lock q))"

definition queue_try_push :: "'a LFQueue \<Rightarrow> 'a \<Rightarrow> (bool \<times> 'a LFQueue) result" where
  "queue_try_push q x =
     (let q = sync_call Lock q in
      if capacity q \<ge> 0 \<and> qsize q = capacity q then Inr (False, sync_call Unlock q)
      else let (el, q) = new_element q x in
        if qsize q \<le> 0 then
          Inr (True, sync_call (SignalOne empty_queue) (sync_call Unlock
                 (q\<lparr>head := el, tail := el, qsize := qsize q + 1\<rparr>)))
        else rbind (set_next q (tail q) el) (\<lambda>q.
          Inr (True, sync_call Unlock (q\<lparr>tail := el, qsize := qsize q + 1\<rparr>))))"

definition queue_isempty :: "'a LFQueue \<Rightarrow> bool \<times> 'a LFQueue" where
  "queue_isempty q = (let (n, q) = queue_size q in (n \<le> 0, q))"

text \<open>
  Taking the first element, common to \<open>queue_pop\<close> and \<open>queue_try_pop\<close> from
  \<open>*destination=q->head->ptr\<close> on. The last \<open>MUTEX_UNLOCK\<close> is executed also
  after the branch that has unlocked and signalled.
\<close>

definition take_head :: "'a LFQueue \<Rightarrow> ('a \<times> 'a LFQueue) result" where
  "take_head q =
     rbind (deref q (head q)) (\<lambda>el.
       let q = q\<lparr>head := nxt el, cells := (cells q)(head q := None)\<rparr>;
           q = (if capacity q > 0 \<and> qsize q + 1 = capacity q
                then sync_call (SignalOne full_queue) (sync_call Unlock q) else q)
       in Inr (ptr el, sync_call Unlock q))"

text \<open>
  \<open>queue_pop\<close> decrements the size, then waits as long as the head is \<open>NULL\<close>.
  \<open>queue_pop_wait\<close> is the loop, entered again each time the wait returns.
\<close>

datatype ('a, 'q) pop_call = PopWaiting 'q | Popped 'a 'q

definition queue_pop_wait :: "'a LFQueue \<Rightarrow> ('a, 'a LFQueue) pop_call result" where
  "queue_pop_wait q =
     (if head q = 0 then Inr (PopWaiting (sync_call (SignalWait empty_queue) q))
      else rbind (take_head q) (\<lambda>(x, q). Inr (Popped x q)))"

definition queue_pop :: "'a LFQueue \<Rightarrow> ('a, 'a LFQueue) pop_call result" where
  "queue_pop q = (let q = sync_call Lock q in queue_pop_wait (q\<lparr>qsize := qsize q - 1\<rparr>))"

definition queue_try_pop :: "'a LFQueue \<Rightarrow> ('a option \<times> 'a LFQueue) result" where
  "queue_try_pop q =
     (let q = sync_call Lock q in
      if qsize q \<le> 0 then Inr (None, sync_call Unlock q)
      else rbind (take_head (q\<lparr>qsize := qsize q - 1\<rparr>)) (\<lambda>(x, q). Inr (Some x, q)))"

text \<open>
  \<open>queue_free\<close>: the loop runs as long as the head is not \<open>NULL\<close> and frees the
  pointers it pops; the result lists them. \<open>None\<close> means that the loop never ends.
\<close>

partial_function (option) queue_free_loop ::
  "'a LFQueue \<Rightarrow> 'a list \<Rightarrow> ('a list \<times> 'a LFQueue) result option" where
  "queue_free_loop q freed =
     (if head q = 0 then Some (Inr (freed, q))
      else case queue_try_pop q of
          Inl e \<Rightarrow> Some (Inl e)
        | Inr (None, q) \<Rightarrow> queue_free_loop q freed
        | Inr (Some p, q) \<Rightarrow> queue_free_loop q (freed @ [p]))"

definition queue_free :: "'a LFQueue \<Rightarrow> ('a list \<times> 'a LFQueue) result option" where
  "queue_free q = queue_free_loop q []"

lemmas queue_op_defs =
  sync_call_def deref_def set_next_def new_element_def queue_push_body_def queue_push_wait_def
  queue_push_def queue_try_push_def take_head_def queue_pop_wait_def queue_pop_def
  queue_try_pop_def queue_set_capacity_def queue_capacity_def queue_size_def queue_isempty_def

section \<open>Linked segments and the represented list\<close>

primrec lseg :: "(addr \<rightharpoonup> 'a queue_element) \<Rightarrow> addr \<Rightarrow> addr list \<Rightarrow> bool" where
  "lseg m p [] \<longleftrightarrow> p = 0"
| "lseg m p (a # as) \<longleftrightarrow> p = a \<and> a \<noteq> 0 \<and> (\<exists>e. m a = Some e \<and> lseg m (nxt e) as)"

definition vals :: "(addr \<rightharpoonup> 'a queue_element) \<Rightarrow> addr list \<Rightarrow> 'a list" where
  "vals m as = map (\<lambda>a. ptr (the (m a))) as"

lemma lseg_upd [simp]: "a \<notin> set as \<Longrightarrow> lseg (m(a := v)) p as \<longleftrightarrow> lseg m p as"
  by (induction as arbitrary: p) auto

lemma vals_upd [simp]: "a \<notin> set as \<Longrightarrow> vals (m(a := v)) as = vals m as"
  by (auto simp: vals_def)

lemma vals_simps [simp]:
  "vals m [] = []" "vals m (a # as) = ptr (the (m a)) # vals m as"
  "vals m (as @ bs) = vals m as @ vals m bs" "length (vals m as) = length as"
  by (simp_all add: vals_def)

lemma vals_Nil_iff [simp]: "vals m as = [] \<longleftrightarrow> as = []" "[] = vals m as \<longleftrightarrow> as = []"
  by (auto simp: vals_def)

lemma lseg_null: "lseg m p as \<Longrightarrow> p = 0 \<longleftrightarrow> as = []"
  by (cases as) auto

lemma lseg_nonzero: "lseg m p as \<Longrightarrow> a \<in> set as \<Longrightarrow> a \<noteq> 0"
  by (induction as arbitrary: p) auto

text \<open>Linking a new last element \<open>n\<close> behind a non-empty segment.\<close>

lemma lseg_snoc:
  assumes "lseg m p as" and "as \<noteq> []" and "distinct as" and "n \<noteq> 0"
    and "\<And>b. b \<in> set as \<Longrightarrow> b \<noteq> last as \<Longrightarrow> m' b = m b"
    and "m' (last as) = Some e" and "nxt e = n" and "m' n = Some f" and "nxt f = 0"
  shows "lseg m' p (as @ [n])"
  using assms
proof (induction as arbitrary: p)
  case Nil
  then show ?case by simp
next
  case (Cons a as)
  show ?case
  proof (cases "as = []")
    case True
    with Cons.prems show ?thesis by auto
  next
    case False
    from Cons.prems obtain g where g: "m a = Some g" "lseg m (nxt g) as" by auto
    from False Cons.prems have "a \<noteq> last as" by auto
    then have "m' a = Some g" using Cons.prems(5) [of a] False g by simp
    moreover have "lseg m' (nxt g) (as @ [n])"
      by (rule Cons.IH [OF g(2) False]) (use Cons.prems False in auto)
    ultimately show ?thesis using Cons.prems(1) by simp
  qed
qed

lemma vals_cong: "(\<And>a. a \<in> set as \<Longrightarrow> ptr (the (m' a)) = ptr (the (m a))) \<Longrightarrow> vals m' as = vals m as"
  by (auto simp: vals_def)

text \<open>
  \<open>rep q xs\<close>: following the links from the head gives exactly the live elements,
  holding \<open>xs\<close>; the size agrees; the tail is the last element unless the list is
  empty, when it may be anything (a freed element, after the last pop).
\<close>

definition rep :: "'a LFQueue \<Rightarrow> 'a list \<Rightarrow> bool" where
  "rep q xs \<longleftrightarrow> (\<exists>as. lseg (cells q) (head q) as \<and> xs = vals (cells q) as \<and> distinct as \<and>
     (as \<noteq> [] \<longrightarrow> tail q = last as) \<and> qsize q = int (length as) \<and>
     dom (cells q) = set as \<and> (\<forall>a \<in> set as. a < brk q) \<and> 0 < brk q)"

lemma repI:
  "lseg (cells q) (head q) as \<Longrightarrow> vals (cells q) as = xs \<Longrightarrow> distinct as \<Longrightarrow>
   (as \<noteq> [] \<Longrightarrow> tail q = last as) \<Longrightarrow> qsize q = int (length as) \<Longrightarrow>
   dom (cells q) = set as \<Longrightarrow> (\<And>a. a \<in> set as \<Longrightarrow> a < brk q) \<Longrightarrow> 0 < brk q \<Longrightarrow> rep q xs"
  unfolding rep_def by blast

lemma repE:
  assumes "rep q xs"
  obtains as where "lseg (cells q) (head q) as" "xs = vals (cells q) as" "distinct as"
    "as \<noteq> [] \<longrightarrow> tail q = last as" "qsize q = int (length as)" "dom (cells q) = set as"
    "\<forall>a \<in> set as. a < brk q" "0 < brk q"
  using assms unfolding rep_def by blast

lemma rep_new: "queue_new True = Some q \<Longrightarrow> rep q []"
  by (auto simp: queue_new_def rep_def)

lemma rep_size: "rep q xs \<Longrightarrow> qsize q = int (length xs)"
  by (auto simp: rep_def)

lemma rep_head: "rep q xs \<Longrightarrow> head q = 0 \<longleftrightarrow> xs = []"
  by (auto simp: rep_def dest: lseg_null)

lemma rep_tail: "rep q xs \<Longrightarrow> xs \<noteq> [] \<Longrightarrow> tail q \<noteq> 0"
  unfolding rep_def by (metis last_in_set lseg_nonzero vals_Nil_iff(1))

lemma lseg_unique: "lseg m p as \<Longrightarrow> lseg m p bs \<Longrightarrow> as = bs"
proof (induction as arbitrary: p bs)
  case Nil
  then show ?case by (cases bs) auto
next
  case (Cons a as)
  then show ?case by (cases bs) auto
qed

lemma rep_unique: "rep q xs \<Longrightarrow> rep q ys \<Longrightarrow> xs = ys"
  by (auto simp: rep_def dest: lseg_unique)

lemma rep_sync_capacity [simp]:
  "rep (sync_call c q) xs \<longleftrightarrow> rep q xs" "rep (q\<lparr>capacity := n\<rparr>) xs \<longleftrightarrow> rep q xs"
  by (simp_all add: rep_def sync_call_def)

lemma sync_call_fields [simp]:
  "head (sync_call c q) = head q" "tail (sync_call c q) = tail q"
  "qsize (sync_call c q) = qsize q" "capacity (sync_call c q) = capacity q"
  "cells (sync_call c q) = cells q" "brk (sync_call c q) = brk q"
  "sync (sync_call c q) = sync q @ [c]"
  by (simp_all add: sync_call_def)


subsection \<open>Pushing and popping on represented queues\<close>

lemma rep_add_empty:
  assumes "rep q []"
  shows "rep ((snd (new_element q x))\<lparr>head := brk q, tail := brk q, qsize := qsize q + 1\<rparr>) [x]"
  using assms
  by (auto simp: rep_def new_element_def vals_def intro!: exI [of _ "[brk q]"])

lemma rep_add_last:
  assumes "rep q xs" and "xs \<noteq> []"
  shows "\<exists>q'. set_next (snd (new_element q x)) (tail q) (brk q) = Inr q' \<and>
              rep (q'\<lparr>tail := brk q, qsize := qsize q' + 1\<rparr>) (xs @ [x]) \<and>
              qsize q' = qsize q \<and> capacity q' = capacity q \<and> sync q' = sync q"
proof -
  from assms(1) obtain as where as: "lseg (cells q) (head q) as" "xs = vals (cells q) as"
      "distinct as" "as \<noteq> [] \<longrightarrow> tail q = last as" "qsize q = int (length as)"
      "dom (cells q) = set as" "\<forall>a \<in> set as. a < brk q" "0 < brk q"
    by (rule repE)
  from assms(2) as(2,4) have ne: "as \<noteq> []" and tl: "tail q = last as" by auto
  have last: "last as \<in> set as" using ne by simp
  then obtain e where e: "cells q (last as) = Some e" using as(6) by blast
  have n: "brk q \<notin> set as" using as(7) by blast
  then have nl: "brk q \<noteq> last as" using last by metis
  have pos: "last as \<noteq> 0" using lseg_nonzero [OF as(1) last] .
  define m where "m = (cells q)(brk q \<mapsto> \<lparr>ptr = x, nxt = 0\<rparr>, last as \<mapsto> e\<lparr>nxt := brk q\<rparr>)"
  define q' where "q' = q\<lparr>cells := m, brk := Suc (brk q)\<rparr>"
  have "lseg m (head q) (as @ [brk q])"
    by (rule lseg_snoc [OF as(1) ne as(3)]) (use as(8) n nl in \<open>auto simp: m_def\<close>)
  moreover have "vals m as = vals (cells q) as"
  proof (rule vals_cong)
    fix a assume "a \<in> set as"
    with n have "a \<noteq> brk q" by metis
    then show "ptr (the (m a)) = ptr (the (cells q a))" using e by (simp add: m_def)
  qed
  then have "vals m (as @ [brk q]) = xs @ [x]" using nl as(2) by (simp add: m_def)
  moreover have "dom m = set (as @ [brk q])" using as(6) last by (auto simp: m_def)
  moreover have "b < Suc (brk q)" if "b \<in> set (as @ [brk q])" for b
    using that as(7) by fastforce
  ultimately have "rep (q'\<lparr>tail := brk q, qsize := qsize q' + 1\<rparr>) (xs @ [x])"
    using as(3,5) n by (intro repI [where as = "as @ [brk q]"]) (simp_all add: q'_def)
  moreover have "set_next (snd (new_element q x)) (tail q) (brk q) = Inr q'"
    using e pos tl nl by (simp add: set_next_def deref_def new_element_def q'_def m_def)
  ultimately show ?thesis by (auto simp: q'_def)
qed

lemma rep_take_head:
  assumes "rep q (x # xs)"
  shows "\<exists>q'. take_head (q\<lparr>qsize := qsize q - 1\<rparr>) = Inr (x, q') \<and> rep q' xs \<and>
              capacity q' = capacity q \<and> qsize q' = qsize q - 1 \<and>
              sync q' = sync q @ (if capacity q > 0 \<and> qsize q = capacity q
                 then [Unlock, SignalOne full_queue, Unlock] else [Unlock])"
proof -
  from assms obtain bs where bs: "lseg (cells q) (head q) bs" "x # xs = vals (cells q) bs"
      "distinct bs" "bs \<noteq> [] \<longrightarrow> tail q = last bs" "qsize q = int (length bs)"
      "dom (cells q) = set bs" "\<forall>a \<in> set bs. a < brk q" "0 < brk q"
    by (rule repE)
  from bs(2) obtain a as where ab: "bs = a # as" by (cases bs) auto
  then obtain e where e: "cells q a = Some e" "lseg (cells q) (nxt e) as" "head q = a" "a \<noteq> 0"
    using bs(1) by auto
  let ?q = "q\<lparr>qsize := qsize q - 1, head := nxt e, cells := (cells q)(a := None)\<rparr>"
  have "dom ((cells q)(a := None)) = set as" using bs(3,6) ab by auto
  then have "rep ?q xs"
    using bs(2,3,4,5,7,8) ab e by (intro repI [where as = as]) auto
  then show ?thesis using e bs(2) ab
    by (auto simp: take_head_def deref_def Let_def)
qed

lemma try_push_full:
  assumes "rep q xs" and "capacity q \<ge> 0" and "int (length xs) = capacity q"
  shows "\<exists>q'. queue_try_push q x = Inr (False, q') \<and> rep q' xs \<and> capacity q' = capacity q \<and>
              sync q' = sync q @ [Lock, Unlock]"
  using assms by (simp add: queue_try_push_def rep_size Let_def)

lemma try_push_ok:
  assumes "rep q xs" and "capacity q < 0 \<or> int (length xs) \<noteq> capacity q"
  shows "\<exists>q'. queue_try_push q x = Inr (True, q') \<and> rep q' (xs @ [x]) \<and>
              capacity q' = capacity q \<and>
              sync q' = sync q @ (if xs = [] then [Lock, Unlock, SignalOne empty_queue]
                                  else [Lock, Unlock])"
proof (cases "xs = []")
  case True
  let ?q = "sync_call Lock q"
  from assms(1) True have "rep ?q []" by simp
  from rep_add_empty [OF this, of x] show ?thesis
    using assms True rep_size [OF assms(1)]
    by (auto simp: queue_try_push_def Let_def new_element_def)
next
  case False
  let ?q = "sync_call Lock q"
  from assms(1) have "rep ?q xs" by simp
  from rep_add_last [OF this False, of x] obtain q' where
    q': "set_next (snd (new_element ?q x)) (tail ?q) (brk ?q) = Inr q'"
    and r: "rep (q'\<lparr>tail := brk ?q, qsize := qsize q' + 1\<rparr>) (xs @ [x])"
    and c: "qsize q' = qsize ?q" "capacity q' = capacity ?q" "sync q' = sync ?q"
    by blast
  have "queue_try_push q x =
      Inr (True, sync_call Unlock (q'\<lparr>tail := brk ?q, qsize := qsize q' + 1\<rparr>))"
    using assms(2) False rep_size [OF assms(1)] q'
    by (auto simp: queue_try_push_def Let_def new_element_def)
  with r c False show ?thesis by simp
qed

lemma try_pop_empty:
  "rep q [] \<Longrightarrow> \<exists>q'. queue_try_pop q = Inr (None, q') \<and> rep q' [] \<and> capacity q' = capacity q"
  by (auto simp: queue_try_pop_def Let_def dest: rep_size)

lemma try_pop_ok:
  assumes "rep q (x # xs)"
  shows "\<exists>q'. queue_try_pop q = Inr (Some x, q') \<and> rep q' xs \<and> capacity q' = capacity q \<and>
              sync q' = sync q @ (if capacity q > 0 \<and> int (Suc (length xs)) = capacity q
                 then [Lock, Unlock, SignalOne full_queue, Unlock] else [Lock, Unlock])"
proof -
  have "rep (sync_call Lock q) (x # xs)" using assms by simp
  from rep_take_head [OF this] show ?thesis
    using rep_size [OF assms] by (auto simp: queue_try_pop_def Let_def)
qed

lemma pop_ok:
  assumes "rep q (x # xs)"
  shows "\<exists>q'. queue_pop q = Inr (Popped x q') \<and> rep q' xs \<and> capacity q' = capacity q"
proof -
  have r: "rep (sync_call Lock q) (x # xs)" using assms by simp
  from rep_take_head [OF this] rep_head [OF r] show ?thesis
    by (auto simp: queue_pop_def queue_pop_wait_def Let_def)
qed

section \<open>The contract of a bounded queue\<close>

text \<open>
  What the kernel relies on of \<open>queue.h\<close> for the calls that do not block:
  first-in first-out order, refusal exactly when the capacity is not negative
  and reached, and no effect on the capacity.
\<close>

locale bounded_queue =
  fixes repr :: "'q \<Rightarrow> 'a list \<Rightarrow> bool"
    and cap :: "'q \<Rightarrow> int"
    and set_cap :: "'q \<Rightarrow> int \<Rightarrow> 'q"
    and try_push :: "'q \<Rightarrow> 'a \<Rightarrow> (bool \<times> 'q) result"
    and try_pop :: "'q \<Rightarrow> ('a option \<times> 'q) result"
  assumes push_full: "repr q xs \<Longrightarrow> cap q \<ge> 0 \<Longrightarrow> int (length xs) = cap q \<Longrightarrow>
      \<exists>q'. try_push q x = Inr (False, q') \<and> repr q' xs \<and> cap q' = cap q"
    and push_ok: "repr q xs \<Longrightarrow> cap q < 0 \<or> int (length xs) \<noteq> cap q \<Longrightarrow>
      \<exists>q'. try_push q x = Inr (True, q') \<and> repr q' (xs @ [x]) \<and> cap q' = cap q"
    and pop_none: "repr q [] \<Longrightarrow> \<exists>q'. try_pop q = Inr (None, q') \<and> repr q' [] \<and> cap q' = cap q"
    and pop_some: "repr q (x # xs) \<Longrightarrow>
      \<exists>q'. try_pop q = Inr (Some x, q') \<and> repr q' xs \<and> cap q' = cap q"
    and set_cap: "repr q xs \<Longrightarrow> repr (set_cap q n) xs \<and> cap (set_cap q n) = n"

text \<open>A sequence of calls and its outcomes, on any implementation and on the specification.\<close>

datatype 'a qcall = TryPush 'a | TryPop | SetCapacity int
datatype 'a qret = Pushed bool | Got "'a option" | Unit

fun run_queue :: "('q \<Rightarrow> int \<Rightarrow> 'q) \<Rightarrow> ('q \<Rightarrow> 'a \<Rightarrow> (bool \<times> 'q) result) \<Rightarrow>
    ('q \<Rightarrow> ('a option \<times> 'q) result) \<Rightarrow> 'q \<Rightarrow> 'a qcall list \<Rightarrow> ('a qret list \<times> 'q) result" where
  "run_queue sc push pop q [] = Inr ([], q)"
| "run_queue sc push pop q (TryPush x # cs) =
     rbind (push q x) (\<lambda>(b, q). rbind (run_queue sc push pop q cs) (\<lambda>(rs, q). Inr (Pushed b # rs, q)))"
| "run_queue sc push pop q (TryPop # cs) =
     rbind (pop q) (\<lambda>(r, q). rbind (run_queue sc push pop q cs) (\<lambda>(rs, q). Inr (Got r # rs, q)))"
| "run_queue sc push pop q (SetCapacity n # cs) =
     rbind (run_queue sc push pop (sc q n) cs) (\<lambda>(rs, q). Inr (Unit # rs, q))"

fun fifo_spec :: "int \<Rightarrow> 'a list \<Rightarrow> 'a qcall list \<Rightarrow> 'a qret list \<times> int \<times> 'a list" where
  "fifo_spec n xs [] = ([], n, xs)"
| "fifo_spec n xs (TryPush x # cs) =
     (if n \<ge> 0 \<and> int (length xs) = n
      then let (rs, s) = fifo_spec n xs cs in (Pushed False # rs, s)
      else let (rs, s) = fifo_spec n (xs @ [x]) cs in (Pushed True # rs, s))"
| "fifo_spec n xs (TryPop # cs) =
     (case xs of [] \<Rightarrow> let (rs, s) = fifo_spec n [] cs in (Got None # rs, s)
      | x # xs \<Rightarrow> let (rs, s) = fifo_spec n xs cs in (Got (Some x) # rs, s))"
| "fifo_spec n xs (SetCapacity m # cs) =
     (let (rs, s) = fifo_spec m xs cs in (Unit # rs, s))"

context bounded_queue
begin

lemma try_push_cases:
  assumes "repr q xs"
  obtains (full) q' where "cap q \<ge> 0" "int (length xs) = cap q"
      "try_push q x = Inr (False, q')" "repr q' xs" "cap q' = cap q"
  | (pushed) q' where "cap q < 0 \<or> int (length xs) \<noteq> cap q"
      "try_push q x = Inr (True, q')" "repr q' (xs @ [x])" "cap q' = cap q"
  using push_full [OF assms, of x] push_ok [OF assms, of x]
  by (cases "cap q \<ge> 0 \<and> int (length xs) = cap q") (auto simp: not_le)

theorem refines_fifo:
  assumes "repr q xs"
  shows "\<exists>q'. run_queue set_cap try_push try_pop q cs = Inr (fst (fifo_spec (cap q) xs cs), q') \<and>
           repr q' (snd (snd (fifo_spec (cap q) xs cs))) \<and>
           cap q' = fst (snd (fifo_spec (cap q) xs cs))"
  using assms
proof (induction cs arbitrary: q xs)
  case Nil
  then show ?case by simp
next
  case (Cons c cs)
  show ?case
  proof (cases c)
    case (TryPush x)
    from Cons.prems show ?thesis
    proof (cases rule: try_push_cases [where x = x])
      case (full q')
      with Cons.IH [OF full(4)] TryPush show ?thesis by (auto simp: Let_def split_beta)
    next
      case (pushed q')
      with Cons.IH [OF pushed(3)] TryPush show ?thesis by (auto simp: Let_def split_beta)
    qed
  next
    case TryPop
    show ?thesis
    proof (cases xs)
      case Nil
      with pop_none Cons.prems obtain q' where q': "try_pop q = Inr (None, q')" "repr q' []"
        "cap q' = cap q" by blast
      with Cons.IH [OF q'(2)] TryPop Nil show ?thesis by (auto simp: Let_def split_beta)
    next
      case xs: (Cons y ys)
      with pop_some Cons.prems obtain q' where q': "try_pop q = Inr (Some y, q')" "repr q' ys"
        "cap q' = cap q" by blast
      with Cons.IH [OF q'(2)] TryPop xs show ?thesis by (auto simp: Let_def split_beta)
    qed
  next
    case (SetCapacity n)
    from set_cap [OF Cons.prems, of n] Cons.IH [of "set_cap q n" xs] SetCapacity
    show ?thesis by (auto simp: Let_def split_beta)
  qed
qed

end

interpretation lfq: bounded_queue rep capacity queue_set_capacity queue_try_push queue_try_pop
proof unfold_locales
  fix q :: "'a LFQueue" and xs :: "'a list" and x :: 'a and n :: int
  show "rep q xs \<Longrightarrow> capacity q \<ge> 0 \<Longrightarrow> int (length xs) = capacity q \<Longrightarrow>
      \<exists>q'. queue_try_push q x = Inr (False, q') \<and> rep q' xs \<and> capacity q' = capacity q"
    using try_push_full [of q xs x] by auto
  show "rep q xs \<Longrightarrow> capacity q < 0 \<or> int (length xs) \<noteq> capacity q \<Longrightarrow>
      \<exists>q'. queue_try_push q x = Inr (True, q') \<and> rep q' (xs @ [x]) \<and> capacity q' = capacity q"
    using try_push_ok [of q xs x] by auto
  show "rep q [] \<Longrightarrow> \<exists>q'. queue_try_pop q = Inr (None, q') \<and> rep q' [] \<and> capacity q' = capacity q"
    by (rule try_pop_empty)
  show "rep q (x # xs) \<Longrightarrow>
      \<exists>q'. queue_try_pop q = Inr (Some x, q') \<and> rep q' xs \<and> capacity q' = capacity q"
    using try_pop_ok [of q x xs] by auto
  show "rep q xs \<Longrightarrow> rep (queue_set_capacity q n) xs \<and> capacity (queue_set_capacity q n) = n"
    by (simp add: queue_set_capacity_def)
qed


section \<open>Properties of the queue\<close>


lemma free_loop_rep:
  "rep q xs \<Longrightarrow> \<exists>q'. queue_free_loop q freed = Some (Inr (freed @ xs, q')) \<and> rep q' []"
proof (induction xs arbitrary: q freed)
  case Nil
  then have "head q = 0" by (simp add: rep_head)
  with Nil show ?case by (simp add: queue_free_loop.simps)
next
  case (Cons x xs)
  from Cons.prems have h: "head q \<noteq> 0" by (simp add: rep_head)
  from try_pop_ok [OF Cons.prems] obtain q1 where q1: "queue_try_pop q = Inr (Some x, q1)" "rep q1 xs"
    by blast
  from Cons.IH [OF q1(2), of "freed @ [x]"] h q1(1) show ?case
    by (simp add: queue_free_loop.simps [of q])
qed

text \<open>
  C27. \<open>queue_free\<close> ends on every consistent queue; it frees the stored pointers
  in order, each once, and leaves no element allocated.
\<close>

theorem queue_free_releases_all:
  assumes "rep q xs"
  shows "\<exists>q'. queue_free q = Some (Inr (xs, q')) \<and> head q' = 0 \<and> cells q' = Map.empty"
proof -
  from free_loop_rep [OF assms, of "[]"] obtain q' where
    q': "queue_free_loop q [] = Some (Inr (xs, q'))" "rep q' []" by auto
  from q'(2) have "cells q' = Map.empty" by (auto simp: rep_def)
  with q' show ?thesis by (simp add: queue_free_def rep_head)
qed

abbreviation wit_queue :: "nat list \<Rightarrow> nat LFQueue" where
  "wit_queue xs \<equiv> snd (projr (run_queue queue_set_capacity queue_try_push queue_try_pop
      (the (queue_new True)) (map TryPush xs)))"

lemma rep_wit_queue: "rep (wit_queue [3, 4]) [3, 4]" "rep (wit_queue [3]) [3]"
proof -
  have n: "rep (the (queue_new True)) ([] :: nat list)"
    by (rule rep_new) (simp add: queue_new_def)
  have c: "capacity (the (queue_new True) :: nat LFQueue) = -1" by (simp add: queue_new_def)
  show "rep (wit_queue [3, 4]) [3, 4]"
    using lfq.refines_fifo [OF n, of "map TryPush [3, 4]"] c by auto
  show "rep (wit_queue [3]) [3]"
    using lfq.refines_fifo [OF n, of "map TryPush [3]"] c by auto
qed

theorem queue_free_releases_all_witness:
  "\<exists>q'. queue_free (wit_queue [3, 4]) = Some (Inr ([3, 4], q')) \<and> cells q' = Map.empty"
  using queue_free_releases_all [OF rep_wit_queue(1)] by blast

text \<open>
  A failed test of the size makes \<open>queue_free\<close> loop for ever: while the head
  is not \<open>NULL\<close> but the size is not positive, \<open>queue_try_pop\<close> refuses to pop and
  the head never changes. (A thread cancelled inside a blocked \<open>queue_pop\<close>
  leaves the size one too low, so one element more makes such a queue.)
\<close>

theorem queue_free_diverges:
  assumes "head q \<noteq> 0" and "qsize q \<le> 0"
  shows "queue_free q = None"
proof (rule ccontr)
  assume "queue_free q \<noteq> None"
  then obtain r where ret: "queue_free_loop q [] = Some r" by (auto simp: queue_free_def)
  have "head q \<noteq> 0 \<longrightarrow> qsize q \<le> 0 \<longrightarrow> False"
  proof (rule queue_free_loop.raw_induct [where P = "\<lambda>q fr r. head q \<noteq> 0 \<longrightarrow> qsize q \<le> 0 \<longrightarrow> False", OF _ ret])
    fix loop :: "'a LFQueue \<Rightarrow> 'a list \<Rightarrow> ('a list \<times> 'a LFQueue) result option"
      and q :: "'a LFQueue" and fr r
    assume IH: "\<And>q fr r. loop q fr = Some r \<Longrightarrow> head q \<noteq> 0 \<longrightarrow> qsize q \<le> 0 \<longrightarrow> False"
      and eq: "(if head q = 0 then Some (Inr (fr, q))
        else case queue_try_pop q of Inl e \<Rightarrow> Some (Inl e)
          | Inr (None, q) \<Rightarrow> loop q fr | Inr (Some p, q) \<Rightarrow> loop q (fr @ [p])) = Some r"
    show "head q \<noteq> 0 \<longrightarrow> qsize q \<le> 0 \<longrightarrow> False"
    proof (intro impI)
      assume h: "head q \<noteq> 0" and z: "qsize q \<le> 0"
      then have "queue_try_pop q = Inr (None, sync_call Unlock (sync_call Lock q))"
        by (simp add: queue_try_pop_def)
      with eq h have "loop (sync_call Unlock (sync_call Lock q)) fr = Some r" by simp
      from IH [OF this] h z show False by simp
    qed
  qed
  with assms show False by blast
qed

theorem queue_free_diverges_witness:
  "\<exists>q :: nat LFQueue. (\<exists>q0. queue_new True = Some q0 \<and>
      (\<exists>q1. queue_pop q0 = Inr (PopWaiting q1) \<and> queue_try_push q1 7 = Inr (True, q))) \<and>
    queue_free q = None"
proof -
  define q :: "nat LFQueue" where
    "q = snd (projr (queue_try_push (case projr (queue_pop (the (queue_new True))) of
        PopWaiting q \<Rightarrow> q | Popped x q \<Rightarrow> q) 7))"
  have "head q \<noteq> 0" and "qsize q \<le> 0"
    by (simp_all add: q_def queue_new_def queue_op_defs Let_def)
  from queue_free_diverges [OF this] show ?thesis
    by (intro exI [of _ q]) (simp add: q_def queue_new_def queue_op_defs Let_def)
qed


lemma take_head_tail:
  "take_head q = Inr (x, q') \<Longrightarrow> tail q' = tail q \<and> cells q' = (cells q)(head q := None)"
  by (auto simp: take_head_def Let_def rbind_Inr_iff)

text \<open>
  C37. \<open>queue_push\<close> decides whether the list is empty by \<open>tail == NULL\<close>, but no
  operation resets the tail: after the last element has been popped, \<open>queue_push\<close>
  writes into the freed element.
\<close>

theorem queue_push_after_drain:
  assumes "rep q [x]" and "queue_try_pop q = Inr (r, q')" and "capacity q \<noteq> 0"
  shows "queue_push q' y = Inl UseAfterFree"
proof -
  from assms(1) obtain a where a: "head q = a" "tail q = a" "a \<noteq> 0" "a < brk q"
    by (auto simp: rep_def Cons_eq_map_conv vals_def)
  from try_pop_ok [OF assms(1)] assms(2) have r: "r = Some x" "rep q' []" "capacity q' = capacity q"
    by auto
  have sz: "qsize q > 0" using rep_size [OF assms(1)] by simp
  have "take_head ((sync_call Lock q)\<lparr>qsize := qsize q - 1\<rparr>) = Inr (x, q')"
    using assms(2) r sz by (auto simp: queue_try_pop_def Let_def rbind_Inr_iff)
  from take_head_tail [OF this] a have t: "tail q' = a" "cells q' a = None" by auto
  have "a \<noteq> brk q'"
  proof -
    have "brk q' = brk q"
      using \<open>take_head _ = _\<close> by (auto simp: take_head_def Let_def rbind_Inr_iff)
    with a(4) show ?thesis by simp
  qed
  with t a(3) r assms(3) rep_size [OF r(2)] show ?thesis
    by (simp add: queue_push_def queue_push_wait_def queue_push_body_def new_element_def
        set_next_def deref_def)
qed

theorem queue_push_after_drain_witness:
  "\<exists>r q'. queue_try_pop (wit_queue [3]) = Inr (r, q') \<and> queue_push q' 8 = Inl UseAfterFree"
proof -
  from try_pop_ok [OF rep_wit_queue(2)] obtain q' where
    q': "queue_try_pop (wit_queue [3]) = Inr (Some 3, q')" by blast
  have "capacity (wit_queue [3]) \<noteq> 0"
    by (simp add: queue_new_def queue_try_push_def new_element_def sync_call_def)
  from queue_push_after_drain [OF rep_wit_queue(2) q' this, of 8] q' show ?thesis by blast
qed

text \<open>
  \<open>queue_pop\<close> and \<open>queue_push\<close> on a queue that does not make them wait: the
  oldest element is returned, and a push onto a non-empty queue with room
  appends.
\<close>

theorem queue_pop_push_nonempty:
  assumes "rep q (x # xs)"
  shows "(\<exists>q'. queue_pop q = Inr (Popped x q') \<and> rep q' xs \<and> capacity q' = capacity q) \<and>
         (capacity q < 0 \<or> int (Suc (length xs)) \<noteq> capacity q \<longrightarrow>
            (\<exists>q'. queue_push q y = Inr (Returned q') \<and> rep q' (x # xs @ [y])))"
proof
  show "\<exists>q'. queue_pop q = Inr (Popped x q') \<and> rep q' xs \<and> capacity q' = capacity q"
    by (rule pop_ok [OF assms])
  show "capacity q < 0 \<or> int (Suc (length xs)) \<noteq> capacity q \<longrightarrow>
          (\<exists>q'. queue_push q y = Inr (Returned q') \<and> rep q' (x # xs @ [y]))"
  proof
    assume c: "capacity q < 0 \<or> int (Suc (length xs)) \<noteq> capacity q"
    let ?q = "sync_call Lock q"
    have r: "rep ?q (x # xs)" using assms by simp
    from rep_add_last [OF r, of y] obtain q' where
      q': "set_next (snd (new_element ?q y)) (tail ?q) (brk ?q) = Inr q'"
      "rep (q'\<lparr>tail := brk ?q, qsize := qsize q' + 1\<rparr>) ((x # xs) @ [y])" by blast
    have "tail q \<noteq> 0" by (rule rep_tail [OF assms]) simp
    with q' c rep_size [OF assms] show "\<exists>q'. queue_push q y = Inr (Returned q') \<and> rep q' (x # xs @ [y])"
      by (auto simp: queue_push_def queue_push_wait_def queue_push_body_def new_element_def)
  qed
qed

theorem queue_pop_push_nonempty_witness:
  "(\<exists>q'. queue_pop (wit_queue [3, 4]) = Inr (Popped 3 q') \<and> rep q' [4]) \<and>
   (\<exists>q'. queue_push (wit_queue [3, 4]) 5 = Inr (Returned q') \<and> rep q' [3, 4, 5])"
proof -
  have "capacity (wit_queue [3, 4]) < 0"
    by (simp add: queue_new_def queue_try_push_def new_element_def sync_call_def set_next_def deref_def)
  with queue_pop_push_nonempty [OF rep_wit_queue(1), of 5] show ?thesis by auto
qed

text \<open>
  Popping from a full queue unlocks the mutex twice: the branch that signals
  \<open>full_queue\<close> has already unlocked it, and falls through to the final unlock.
\<close>

theorem queue_try_pop_double_unlock:
  assumes "rep q (x # xs)" and "capacity q = int (Suc (length xs))"
  shows "\<exists>q'. queue_try_pop q = Inr (Some x, q') \<and>
              sync q' = sync q @ [Lock, Unlock, SignalOne full_queue, Unlock]"
  using try_pop_ok [OF assms(1)] assms(2) by auto

theorem queue_try_pop_double_unlock_witness:
  "\<exists>q'. queue_try_pop (queue_set_capacity (wit_queue [3, 4]) 2) = Inr (Some 3, q') \<and>
      sync q' = sync (queue_set_capacity (wit_queue [3, 4]) 2)
                  @ [Lock, Unlock, SignalOne full_queue, Unlock]"
proof (rule queue_try_pop_double_unlock)
  show "rep (queue_set_capacity (wit_queue [3, 4]) 2) [3, 4]"
    using lfq.set_cap [OF rep_wit_queue(1)] by blast
  show "capacity (queue_set_capacity (wit_queue [3, 4]) 2) = int (Suc (length [4 :: nat]))"
    using lfq.set_cap [OF rep_wit_queue(1)] by simp
qed

text \<open>
  Lowering the capacity below the number of stored elements removes the
  bound: the test is \<open>size == capacity\<close>, so from then on every
  \<open>queue_try_push\<close> succeeds as long as nothing is popped.
\<close>

theorem queue_capacity_below_size:
  assumes "rep q xs" and "0 \<le> n" and "n < int (length xs)"
  shows "\<exists>q'. run_queue queue_set_capacity queue_try_push queue_try_pop q
                (SetCapacity n # map TryPush ys) = Inr (Unit # map (\<lambda>_. Pushed True) ys, q') \<and>
              rep q' (xs @ ys)"
proof -
  have "fifo_spec n zs (map TryPush ys) = (map (\<lambda>_. Pushed True) ys, n, zs @ ys)"
    if "n < int (length zs)" for zs
    using that by (induction ys arbitrary: zs) auto
  with assms(3) lfq.refines_fifo [OF assms(1), of "SetCapacity n # map TryPush ys"]
  show ?thesis by (auto simp: Let_def)
qed

theorem queue_capacity_below_size_witness:
  "\<exists>q'. run_queue queue_set_capacity queue_try_push queue_try_pop (wit_queue [3, 4])
          [SetCapacity 1, TryPush 5, TryPush 6] = Inr ([Unit, Pushed True, Pushed True], q') \<and>
        rep q' [3, 4, 5, 6]"
  using queue_capacity_below_size [OF rep_wit_queue(1), of 1 "[5, 6]"] by simp

section \<open>Blocked poppers\<close>

text \<open>
  Threads calling the blocking \<open>queue_pop\<close>: \<open>EvPop t\<close> is the call, \<open>EvWake t\<close>
  the return of its wait with the mutex (by a signal, or spuriously, as POSIX
  allows). \<open>accepted\<close> and \<open>got\<close> are ghosts: the elements whose push returned
  true, and what each popper received.
\<close>

datatype 'a qev = EvTryPush 'a | EvPop nat | EvWake nat

record 'a qsys =
  que :: "'a LFQueue"
  waiters :: "nat list"
  accepted :: "'a list"
  got :: "(nat \<times> 'a) list"

definition qsys_pop :: "nat \<Rightarrow> ('a, 'a LFQueue) pop_call result \<Rightarrow> 'a qsys \<Rightarrow> 'a qsys result" where
  "qsys_pop t r s = rbind r (\<lambda>c. case c of
      PopWaiting q \<Rightarrow> Inr (s\<lparr>que := q, waiters := t # remove1 t (waiters s)\<rparr>)
    | Popped x q \<Rightarrow> Inr (s\<lparr>que := q, waiters := remove1 t (waiters s), got := got s @ [(t, x)]\<rparr>))"

fun qsys_step :: "'a qsys \<Rightarrow> 'a qev \<Rightarrow> 'a qsys result" where
  "qsys_step s (EvTryPush x) = rbind (queue_try_push (que s) x) (\<lambda>(b, q).
     Inr (s\<lparr>que := q, accepted := accepted s @ (if b then [x] else [])\<rparr>))"
| "qsys_step s (EvPop t) = qsys_pop t (queue_pop (que s)) s"
| "qsys_step s (EvWake t) =
     (if t \<in> set (waiters s) then qsys_pop t (queue_pop_wait (que s)) s else Inr s)"

fun qsys_run :: "'a qsys \<Rightarrow> 'a qev list \<Rightarrow> 'a qsys result" where
  "qsys_run s [] = Inr s"
| "qsys_run s (e # es) = rbind (qsys_step s e) (\<lambda>s. qsys_run s es)"

definition qsys_init :: "'a qsys" where
  "qsys_init = \<lparr>que = the (queue_new True), waiters = [], accepted = [], got = []\<rparr>"


end
