(* ===== verification/Leda_Lua.thy ===== *)
theory Leda_Lua
  imports Leda_Prelude
begin

text \<open>
  The part of the Lua C interface the kernel sources use: values with their type
  tags, numbers (C doubles, as their 64-bit IEEE 754 patterns) and their
  conversions to and from C integers, and the stack of a Lua state, bottom
  first. Only what the Lua reference manual documents is used; string to number
  coercion, function calls, dumping and loading of functions are arguments of
  the definitions that need them.
\<close>

section \<open>Numbers\<close>

type_synonym lua_Number = "64 word"

text \<open>Sign, exponent and fraction of a double.\<close>

definition num_neg :: "lua_Number \<Rightarrow> bool" where
  "num_neg w \<longleftrightarrow> unat w div 2 ^ 63 = 1"

definition num_exp :: "lua_Number \<Rightarrow> nat" where
  "num_exp w = unat w div 2 ^ 52 mod 2 ^ 11"

definition num_frac :: "lua_Number \<Rightarrow> nat" where
  "num_frac w = unat w mod 2 ^ 52"

text \<open>Truncation of a finite double towards zero; infinities and NaN have none.\<close>

definition num_trunc :: "lua_Number \<Rightarrow> int option" where
  "num_trunc w =
     (if num_exp w = 2047 then None
      else let m = (if num_exp w = 0 then num_frac w else 2 ^ 52 + num_frac w);
               e = (if num_exp w = 0 then 1 else num_exp w);
               n = (if e \<ge> 1075 then m * 2 ^ (e - 1075) else m div 2 ^ (1075 - e))
           in Some (if num_neg w then - int n else int n))"

text \<open>
  The C conversion to a 64-bit integer (x86-64: values out of range, infinities
  and NaN give the most negative integer).
\<close>

definition num_to_int :: "lua_Number \<Rightarrow> int" where
  "num_to_int w = (case num_trunc w of None \<Rightarrow> - (2 ^ 63)
     | Some z \<Rightarrow> if - (2 ^ 63) \<le> z \<and> z < 2 ^ 63 then z else - (2 ^ 63))"

fun ilog2 :: "nat \<Rightarrow> nat" where
  "ilog2 n = (if n < 2 then 0 else Suc (ilog2 (n div 2)))"

declare ilog2.simps [simp del]

lemma ilog2_bounds: "0 < n \<Longrightarrow> 2 ^ ilog2 n \<le> n \<and> n < 2 ^ Suc (ilog2 n)"
proof (induction n rule: ilog2.induct)
  case (1 n)
  show ?case
  proof (cases "n < 2")
    case True
    with 1 show ?thesis by (simp add: ilog2.simps)
  next
    case False
    with 1 have IH: "2 ^ ilog2 (n div 2) \<le> n div 2" "n div 2 < 2 ^ Suc (ilog2 (n div 2))" by simp_all
    from IH(1) have "2 * 2 ^ ilog2 (n div 2) \<le> n" by simp
    moreover from IH(2) have "n < 2 * 2 ^ Suc (ilog2 (n div 2))" by simp
    ultimately show ?thesis using False by (simp add: ilog2.simps [of n])
  qed
qed

text \<open>
  The conversion of an integer to a double, exact below \<open>2 ^ 53\<close> and rounded to the
  nearest double, ties to an even fraction, above. A fraction rounded up to
  \<open>2 ^ 53\<close> carries into the exponent.
\<close>

definition round_shift :: "nat \<Rightarrow> nat \<Rightarrow> nat" where
  "round_shift n k = (let q = n div 2 ^ k; r = n mod 2 ^ k in
     if 2 * r > 2 ^ k \<or> (2 * r = 2 ^ k \<and> odd q) then Suc q else q)"

lemma round_shift_0 [simp]: "round_shift n 0 = n"
  by (simp add: round_shift_def)

definition int_to_num :: "int \<Rightarrow> lua_Number" where
  "int_to_num z =
     (let n = nat \<bar>z\<bar>; k = ilog2 n;
          m = (if k \<le> 52 then n * 2 ^ (52 - k) else round_shift n (k - 52))
      in if z = 0 then 0
         else of_nat ((if z < 0 then 2 ^ 63 else 0) + (1023 + k) * 2 ^ 52 + (m - 2 ^ 52)))"

lemma num_fields:
  assumes "e < 2 ^ 11" and "f < 2 ^ 52"
  shows "num_neg (of_nat ((if s then 2 ^ 63 else 0) + e * 2 ^ 52 + f)) = s"
    and "num_exp (of_nat ((if s then 2 ^ 63 else 0) + e * 2 ^ 52 + f)) = e"
    and "num_frac (of_nat ((if s then 2 ^ 63 else 0) + e * 2 ^ 52 + f)) = f"
proof -
  let ?n = "(if s then 2 ^ 63 else 0) + e * 2 ^ 52 + f :: nat"
  have lt: "e * 2 ^ 52 + f < 2 ^ 63" using assms by simp
  then have "?n < 2 ^ 64" by simp
  then have u: "unat (of_nat ?n :: lua_Number) = ?n" by (simp add: unat_of_nat del: of_nat_add)
  have n: "?n = ((if s then 2048 else 0) + e) * 2 ^ 52 + f" by simp
  have "?n div 2 ^ 63 = (if s then 1 else 0)"
  proof (cases s)
    case True
    have "(2 ^ 63 + (e * 2 ^ 52 + f)) div 2 ^ 63 = Suc ((e * 2 ^ 52 + f) div 2 ^ 63)" by simp
    with lt True show ?thesis by (simp add: add.assoc)
  qed (use lt in simp)
  then show "num_neg (of_nat ?n) = s" unfolding num_neg_def u by simp
  have "?n div 2 ^ 52 = (if s then 2048 else 0) + e" using assms(2) unfolding n by simp
  then show "num_exp (of_nat ?n) = e" using assms(1) unfolding num_exp_def u by auto
  have "?n mod 2 ^ 52 = f mod 2 ^ 52" unfolding n by (rule mod_mult_self3)
  then have "?n mod 2 ^ 52 = f" using assms(2) by simp
  then show "num_frac (of_nat ?n) = f" unfolding num_frac_def u by simp
qed

lemma num_to_int_of_int:
  assumes "\<bar>z\<bar> < 2 ^ 53"
  shows "num_to_int (int_to_num z) = z"
proof (cases "z = 0")
  case True
  then show ?thesis
    by (simp add: int_to_num_def num_to_int_def num_trunc_def num_exp_def num_frac_def num_neg_def)
next
  case False
  define n k where "n = nat \<bar>z\<bar>" and "k = ilog2 n"
  have n: "0 < n" "n < 2 ^ 53" using False assms by (auto simp: n_def nat_less_iff)
  then have b: "2 ^ k \<le> n" "n < 2 ^ Suc k" using ilog2_bounds [of n] by (auto simp: k_def)
  have "(2 :: nat) ^ k < 2 ^ 53" using b(1) n(2) by linarith
  then have k: "k \<le> 52" using power_less_imp_less_exp [of "2 :: nat" k 53] by simp
  define m where "m = n * 2 ^ (52 - k)"
  have p: "(2 :: nat) ^ k * 2 ^ (52 - k) = 2 ^ 52" using k by (simp flip: power_add)
  have lo: "2 ^ 52 \<le> m" using mult_le_mono1 [OF b(1), of "2 ^ (52 - k)"] by (simp add: m_def p)
  have hi: "m < 2 ^ 53"
    using mult_less_mono1 [OF b(2), of "2 ^ (52 - k)"] p by (simp add: m_def mult.assoc)
  let ?w = "of_nat ((if z < 0 then 2 ^ 63 else 0) + (1023 + k) * 2 ^ 52 + (m - 2 ^ 52)) :: lua_Number"
  have w: "int_to_num z = ?w"
    using False k by (simp add: int_to_num_def Let_def n_def [symmetric] k_def [symmetric] m_def)
  have e: "1023 + k < 2 ^ 11" and fr: "m - 2 ^ 52 < 2 ^ 52" using k hi lo by simp_all
  note nf = num_fields [OF e fr, of "z < 0"]
  have d: "m div 2 ^ (1075 - (1023 + k)) = n" by (simp add: m_def)
  have "num_trunc ?w = Some (if z < 0 then - int n else int n)"
    unfolding num_trunc_def nf using k lo d by (auto simp: Let_def m_def)
  also have "(if z < 0 then - int n else int n) = z" by (simp add: n_def)
  finally show ?thesis using assms unfolding num_to_int_def w by auto
qed


section \<open>Values and the stack\<close>

text \<open>
  Tables, functions, full userdata and threads are references into the heap of
  their Lua state.
\<close>

datatype lua_value =
    LNil
  | LBoolean bool
  | LLightUserdata c_long
  | LNumber lua_Number
  | LString "byte list"
  | LTable addr
  | LFunction addr
  | LUserdata addr
  | LThread addr

definition LUA_TNONE :: int where "LUA_TNONE = -1"
definition LUA_TNIL :: int where "LUA_TNIL = 0"
definition LUA_TBOOLEAN :: int where "LUA_TBOOLEAN = 1"
definition LUA_TLIGHTUSERDATA :: int where "LUA_TLIGHTUSERDATA = 2"
definition LUA_TNUMBER :: int where "LUA_TNUMBER = 3"
definition LUA_TSTRING :: int where "LUA_TSTRING = 4"
definition LUA_TTABLE :: int where "LUA_TTABLE = 5"
definition LUA_TFUNCTION :: int where "LUA_TFUNCTION = 6"
definition LUA_TUSERDATA :: int where "LUA_TUSERDATA = 7"
definition LUA_TTHREAD :: int where "LUA_TTHREAD = 8"

lemmas lua_tags [simp] =
  LUA_TNONE_def LUA_TNIL_def LUA_TBOOLEAN_def LUA_TLIGHTUSERDATA_def LUA_TNUMBER_def
  LUA_TSTRING_def LUA_TTABLE_def LUA_TFUNCTION_def LUA_TUSERDATA_def LUA_TTHREAD_def

fun type_tag :: "lua_value \<Rightarrow> int" where
  "type_tag LNil = LUA_TNIL"
| "type_tag (LBoolean _) = LUA_TBOOLEAN"
| "type_tag (LLightUserdata _) = LUA_TLIGHTUSERDATA"
| "type_tag (LNumber _) = LUA_TNUMBER"
| "type_tag (LString _) = LUA_TSTRING"
| "type_tag (LTable _) = LUA_TTABLE"
| "type_tag (LFunction _) = LUA_TFUNCTION"
| "type_tag (LUserdata _) = LUA_TUSERDATA"
| "type_tag (LThread _) = LUA_TTHREAD"

text \<open>A C string literal as the bytes of a Lua string.\<close>

definition lit :: "string \<Rightarrow> byte list" where
  "lit s = map (\<lambda>c. of_nat (of_char c)) s"

text \<open>A C string ends at its first zero byte.\<close>

definition c_string :: "byte list \<Rightarrow> byte list" where
  "c_string bs = takeWhile (\<lambda>b. b \<noteq> 0) bs"

text \<open>Positive indices: the \<open>i\<close>-th value from the bottom, counting from one.\<close>

definition lua_index :: "lua_value list \<Rightarrow> nat \<Rightarrow> lua_value option" where
  "lua_index st i = (if 1 \<le> i \<and> i \<le> length st then Some (st ! (i - 1)) else None)"

definition lua_type :: "lua_value list \<Rightarrow> nat \<Rightarrow> int" where
  "lua_type st i = (case lua_index st i of None \<Rightarrow> LUA_TNONE | Some v \<Rightarrow> type_tag v)"

text \<open>
  \<open>lua_tonumber\<close> and \<open>lua_tointeger\<close>: numbers, and strings the Lua core converts
  (\<open>conv\<close>); every other value gives zero.
\<close>

fun value_number :: "(byte list \<Rightarrow> lua_Number option) \<Rightarrow> lua_value \<Rightarrow> lua_Number option" where
  "value_number conv (LNumber n) = Some n"
| "value_number conv (LString s) = conv s"
| "value_number conv _ = None"

definition lua_isnumber :: "(byte list \<Rightarrow> lua_Number option) \<Rightarrow> lua_value list \<Rightarrow> nat \<Rightarrow> bool" where
  "lua_isnumber conv st i =
     (case lua_index st i of None \<Rightarrow> False | Some v \<Rightarrow> value_number conv v \<noteq> None)"

definition lua_tonumber :: "(byte list \<Rightarrow> lua_Number option) \<Rightarrow> lua_value list \<Rightarrow> nat \<Rightarrow> lua_Number" where
  "lua_tonumber conv st i = (case lua_index st i of None \<Rightarrow> 0
     | Some v \<Rightarrow> (case value_number conv v of None \<Rightarrow> 0 | Some n \<Rightarrow> n))"

definition lua_tointeger :: "(byte list \<Rightarrow> lua_Number option) \<Rightarrow> lua_value list \<Rightarrow> nat \<Rightarrow> int" where
  "lua_tointeger conv st i = num_to_int (lua_tonumber conv st i)"

definition lua_toboolean :: "lua_value list \<Rightarrow> nat \<Rightarrow> bool" where
  "lua_toboolean st i = (case lua_index st i of None \<Rightarrow> False
     | Some v \<Rightarrow> v \<noteq> LNil \<and> v \<noteq> LBoolean False)"

text \<open>
  The conversions of the Lua core between strings and numbers, and
  \<open>lua_tointeger\<close> and \<open>lua_tolstring\<close> of a value at hand. \<open>lua_tolstring\<close> returns
  \<open>NULL\<close> with length 0 for anything but strings and numbers, of which the
  sources copy 0 bytes.
\<close>

record lua_core =
  str2number :: "byte list \<Rightarrow> lua_Number option"
  number2str :: "lua_Number \<Rightarrow> byte list"

definition value_integer :: "(byte list \<Rightarrow> lua_Number option) \<Rightarrow> lua_value \<Rightarrow> int" where
  "value_integer conv v = num_to_int (case value_number conv v of None \<Rightarrow> 0 | Some n \<Rightarrow> n)"

fun value_string :: "(lua_Number \<Rightarrow> byte list) \<Rightarrow> lua_value \<Rightarrow> byte list" where
  "value_string fmt (LString s) = s"
| "value_string fmt (LNumber n) = fmt n"
| "value_string fmt _ = []"

text \<open>\<open>lua_pushinteger\<close> and \<open>lua_remove\<close>.\<close>

definition LInteger :: "int \<Rightarrow> lua_value" where
  "LInteger z = LNumber (int_to_num z)"

definition lua_remove :: "lua_value list \<Rightarrow> nat \<Rightarrow> lua_value list" where
  "lua_remove st i = take (i - 1) st @ drop i st"

lemma lua_index_simps [simp]:
  "lua_index (v # st) (Suc 0) = Some v"
  "lua_index (v # st) (Suc (Suc i)) = lua_index st (Suc i)"
  "lua_index st 0 = None" "lua_index [] i = None"
  by (simp_all add: lua_index_def)

lemma lua_index_two [simp]: "lua_index (v # w # st) 2 = Some w"
  by (simp add: lua_index_def)

lemma tointeger_LInteger [simp]:
  "lua_index st i = Some (LInteger z) \<Longrightarrow> \<bar>z\<bar> < 2 ^ 53 \<Longrightarrow> lua_tointeger conv st i = z"
  by (simp add: lua_tointeger_def lua_tonumber_def LInteger_def num_to_int_of_int)

lemma zero_num_to_int [simp]: "num_to_int 0 = 0"
  using num_to_int_of_int [of 0] by (simp add: int_to_num_def)

lemma value_integer_LInteger [simp]: "\<bar>z\<bar> < 2 ^ 53 \<Longrightarrow> value_integer conv (LInteger z) = z"
  by (simp add: value_integer_def LInteger_def num_to_int_of_int)

lemma value_integer_nil [simp]: "value_integer conv LNil = 0"
  by (simp add: value_integer_def)

text \<open>
  A Lua state as the kernel uses it: the stack, bottom first, and the handler
  coroutine kept in the registry.
\<close>

record lua_State =
  stack :: "lua_value list"
  handler :: lua_value

text \<open>\<open>lua_settop(L,0); GET_HANDLER(L);\<close> followed by pushing the values \<open>vs\<close>.\<close>

definition load_handler :: "lua_value list \<Rightarrow> lua_State \<Rightarrow> lua_State" where
  "load_handler vs L = L\<lparr>stack := handler L # vs\<rparr>"

end
