(* ===== verification/Leda_Stats.thy ===== *)
theory Leda_Stats
  imports Leda_Atomic
begin

text \<open>
  The statistics of \<open>src/kernel/stats.c\<close>: one group of atomic counters per stage
  and per connector, the callbacks a controller may register, and the events
  activated on the kernel's event base for them (\<open>kevents\<close>, oldest first; the
  dispatch of the event base is libevent's).
\<close>

section \<open>Data\<close>

record s_stats =
  s_avg :: atomicInt
  s_n :: atomicInt
  s_executed :: atomicInt
  s_events :: atomicInt
  s_error :: atomicInt
  s_active :: atomicInt

record c_stats =
  c_time :: atomicInt
  c_n :: atomicInt
  c_events :: atomicInt

text \<open>The argument block of a kernel event and the handler it is activated for.\<close>

datatype kernel_event =
    KRelease int c_long
  | KEvent int c_long int c_long c_long
  | KError int

record stats =
  sstats :: "s_stats list"
  cstats :: "c_stats list"
  nstages :: nat
  nconnectors :: nat
  has_error_cb :: bool
  has_event_cb :: bool
  has_release_cb :: bool
  kevents :: "kernel_event list"

section \<open>Operations\<close>

definition upd_sstat :: "int \<Rightarrow> (s_stats \<Rightarrow> s_stats) \<Rightarrow> stats \<Rightarrow> stats result" where
  "upd_sstat i f st = rbind (array_upd (sstats st) i f) (\<lambda>xs. Inr (st\<lparr>sstats := xs\<rparr>))"

definition upd_cstat :: "int \<Rightarrow> (c_stats \<Rightarrow> c_stats) \<Rightarrow> stats \<Rightarrow> stats result" where
  "upd_cstat i f st = rbind (array_upd (cstats st) i f) (\<lambda>xs. Inr (st\<lparr>cstats := xs\<rparr>))"

definition activate :: "kernel_event \<Rightarrow> stats \<Rightarrow> stats" where
  "activate e st = st\<lparr>kevents := kevents st @ [e]\<rparr>"

definition stats_latency_reset :: "stats \<Rightarrow> stats result" where
  "stats_latency_reset st =
     rbind (for_each (\<lambda>i. upd_sstat (int i) (\<lambda>s. s\<lparr>s_avg := STORE (s_avg s) 0, s_n := STORE (s_n s) 0\<rparr>))
              [0..<nstages st] st)
       (for_each (\<lambda>i. upd_cstat (int i) (\<lambda>c. c\<lparr>c_time := STORE (c_time c) 0, c_n := STORE (c_n c) 0\<rparr>))
              [0..<nconnectors st])"

definition stats_update_time :: "int \<Rightarrow> c_long \<Rightarrow> stats \<Rightarrow> stats result" where
  "stats_update_time sid t st =
     rbind (upd_sstat sid (\<lambda>s. s\<lparr>s_avg := ADD (s_avg s) t, s_n := ADD (s_n s) 1\<rparr>) st) (\<lambda>st.
     Inr (if has_release_cb st then activate (KRelease sid t) st else st))"

definition stats_update_events :: "int \<Rightarrow> c_long \<Rightarrow> int \<Rightarrow> c_long \<Rightarrow> stats \<Rightarrow> stats result" where
  "stats_update_events sid e c_id t st =
     rbind (upd_sstat sid (\<lambda>s. s\<lparr>s_events := ADD (s_events s) e\<rparr>) st) (\<lambda>st.
     rbind (upd_cstat c_id (\<lambda>c. c\<lparr>c_time := ADD (c_time c) t, c_n := ADD (c_n c) 1,
                                  c_events := ADD (c_events c) 1\<rparr>) st) (\<lambda>st.
     if has_event_cb st then
       rbind (array_get (sstats st) sid) (\<lambda>s. rbind (array_get (cstats st) c_id) (\<lambda>c.
         Inr (activate (KEvent sid (READ (s_events s)) c_id (READ (c_n c)) t) st)))
     else Inr st))"

definition stats_update_error :: "int \<Rightarrow> c_long \<Rightarrow> stats \<Rightarrow> stats result" where
  "stats_update_error sid e st =
     rbind (upd_sstat sid (\<lambda>s. s\<lparr>s_error := ADD (s_error s) e\<rparr>) st) (\<lambda>st.
     Inr (if has_error_cb st then activate (KError sid) st else st))"

definition stats_active_instance :: "int \<Rightarrow> stats \<Rightarrow> stats result" where
  "stats_active_instance sid = upd_sstat sid (\<lambda>s.
     s\<lparr>s_executed := ADD (s_executed s) 1, s_active := ADD (s_active s) 1\<rparr>)"

definition stats_inactive_instance :: "int \<Rightarrow> stats \<Rightarrow> stats result" where
  "stats_inactive_instance sid = upd_sstat sid (\<lambda>s. s\<lparr>s_active := SUB (s_active s) 1\<rparr>)"

definition stats_reset :: "stats \<Rightarrow> stats result" where
  "stats_reset st =
     rbind (for_each (\<lambda>i. upd_sstat (int i) (\<lambda>s. s\<lparr>s_avg := STORE (s_avg s) 0,
              s_n := STORE (s_n s) 0, s_executed := STORE (s_executed s) 0,
              s_events := STORE (s_events s) 0, s_error := STORE (s_error s) 0\<rparr>))
              [0..<nstages st] st)
       (for_each (\<lambda>i. upd_cstat (int i) (\<lambda>c. c\<lparr>c_time := STORE (c_time c) 0,
              c_n := STORE (c_n c) 0, c_events := STORE (c_events c) 0\<rparr>))
              [0..<nconnectors st])"

definition zero_s :: s_stats where
  "zero_s = \<lparr>s_avg = atomic_new 0, s_n = atomic_new 0, s_executed = atomic_new 0,
     s_events = atomic_new 0, s_error = atomic_new 0, s_active = atomic_new 0\<rparr>"

definition zero_c :: c_stats where
  "zero_c = \<lparr>c_time = atomic_new 0, c_n = atomic_new 0, c_events = atomic_new 0\<rparr>"

definition stats_init :: "nat \<Rightarrow> nat \<Rightarrow> stats \<Rightarrow> stats" where
  "stats_init ns nc st = st\<lparr>nstages := ns, nconnectors := nc,
     sstats := map (\<lambda>_. zero_s) [0..<ns], cstats := map (\<lambda>_. zero_c) [0..<nc]\<rparr>"

definition stats_free :: "stats \<Rightarrow> stats" where
  "stats_free st = st\<lparr>nstages := 0, nconnectors := 0, sstats := [], cstats := []\<rparr>"

text \<open>
  \<open>stats_push\<close>: the table pushed for Lua. A latency is the pair of numerator and
  denominator of the division the code makes in doubles. What the rows read of
  the graph and of the queues is passed in; \<open>arg\<close> is the argument at index 1
  when it is a number.
\<close>

record stage_row =
  r_name :: "byte list"
  r_active :: c_long
  r_maxpar :: int
  r_queue_size :: int
  r_queue_capacity :: int
  r_latency :: "c_long \<times> c_long"
  r_executed :: c_long
  r_events :: c_long
  r_errors :: c_long

record connector_row =
  r_key :: "byte list"
  r_producer :: "byte list"
  r_consumer :: "byte list"
  rc_latency :: "c_long \<times> c_long"
  rc_events :: c_long

text \<open>\<open>long int nn=READ(..); if(nn<=0) nn=1;\<close>\<close>

definition latency_divisor :: "atomicInt \<Rightarrow> c_long" where
  "latency_divisor n = (let nn = READ n in 1000000 * (if sint nn \<le> 0 then 1 else nn))"

definition stats_push_stage ::
  "(int \<Rightarrow> byte list result) \<Rightarrow> (int \<Rightarrow> int result) \<Rightarrow> (int \<Rightarrow> int result) \<Rightarrow> (int \<Rightarrow> int result) \<Rightarrow>
   stats \<Rightarrow> int \<Rightarrow> stage_row result" where
  "stats_push_stage stage_name recycle_cap event_size event_cap st i =
     rbind (stage_name i) (\<lambda>nm. rbind (array_get (sstats st) i) (\<lambda>s.
     rbind (recycle_cap i) (\<lambda>mp. rbind (event_size i) (\<lambda>es. rbind (event_cap i) (\<lambda>ec.
       Inr \<lparr>r_name = nm, r_active = READ (s_active s), r_maxpar = mp, r_queue_size = es,
            r_queue_capacity = ec, r_latency = (READ (s_avg s), latency_divisor (s_n s)),
            r_executed = READ (s_executed s), r_events = READ (s_events s),
            r_errors = READ (s_error s)\<rparr>)))))"

definition stats_push_connector ::
  "(int \<Rightarrow> (byte list \<times> byte list \<times> byte list) result) \<Rightarrow> stats \<Rightarrow> int \<Rightarrow> connector_row result" where
  "stats_push_connector connector_names st i =
     rbind (connector_names i) (\<lambda>(key, prod, cons). rbind (array_get (cstats st) i) (\<lambda>c.
       Inr \<lparr>r_key = key, r_producer = prod, r_consumer = cons,
            rc_latency = (READ (c_time c), latency_divisor (c_n c)), rc_events = READ (c_events c)\<rparr>))"

definition stats_push ::
  "(int \<Rightarrow> stage_row result) \<Rightarrow> (int \<Rightarrow> connector_row result) \<Rightarrow> int option \<Rightarrow> stats \<Rightarrow>
   (stage_row list \<times> connector_row list) result" where
  "stats_push stage_row_of connector_row_of arg st =
     (let n_s = (case arg of None \<Rightarrow> int (nstages st) | Some a \<Rightarrow> c_int (a - 1)) in
      rbind (for_each (\<lambda>i rows. rbind (stage_row_of (int i)) (\<lambda>r. Inr (rows @ [r]))) [0..<nat n_s] [])
        (\<lambda>rows. rbind (if arg = None
             then for_each (\<lambda>i rows. rbind (connector_row_of (int i)) (\<lambda>r. Inr (rows @ [r])))
                    [0..<nconnectors st] []
             else Inr []) (\<lambda>crows. Inr (rows, crows))))"

section \<open>Well-formed statistics\<close>

definition stats_wf :: "stats \<Rightarrow> bool" where
  "stats_wf st \<longleftrightarrow> length (sstats st) = nstages st \<and> length (cstats st) = nconnectors st"

lemma stats_wf_init [simp]: "stats_wf (stats_init ns nc st)"
  by (simp add: stats_wf_def stats_init_def)

lemma upd_sstat_ok:
  "0 \<le> i \<Longrightarrow> nat i < length (sstats st) \<Longrightarrow>
   upd_sstat i f st = Inr (st\<lparr>sstats := (sstats st)[nat i := f (sstats st ! nat i)]\<rparr>)"
  by (simp add: upd_sstat_def array_upd_nat)

lemma upd_cstat_ok:
  "0 \<le> i \<Longrightarrow> nat i < length (cstats st) \<Longrightarrow>
   upd_cstat i f st = Inr (st\<lparr>cstats := (cstats st)[nat i := f (cstats st ! nat i)]\<rparr>)"
  by (simp add: upd_cstat_def array_upd_nat)

lemma for_each_upd_sstat:
  "for_each (\<lambda>i. upd_sstat (int i) f) is st =
   rbind (for_each (\<lambda>i xs. array_upd xs (int i) f) is (sstats st)) (\<lambda>xs. Inr (st\<lparr>sstats := xs\<rparr>))"
  by (induction "is" arbitrary: st) (auto simp: upd_sstat_def rbind_def split: sum.splits)

lemma for_each_upd_cstat:
  "for_each (\<lambda>i. upd_cstat (int i) f) is st =
   rbind (for_each (\<lambda>i xs. array_upd xs (int i) f) is (cstats st)) (\<lambda>xs. Inr (st\<lparr>cstats := xs\<rparr>))"
  by (induction "is" arbitrary: st) (auto simp: upd_cstat_def rbind_def split: sum.splits)

lemmas stats_op_defs =
  stats_latency_reset_def stats_update_time_def stats_update_events_def stats_update_error_def
  stats_active_instance_def stats_inactive_instance_def stats_reset_def activate_def


lemma stats_wf_upd:
  "stats_wf (st\<lparr>sstats := xs\<rparr>) \<longleftrightarrow> length xs = nstages st \<and> length (cstats st) = nconnectors st"
  "stats_wf (st\<lparr>cstats := cs\<rparr>) \<longleftrightarrow> length (sstats st) = nstages st \<and> length cs = nconnectors st"
  "stats_wf (st\<lparr>kevents := ev\<rparr>) \<longleftrightarrow> stats_wf st"
  by (simp_all add: stats_wf_def)

lemma update_time_ok:
  assumes "stats_wf st" and "i < nstages st"
  shows "\<exists>st'. stats_update_time (int i) t st = Inr st' \<and> stats_wf st' \<and> nstages st' = nstages st \<and>
     sstats st' = (sstats st)[i := (sstats st ! i)\<lparr>s_avg := ADD (s_avg (sstats st ! i)) t,
                                      s_n := ADD (s_n (sstats st ! i)) 1\<rparr>]"
  using assms
  by (auto simp: stats_update_time_def upd_sstat_ok stats_wf_def activate_def)

lemma active_ok:
  assumes "stats_wf st" and "i < nstages st"
  shows "\<exists>st'. stats_active_instance (int i) st = Inr st' \<and> stats_wf st' \<and> nstages st' = nstages st \<and>
     nconnectors st' = nconnectors st"
  using assms by (auto simp: stats_active_instance_def upd_sstat_ok stats_wf_def)

lemma inactive_ok:
  assumes "stats_wf st" and "i < nstages st"
  shows "\<exists>st'. stats_inactive_instance (int i) st = Inr st' \<and> stats_wf st' \<and> nstages st' = nstages st \<and>
     nconnectors st' = nconnectors st"
  using assms by (auto simp: stats_inactive_instance_def upd_sstat_ok stats_wf_def)

text \<open>
  The service times of a stage accumulate exactly: after the releases of
  instances of stage \<open>i\<close> with the times \<open>ts\<close>, the time counter has grown by
  their sum and the number of samples by their number, whatever callbacks are
  registered, and no update faults.
\<close>

theorem stats_update_time_accumulates:
  assumes "stats_wf st" and "i < nstages st"
  shows "\<exists>st'. for_each (\<lambda>t. stats_update_time (int i) t) ts st = Inr st' \<and>
     READ (s_avg (sstats st' ! i)) = READ (s_avg (sstats st ! i)) + sum_list ts \<and>
     READ (s_n (sstats st' ! i)) = READ (s_n (sstats st ! i)) + of_nat (length ts)"
  using assms
proof (induction ts arbitrary: st)
  case Nil
  then show ?case by simp
next
  case (Cons t ts)
  from update_time_ok [OF Cons.prems, of t] obtain st1 where
    st1: "stats_update_time (int i) t st = Inr st1" "stats_wf st1" "nstages st1 = nstages st"
    and s: "sstats st1 ! i = (sstats st ! i)\<lparr>s_avg := ADD (s_avg (sstats st ! i)) t,
                                      s_n := ADD (s_n (sstats st ! i)) 1\<rparr>"
    using Cons.prems by (auto simp: stats_wf_def)
  from Cons.IH [OF st1(2)] st1 s Cons.prems show ?case by (auto simp: algebra_simps)
qed

abbreviation wit_stats :: stats where
  "wit_stats \<equiv> stats_init 2 1 \<lparr>sstats = [], cstats = [], nstages = 0, nconnectors = 0,
     has_error_cb = False, has_event_cb = True, has_release_cb = True, kevents = []\<rparr>"

theorem stats_update_time_accumulates_witness:
  "\<exists>st'. for_each (\<lambda>t. stats_update_time (int 1) t) [10, 20, 30] wit_stats = Inr st' \<and>
     READ (s_avg (sstats st' ! 1)) = 60 \<and> READ (s_n (sstats st' ! 1)) = 3"
  using stats_update_time_accumulates [of wit_stats 1 "[10, 20, 30]"]
  by (simp add: stats_init_def zero_s_def stats_wf_def numeral_2_eq_2 del: for_each.simps)

lemma reset_ok:
  assumes "stats_wf st"
  shows "stats_reset st = Inr (st\<lparr>
     sstats := map (\<lambda>s. s\<lparr>s_avg := STORE (s_avg s) 0, s_n := STORE (s_n s) 0,
        s_executed := STORE (s_executed s) 0, s_events := STORE (s_events s) 0,
        s_error := STORE (s_error s) 0\<rparr>) (sstats st),
     cstats := map (\<lambda>c. c\<lparr>c_time := STORE (c_time c) 0, c_n := STORE (c_n c) 0,
        c_events := STORE (c_events c) 0\<rparr>) (cstats st)\<rparr>)"
  using assms
  by (simp add: stats_reset_def for_each_upd_sstat for_each_upd_cstat stats_wf_def
      for_each_array_upd_all)

text \<open>
  C30. Resetting the statistics clears every counter of every stage and connector
  except the number of active instances, which counts instances that are still
  running.
\<close>

theorem stats_reset_keeps_active:
  assumes "stats_wf st"
  shows "\<exists>st'. stats_reset st = Inr st' \<and> stats_wf st' \<and> kevents st' = kevents st \<and>
     (\<forall>i < nstages st. READ (s_active (sstats st' ! i)) = READ (s_active (sstats st ! i)) \<and>
        READ (s_avg (sstats st' ! i)) = 0 \<and> READ (s_n (sstats st' ! i)) = 0 \<and>
        READ (s_executed (sstats st' ! i)) = 0 \<and> READ (s_events (sstats st' ! i)) = 0 \<and>
        READ (s_error (sstats st' ! i)) = 0) \<and>
     (\<forall>j < nconnectors st. READ (c_time (cstats st' ! j)) = 0 \<and> READ (c_n (cstats st' ! j)) = 0 \<and>
        READ (c_events (cstats st' ! j)) = 0)"
  using assms by (simp add: reset_ok) (simp add: stats_wf_def)

theorem stats_reset_keeps_active_witness:
  "\<exists>st st'. stats_active_instance 1 wit_stats = Inr st \<and> stats_reset st = Inr st' \<and>
     READ (s_active (sstats st' ! 1)) = 1 \<and> READ (s_executed (sstats st' ! 1)) = 0"
proof -
  from active_ok [of wit_stats 1] obtain st where
    st: "stats_active_instance 1 wit_stats = Inr st" "stats_wf st" "nstages st = 2"
    by (auto simp: stats_init_def stats_wf_def)
  have "READ (s_active (sstats st ! 1)) = 1"
    using st(1) by (auto simp: stats_active_instance_def upd_sstat_def array_upd_def array_get_def
        array_set_def stats_init_def zero_s_def numeral_2_eq_2)
  with stats_reset_keeps_active [OF st(2)] st show ?thesis by auto
qed

text \<open>
  Asked for one stage, \<open>stats_push\<close> returns the rows of the stages before
  it: the loop starts again from zero and runs up to the requested index, so the
  row of the requested stage itself is never pushed.
\<close>

theorem stats_push_selected_stage:
  assumes "\<And>i. i < n \<Longrightarrow> row (int i) = Inr (rows ! i)" and "length rows = n"
    and "1 \<le> a" and "a \<le> n" and "a < 2 ^ 31"
  shows "stats_push row crow (Some (int a)) st = Inr (take (a - 1) rows, [])"
proof -
  have "for_each (\<lambda>i rs. rbind (row (int i)) (\<lambda>r. Inr (rs @ [r]))) [0..<k] [] = Inr (take k rows)"
    if "k \<le> n" for k
    using that
  proof (induction k)
    case 0
    then show ?case by simp
  next
    case (Suc k)
    then show ?case
      using assms(1) [of k] assms(2) by (simp add: for_each_append take_Suc_conv_app_nth)
  qed
  moreover have "c_int (int a - 1) = int (a - 1)" using assms(3,5) by (simp add: of_nat_diff)
  ultimately show ?thesis using assms(4) by (simp add: stats_push_def)
qed

abbreviation wit_row :: "nat \<Rightarrow> stage_row" where
  "wit_row i \<equiv> \<lparr>r_name = [], r_active = of_nat i, r_maxpar = -1, r_queue_size = 0,
     r_queue_capacity = -1, r_latency = (0, 1000000), r_executed = 0, r_events = 0, r_errors = 0\<rparr>"

theorem stats_push_selected_stage_witness:
  "stats_push (\<lambda>i. Inr (map wit_row [0, 1, 2] ! nat i)) (\<lambda>_. Inl OutOfBounds) (Some (int 2)) wit_stats
     = Inr ([wit_row 0], [])"
  by (subst stats_push_selected_stage [of 3 _ "map wit_row [0, 1, 2]" 2]) simp_all

end
