(* ===== verification/Leda_Graph.thy ===== *)
theory Leda_Graph
  imports Leda_Lua "HOL-Library.Multiset"
begin

text \<open>
  The read-only graph of \<open>src/kernel/graph.c\<close> and \<open>graph.h\<close>: the arrays of
  stages, connectors, clusters and processes, the functions that read them, the
  construction of the arrays from the Lua table of a graph, and their release.

  A graph is built from a Lua object with methods. What the methods answer, and
  the order in which \<open>lua_next\<close> visits a table, are the input (\<open>lua_graph\<close>);
  objects are Lua values, used as keys of the four id tables.
\<close>

section \<open>The arrays\<close>

text \<open>
  An output key is a string or a number; a key entry that \<open>calloc\<close> cleared and
  nobody filled is the pair \<open>(None, 0)\<close>. A pointer array entry is \<open>None\<close> while
  it is \<open>NULL\<close>.
\<close>

datatype graph_key = KString "byte list" | KNumber lua_Number

type_synonym key = "graph_key option \<times> int"

record stage_data =
  sd_name :: "byte list"
  sd_env :: "byte list"
  sd_output :: "key list"
  sd_serial :: bool
  sd_cluster :: int

record connector_data =
  cd_name :: "byte list"
  cd_p :: int
  cd_c :: int
  cd_send :: "byte list"

record process_data =
  pd_host :: "byte list"
  pd_port :: int

record cluster_data =
  cl_name :: "byte list"
  cl_processes :: "int list"
  cl_local :: bool

record graph_data =
  g_name :: "byte list"
  g_s :: "stage_data option list"
  n_s :: nat
  g_c :: "connector_data option list"
  n_c :: nat
  g_cl :: "cluster_data option list"
  n_cl :: nat
  g_d :: "process_data option list"
  n_d :: nat

text \<open>
  \<open>STAGE(i)\<close> and the like, followed by a field access: the array is read without a
  test and the entry dereferenced.
\<close>

definition deref_slot :: "'a option list \<Rightarrow> int \<Rightarrow> 'a result" where
  "deref_slot xs i = rbind (array_get xs i)
     (\<lambda>x. case x of None \<Rightarrow> Inl NullDeref | Some y \<Rightarrow> Inr y)"

definition STAGE :: "graph_data \<Rightarrow> int \<Rightarrow> stage_data result" where
  "STAGE g i = deref_slot (g_s g) i"

definition CONNECTOR :: "graph_data \<Rightarrow> int \<Rightarrow> connector_data result" where
  "CONNECTOR g i = deref_slot (g_c g) i"

definition CLUSTER :: "graph_data \<Rightarrow> int \<Rightarrow> cluster_data result" where
  "CLUSTER g i = deref_slot (g_cl g) i"

definition PROCESS :: "graph_data \<Rightarrow> int \<Rightarrow> process_data result" where
  "PROCESS g i = deref_slot (g_d g) i"

text \<open>
  The getters compare an \<open>int\<close> with a \<open>size_t\<close>: the identifier is converted to 64
  unsigned bits first, so a negative one is larger than any count.
\<close>

definition size_of_int :: "int \<Rightarrow> int" where
  "size_of_int i = i mod 2 ^ 64"

definition graph_get_connector :: "graph_data option \<Rightarrow> int \<Rightarrow> connector_data option result" where
  "graph_get_connector g i = (case g of None \<Rightarrow> Inr None
     | Some g \<Rightarrow> if size_of_int i > int (n_c g) then Inr None else array_get (g_c g) i)"

definition graph_get_cluster :: "graph_data option \<Rightarrow> int \<Rightarrow> cluster_data option result" where
  "graph_get_cluster g i = (case g of None \<Rightarrow> Inr None
     | Some g \<Rightarrow> if size_of_int i > int (n_cl g) then Inr None else array_get (g_cl g) i)"

definition graph_get_stage :: "graph_data option \<Rightarrow> int \<Rightarrow> stage_data option result" where
  "graph_get_stage g i = (case g of None \<Rightarrow> Inr None
     | Some g \<Rightarrow> if size_of_int i > int (n_s g) then Inr None else array_get (g_s g) i)"

section \<open>The Lua object a graph is built from\<close>

text \<open>
  A method is absent (\<open>None\<close>: the field is no function), or answers with a result,
  which may be an error it raises. Tables that are iterated are lists in the
  order of \<open>lua_next\<close>. An id table is absent when the field holds no table.
\<close>

type_synonym id_table = "lua_value \<rightharpoonup> lua_value"
type_synonym 'a lua_method = "'a result option"

record lua_graph =
  lg_name :: lua_value
  lg_stagesid :: "id_table option"
  lg_connectorsid :: "id_table option"
  lg_clustersid :: "id_table option"
  lg_processesid :: "id_table option"
  count_processes :: "lua_value lua_method"
  count_clusters :: "lua_value lua_method"
  count_stages :: "lua_value lua_method"
  count_connectors :: "lua_value lua_method"
  lg_processes :: "lua_value list lua_method"
  lg_clusters :: "lua_value list lua_method"
  lg_stages :: "lua_value list lua_method"
  lg_connectors :: "lua_value list lua_method"
  field :: "lua_value \<Rightarrow> string \<Rightarrow> lua_value"
  process_addr :: "lua_value \<Rightarrow> lua_value list option"
  is_local :: "lua_value \<Rightarrow> lua_value lua_method"
  mar_encoded :: "lua_value \<Rightarrow> byte list result"
  get_cluster :: "lua_value \<Rightarrow> lua_value result"
  get_output :: "lua_value \<Rightarrow> (lua_value \<times> lua_value) list lua_method"
  is_graph :: bool
  core :: lua_core

definition call_method :: "'a lua_method \<Rightarrow> 'a result" where
  "call_method m = (case m of None \<Rightarrow> Inl (LuaError ''function expected'') | Some r \<Rightarrow> r)"

definition gettable :: "id_table \<Rightarrow> lua_value \<Rightarrow> lua_value" where
  "gettable t k = (case t k of None \<Rightarrow> LNil | Some v \<Rightarrow> v)"

text \<open>The identifier found in an id table, as an \<open>int\<close>; an absent object gives 0.\<close>

definition lookup_id :: "lua_graph \<Rightarrow> id_table \<Rightarrow> lua_value \<Rightarrow> int" where
  "lookup_id lg t k = c_int (value_integer (str2number (core lg)) (gettable t k))"

definition str_field :: "lua_graph \<Rightarrow> lua_value \<Rightarrow> string \<Rightarrow> byte list" where
  "str_field lg v f = value_string (number2str (core lg)) (field lg v f)"

definition truthy :: "lua_value \<Rightarrow> bool" where
  "truthy v \<longleftrightarrow> v \<noteq> LNil \<and> v \<noteq> LBoolean False"

text \<open>
  \<open>lua_tointeger\<close> stored into a \<open>size_t\<close>, and \<open>calloc\<close> of that many pointers:
  a request that no address space holds returns \<open>NULL\<close>, an array without entries.
\<close>

definition read_count :: "lua_graph \<Rightarrow> lua_value lua_method \<Rightarrow> nat result" where
  "read_count lg m = rbind (call_method m) (\<lambda>v.
     if type_tag v \<noteq> LUA_TNUMBER then Inl (LuaError ''number expected'')
     else Inr (nat (size_of_int (value_integer (str2number (core lg)) v))))"

definition calloc_slots :: "nat \<Rightarrow> 'a option list" where
  "calloc_slots n = (if n < 2 ^ 60 then replicate n None else [])"

section \<open>Construction\<close>

text \<open>
  The end of the four construction loops: without an id table the object gets the
  next identifier, which is recorded; with one, its identifier is looked up.
\<close>

definition place ::
  "lua_graph \<Rightarrow> bool \<Rightarrow> lua_value \<Rightarrow> 'a \<Rightarrow> nat \<times> id_table \<times> 'a option list \<Rightarrow>
   (nat \<times> id_table \<times> 'a option list) result" where
  "place lg create obj x = (\<lambda>(i, ids, slots).
     if create then rbind (array_set slots (int i) (Some x)) (\<lambda>slots.
       Inr (i + 1, ids(obj \<mapsto> LInteger (int i)), slots))
     else rbind (array_set slots (lookup_id lg ids obj) (Some x)) (\<lambda>slots. Inr (i, ids, slots)))"

definition place_all ::
  "lua_graph \<Rightarrow> id_table option \<Rightarrow> nat \<Rightarrow> (lua_value \<Rightarrow> 'a result) \<Rightarrow> lua_value list \<Rightarrow>
   (id_table \<times> 'a option list) result" where
  "place_all lg tab n mk objs =
     rbind (for_each (\<lambda>obj st. rbind (mk obj) (\<lambda>x. place lg (tab = None) obj x st)) objs
              (0, case tab of None \<Rightarrow> Map.empty | Some t \<Rightarrow> t, calloc_slots n))
       (\<lambda>(_, ids, slots). Inr (ids, slots))"

definition build_process :: "lua_graph \<Rightarrow> lua_value \<Rightarrow> process_data result" where
  "build_process lg v = Inr \<lparr>pd_host = str_field lg v ''host'',
     pd_port = c_int (value_integer (str2number (core lg)) (field lg v ''port''))\<rparr>"

definition build_processes :: "lua_graph \<Rightarrow> graph_data \<Rightarrow> (id_table \<times> graph_data) result" where
  "build_processes lg g =
     rbind (read_count lg (count_processes lg)) (\<lambda>n.
     rbind (call_method (lg_processes lg)) (\<lambda>vs.
     rbind (place_all lg (lg_processesid lg) n (build_process lg) vs) (\<lambda>(ids, d).
     Inr (ids, g\<lparr>n_d := n, g_d := d\<rparr>))))"

definition build_cluster :: "lua_graph \<Rightarrow> id_table \<Rightarrow> lua_value \<Rightarrow> cluster_data result" where
  "build_cluster lg processesid v =
     rbind (call_method (is_local lg v)) (\<lambda>loc.
     case process_addr lg v of
       None \<Rightarrow> Inl (LuaError ''Cluster does not have any process'')
     | Some ps \<Rightarrow> Inr \<lparr>cl_name = str_field lg v ''name'',
         cl_processes = map (lookup_id lg processesid) ps, cl_local = truthy loc\<rparr>)"

definition build_clusters ::
  "lua_graph \<Rightarrow> id_table \<Rightarrow> graph_data \<Rightarrow> (id_table \<times> graph_data) result" where
  "build_clusters lg processesid g =
     rbind (read_count lg (count_clusters lg)) (\<lambda>n.
     rbind (call_method (lg_clusters lg)) (\<lambda>vs.
     rbind (place_all lg (lg_clustersid lg) n (build_cluster lg processesid) vs) (\<lambda>(ids, cl).
     Inr (ids, g\<lparr>n_cl := n, g_cl := cl\<rparr>))))"

definition build_stage :: "lua_graph \<Rightarrow> id_table \<Rightarrow> lua_value \<Rightarrow> stage_data result" where
  "build_stage lg clustersid v =
     rbind (mar_encoded lg v) (\<lambda>senv.
     rbind (get_cluster lg v) (\<lambda>cl.
     Inr \<lparr>sd_name = str_field lg v ''name'', sd_env = senv, sd_output = [],
          sd_serial = (field lg v ''serial'' \<noteq> LNil), sd_cluster = lookup_id lg clustersid cl\<rparr>))"

definition build_stages ::
  "lua_graph \<Rightarrow> id_table \<Rightarrow> graph_data \<Rightarrow> (lua_value list \<times> id_table \<times> graph_data) result" where
  "build_stages lg clustersid g =
     rbind (read_count lg (count_stages lg)) (\<lambda>n.
     rbind (call_method (lg_stages lg)) (\<lambda>vs.
     rbind (place_all lg (lg_stagesid lg) n (build_stage lg clustersid) vs) (\<lambda>(ids, ss).
     Inr (vs, ids, g\<lparr>n_s := n, g_s := ss\<rparr>))))"

definition build_connector :: "lua_graph \<Rightarrow> id_table \<Rightarrow> lua_value \<Rightarrow> connector_data result" where
  "build_connector lg stagesid v = Inr \<lparr>cd_name = str_field lg v ''port'',
     cd_p = lookup_id lg stagesid (field lg v ''producer''),
     cd_c = lookup_id lg stagesid (field lg v ''consumer''),
     cd_send = str_field lg v ''method''\<rparr>"

definition build_connectors ::
  "lua_graph \<Rightarrow> id_table \<Rightarrow> graph_data \<Rightarrow> (id_table \<times> graph_data) result" where
  "build_connectors lg stagesid g =
     rbind (read_count lg (count_connectors lg)) (\<lambda>n.
     rbind (call_method (lg_connectors lg)) (\<lambda>vs.
     rbind (place_all lg (lg_connectorsid lg) n (build_connector lg stagesid) vs) (\<lambda>(ids, cs).
     Inr (ids, g\<lparr>n_c := n, g_c := cs\<rparr>))))"

text \<open>
  The outputs of a stage. The array is sized by the keys that are strings or
  numbers; the filling loop advances on every key. A negative connector makes the
  construction return \<open>NULL\<close> (\<open>None\<close>).
\<close>

fun is_key :: "lua_value \<Rightarrow> bool" where
  "is_key (LString _) = True"
| "is_key (LNumber _) = True"
| "is_key _ = False"

fun key_of :: "lua_value \<Rightarrow> graph_key option" where
  "key_of (LString s) = Some (KString s)"
| "key_of (LNumber n) = Some (KNumber n)"
| "key_of _ = None"

fun fill_output ::
  "lua_graph \<Rightarrow> id_table \<Rightarrow> (lua_value \<times> lua_value) list \<Rightarrow> int \<Rightarrow> key list \<Rightarrow> key list option result" where
  "fill_output lg connectorsid [] k out = Inr (Some out)"
| "fill_output lg connectorsid ((kv, v) # rest) k out =
     rbind (if is_key kv then array_set out k (key_of kv, lookup_id lg connectorsid v) else Inr out)
       (\<lambda>out. rbind (array_get out k) (\<lambda>(_, val).
          if val < 0 then Inr None else fill_output lg connectorsid rest (k + 1) out))"

definition stage_output ::
  "lua_graph \<Rightarrow> id_table \<Rightarrow> (lua_value \<times> lua_value) list \<Rightarrow> key list option result" where
  "stage_output lg connectorsid kvs =
     (let n_out = length (filter (\<lambda>(kv, _). is_key kv) kvs) in
      if n_out > 0 then fill_output lg connectorsid kvs 0 (replicate n_out (None, 0))
      else Inr (Some []))"

fun build_outputs ::
  "lua_graph \<Rightarrow> id_table \<Rightarrow> id_table \<Rightarrow> lua_value list \<Rightarrow> graph_data \<Rightarrow> graph_data option result" where
  "build_outputs lg stagesid connectorsid [] g = Inr (Some g)"
| "build_outputs lg stagesid connectorsid (v # vs) g =
     rbind (call_method (get_output lg v)) (\<lambda>kvs.
     rbind (deref_slot (g_s g) (lookup_id lg stagesid v)) (\<lambda>sd.
     rbind (stage_output lg connectorsid kvs) (\<lambda>out. case out of None \<Rightarrow> Inr None
       | Some out \<Rightarrow> rbind (array_set (g_s g) (lookup_id lg stagesid v) (Some (sd\<lparr>sd_output := out\<rparr>)))
           (\<lambda>ss. build_outputs lg stagesid connectorsid vs (g\<lparr>g_s := ss\<rparr>)))))"

text \<open>
  \<open>build_graph_representation\<close>. The id tables that did not exist are stored back
  into the Lua object: the second component is the object's new set of tables.
\<close>

definition graph_empty :: graph_data where
  "graph_empty = \<lparr>g_name = [], g_s = [], n_s = 0, g_c = [], n_c = 0, g_cl = [], n_cl = 0,
     g_d = [], n_d = 0\<rparr>"

definition build_graph_representation ::
  "lua_graph \<Rightarrow> graph_data \<Rightarrow> (graph_data option \<times> lua_graph) result" where
  "build_graph_representation lg g =
     rbind (build_processes lg (g\<lparr>g_name := value_string (number2str (core lg)) (lg_name lg)\<rparr>)) (\<lambda>(pids, g).
     rbind (build_clusters lg pids g) (\<lambda>(clids, g).
     rbind (build_stages lg clids g) (\<lambda>(stages, sids, g).
     rbind (build_connectors lg sids g) (\<lambda>(cids, g).
     rbind (build_outputs lg sids cids stages g) (\<lambda>res.
     Inr (res, lg\<lparr>lg_processesid := Some pids, lg_clustersid := Some clids,
                  lg_stagesid := Some sids, lg_connectorsid := Some cids\<rparr>))))))"

definition graph_build :: "lua_graph \<Rightarrow> (graph_data \<times> lua_graph) result" where
  "graph_build lg =
     (if \<not> is_graph lg then Inl (LuaError ''Parameter #1 must be a graph'')
      else rbind (build_graph_representation lg graph_empty) (\<lambda>(res, lg').
        case res of None \<Rightarrow> Inl (LuaError ''Error building graph representation'')
        | Some g \<Rightarrow> Inr (g, lg')))"

text \<open>
  \<open>graph_destroy\<close>: the blocks it passes to \<open>free\<close>, in order. Every pointer it frees
  was set by the construction; the entries of the arrays are dereferenced first.
\<close>

datatype graph_block =
    BStages | BConnectorName nat | BConnectorSend nat | BConnector nat | BConnectors
  | BClusterName nat | BClusterProcesses nat | BCluster nat | BClusters
  | BProcessHost nat | BProcess nat | BProcesses

definition free_entries ::
  "'a option list \<Rightarrow> nat \<Rightarrow> (nat \<Rightarrow> graph_block list) \<Rightarrow> graph_block list \<Rightarrow> graph_block list result" where
  "free_entries xs n blocks =
     for_each (\<lambda>i freed. rbind (deref_slot xs (int i)) (\<lambda>_. Inr (freed @ blocks i))) [0..<n]"

definition graph_destroy :: "graph_data \<Rightarrow> (graph_block list \<times> graph_data) result" where
  "graph_destroy g =
     rbind (free_entries (g_c g) (n_c g) (\<lambda>i. [BConnectorName i, BConnectorSend i, BConnector i]) [BStages]) (\<lambda>fr.
     rbind (free_entries (g_cl g) (n_cl g) (\<lambda>i. [BClusterName i, BClusterProcesses i, BCluster i])
              (fr @ [BConnectors])) (\<lambda>fr.
     rbind (free_entries (g_d g) (n_d g) (\<lambda>i. [BProcessHost i, BProcess i]) (fr @ [BClusters])) (\<lambda>fr.
     Inr (fr @ [BProcesses], g\<lparr>g_s := [], g_c := [], g_cl := [], g_d := []\<rparr>))))"

section \<open>Identifiers\<close>

text \<open>
  An id table is good for a list of objects when the identifiers are exactly the
  indices of the array, each used once.
\<close>

definition ids_ok :: "lua_graph \<Rightarrow> id_table \<Rightarrow> lua_value list \<Rightarrow> bool" where
  "ids_ok lg t objs \<longleftrightarrow> distinct objs \<and> length objs < 2 ^ 31 \<and>
     bij_betw (\<lambda>v. lookup_id lg t v) (set objs) {0..<int (length objs)}"

definition slots_ok ::
  "lua_graph \<Rightarrow> id_table \<Rightarrow> (lua_value \<Rightarrow> 'a) \<Rightarrow> lua_value list \<Rightarrow> 'a option list \<Rightarrow> bool" where
  "slots_ok lg t f objs slots \<longleftrightarrow> length slots = length objs \<and>
     (\<forall>v \<in> set objs. slots ! nat (lookup_id lg t v) = Some (f v))"

lemma ids_ok_range:
  "ids_ok lg t objs \<Longrightarrow> v \<in> set objs \<Longrightarrow> 0 \<le> lookup_id lg t v \<and> nat (lookup_id lg t v) < length objs"
  unfolding ids_ok_def using bij_betwE [of "\<lambda>v. lookup_id lg t v" "set objs" "{0..<int (length objs)}"]
  by (force simp: nat_less_iff)

lemma ids_ok_inj:
  "ids_ok lg t objs \<Longrightarrow> v \<in> set objs \<Longrightarrow> w \<in> set objs \<Longrightarrow> nat (lookup_id lg t v) = nat (lookup_id lg t w) \<Longrightarrow> v = w"
  using ids_ok_range [of lg t objs v] ids_ok_range [of lg t objs w]
  unfolding ids_ok_def bij_betw_def inj_on_def by (metis eq_nat_nat_iff)

lemma ids_ok_surj:
  assumes "ids_ok lg t objs" and "i < length objs"
  obtains v where "v \<in> set objs" and "lookup_id lg t v = int i"
proof -
  from assms have "int i \<in> (\<lambda>v. lookup_id lg t v) ` set objs"
    unfolding ids_ok_def bij_betw_def by auto
  with that show thesis by auto
qed

lemma slots_ok_unique:
  assumes ids: "ids_ok lg t objs" and s1: "slots_ok lg t f objs s1" and s2: "slots_ok lg t f objs s2"
  shows "s1 = s2"
proof (rule nth_equalityI)
  show "length s1 = length s2" using s1 s2 by (simp add: slots_ok_def)
  fix i assume "i < length s1"
  then have "i < length objs" using s1 by (simp add: slots_ok_def)
  then obtain v where v: "v \<in> set objs" "lookup_id lg t v = int i" using ids ids_ok_surj by blast
  then show "s1 ! i = s2 ! i" using s1 s2 by (force simp: slots_ok_def)
qed

lemma ids_ok_set_eq:
  "ids_ok lg t objs \<Longrightarrow> set objs' = set objs \<Longrightarrow> distinct objs' \<Longrightarrow> ids_ok lg t objs'"
  unfolding ids_ok_def by (metis distinct_card)

lemma slots_ok_set_eq:
  "slots_ok lg t f objs slots \<Longrightarrow> set objs' = set objs \<Longrightarrow> length objs' = length objs \<Longrightarrow>
   slots_ok lg t f objs' slots"
  by (simp add: slots_ok_def)

text \<open>The table that numbering in iteration order builds.\<close>

definition fresh_ids :: "lua_value list \<Rightarrow> id_table" where
  "fresh_ids objs = map_of (zip objs (map (\<lambda>i. LInteger (int i)) [0..<length objs]))"

lemma map_of_zip_snoc:
  assumes "length xs = length ys" and "v \<notin> set xs"
  shows "map_of (zip (xs @ [v]) (ys @ [y])) = (map_of (zip xs ys))(v \<mapsto> y)"
proof -
  have "map_of (zip xs ys) v = None" using assms by (auto simp: map_of_eq_None_iff dest: set_zip_leftD)
  moreover have "zip (xs @ [v]) (ys @ [y]) = zip xs ys @ [(v, y)]" using assms(1) by simp
  ultimately show ?thesis by (auto simp: fun_eq_iff map_add_def split: option.splits)
qed

lemma fresh_ids_snoc:
  "v \<notin> set objs \<Longrightarrow> fresh_ids (objs @ [v]) = (fresh_ids objs)(v \<mapsto> LInteger (int (length objs)))"
  unfolding fresh_ids_def by (simp add: map_of_zip_snoc del: zip_append)

lemma lookup_fresh:
  assumes "distinct objs" and "length objs < 2 ^ 31" and "i < length objs"
  shows "lookup_id lg (fresh_ids objs) (objs ! i) = int i"
proof -
  have "fresh_ids objs (objs ! i) = Some (LInteger (int i))"
    unfolding fresh_ids_def using assms(1,3) by (subst map_of_zip_nth) auto
  moreover have "value_integer (str2number (core lg)) (LInteger (int i)) = int i" using assms(2,3) by simp
  ultimately show ?thesis using assms(2,3) by (simp add: lookup_id_def gettable_def)
qed

lemma fresh_ids_ok:
  assumes d: "distinct objs" and l: "length objs < 2 ^ 31"
  shows "ids_ok lg (fresh_ids objs) objs"
proof -
  have "bij_betw (\<lambda>v. lookup_id lg (fresh_ids objs) v) (set objs) {0..<int (length objs)}"
    unfolding bij_betw_def
  proof
    show "inj_on (\<lambda>v. lookup_id lg (fresh_ids objs) v) (set objs)"
      using lookup_fresh [OF d l] by (auto simp: inj_on_def in_set_conv_nth)
    show "(\<lambda>v. lookup_id lg (fresh_ids objs) v) ` set objs = {0..<int (length objs)}"
    proof (rule set_eqI)
      fix z
      show "z \<in> (\<lambda>v. lookup_id lg (fresh_ids objs) v) ` set objs \<longleftrightarrow> z \<in> {0..<int (length objs)}"
      proof
        assume "z \<in> {0..<int (length objs)}"
        then have "nat z < length objs" "z = int (nat z)" by auto
        then show "z \<in> (\<lambda>v. lookup_id lg (fresh_ids objs) v) ` set objs"
          using lookup_fresh [OF d l, of "nat z" lg] nth_mem [of "nat z" objs] by (metis image_eqI)
      qed (use lookup_fresh [OF d l] in \<open>auto simp: in_set_conv_nth\<close>)
    qed
  qed
  with d l show ?thesis by (simp add: ids_ok_def)
qed

lemma place_all_fresh:
  assumes "distinct objs" and "length objs < 2 ^ 31" and "\<And>v. v \<in> set objs \<Longrightarrow> mk v = Inr (f v)"
  shows "place_all lg None (length objs) mk objs = Inr (fresh_ids objs, map (Some \<circ> f) objs)"
proof -
  let ?body = "\<lambda>obj st. rbind (mk obj) (\<lambda>x. place lg True obj x st)"
  have "for_each ?body (take k objs) (0, Map.empty, replicate (length objs) None)
      = Inr (k, fresh_ids (take k objs), map (Some \<circ> f) (take k objs) @ replicate (length objs - k) None)"
    if "k \<le> length objs" for k
    using that
  proof (induction k)
    case 0
    then show ?case by (simp add: fresh_ids_def)
  next
    case (Suc k)
    then have k: "k < length objs" by simp
    then have "objs ! k \<notin> set (take k objs)"
      using assms(1) by (auto simp: in_set_conv_nth distinct_conv_nth)
    then have f: "fresh_ids (take (Suc k) objs) = (fresh_ids (take k objs))(objs ! k \<mapsto> LInteger (int k))"
      using k by (simp add: take_Suc_conv_app_nth fresh_ids_snoc)
    have r: "(replicate (length objs - k) None)[0 := Some y] = Some y # replicate (length objs - Suc k) None"
      for y :: 'a using k by (cases "length objs - k") (auto simp: Suc_diff_Suc)
    have "for_each ?body (take (Suc k) objs) (0, Map.empty, replicate (length objs) None)
        = rbind (mk (objs ! k)) (\<lambda>x. place lg True (objs ! k) x (k, fresh_ids (take k objs),
            map (Some \<circ> f) (take k objs) @ replicate (length objs - k) None))"
      using Suc.IH k by (simp add: take_Suc_conv_app_nth for_each_append comp_def)
    also have "\<dots> = Inr (Suc k, fresh_ids (take (Suc k) objs),
        map (Some \<circ> f) (take k objs) @ Some (f (objs ! k)) # replicate (length objs - Suc k) None)"
      using k assms(3) [of "objs ! k"] by (simp add: place_def array_set_def list_update_append r f)
    finally show ?case using k by (simp add: take_Suc_conv_app_nth)
  qed
  from this [of "length objs"] show ?thesis
    using assms(2) by (simp add: place_all_def calloc_slots_def comp_def)
qed

lemma place_all_known:
  assumes ids: "ids_ok lg t objs" and mk: "\<And>v. v \<in> set objs \<Longrightarrow> mk v = Inr (f v)"
  shows "\<exists>slots. place_all lg (Some t) (length objs) mk objs = Inr (t, slots) \<and> slots_ok lg t f objs slots"
proof -
  let ?body = "\<lambda>obj st. rbind (mk obj) (\<lambda>x. place lg False obj x st)"
  have "\<exists>slots. for_each ?body vs (0, t, replicate (length objs) None) = Inr (0, t, slots) \<and>
      length slots = length objs \<and> (\<forall>v \<in> set vs. slots ! nat (lookup_id lg t v) = Some (f v))"
    if "set vs \<subseteq> set objs" and "distinct vs" for vs
    using that
  proof (induction vs rule: rev_induct)
    case Nil
    then show ?case by simp
  next
    case (snoc w vs)
    then obtain slots where s: "for_each ?body vs (0, t, replicate (length objs) None) = Inr (0, t, slots)"
      "length slots = length objs" "\<forall>v \<in> set vs. slots ! nat (lookup_id lg t v) = Some (f v)" by auto
    have w: "w \<in> set objs" using snoc by simp
    note r = ids_ok_range [OF ids w]
    have "\<forall>v \<in> set vs. nat (lookup_id lg t w) \<noteq> nat (lookup_id lg t v)"
    proof
      fix v assume "v \<in> set vs"
      then show "nat (lookup_id lg t w) \<noteq> nat (lookup_id lg t v)"
        using ids_ok_inj [OF ids w, of v] snoc.prems by auto
    qed
    with s r mk [OF w] show ?case
      by (auto simp: for_each_append place_def array_set_nat simp del: eq_nat_nat_iff)
  qed
  from this [of objs] show ?thesis
    using ids by (auto simp: place_all_def calloc_slots_def slots_ok_def ids_ok_def)
qed

text \<open>Both ways of numbering, in one statement.\<close>

lemma place_all_ok:
  assumes tab: "case tab of None \<Rightarrow> distinct objs \<and> length objs < 2 ^ 31 | Some t \<Rightarrow> ids_ok lg t objs"
    and mk: "\<And>v. v \<in> set objs \<Longrightarrow> mk v = Inr (f v)"
  shows "\<exists>slots. place_all lg tab (length objs) mk objs
             = Inr (case tab of None \<Rightarrow> fresh_ids objs | Some t \<Rightarrow> t, slots) \<and>
           ids_ok lg (case tab of None \<Rightarrow> fresh_ids objs | Some t \<Rightarrow> t) objs \<and>
           slots_ok lg (case tab of None \<Rightarrow> fresh_ids objs | Some t \<Rightarrow> t) f objs slots"
proof (cases tab)
  case None
  with tab have d: "distinct objs" "length objs < 2 ^ 31" by simp_all
  have "slots_ok lg (fresh_ids objs) f objs (map (Some \<circ> f) objs)"
    using lookup_fresh [OF d] by (auto simp: slots_ok_def in_set_conv_nth)
  with None mk fresh_ids_ok [OF d] show ?thesis by (simp add: place_all_fresh [OF d, of mk f])
next
  case (Some t)
  with tab place_all_known [of lg t objs mk f] mk show ?thesis by auto
qed

section \<open>What the construction builds\<close>

text \<open>
  The data of each object, as a function of the object and of the id tables; the
  specification the arrays are compared with.
\<close>

definition process_spec :: "lua_graph \<Rightarrow> lua_value \<Rightarrow> process_data" where
  "process_spec lg v = \<lparr>pd_host = str_field lg v ''host'',
     pd_port = c_int (value_integer (str2number (core lg)) (field lg v ''port''))\<rparr>"

definition cluster_spec :: "lua_graph \<Rightarrow> id_table \<Rightarrow> lua_value \<Rightarrow> cluster_data" where
  "cluster_spec lg pids v = \<lparr>cl_name = str_field lg v ''name'',
     cl_processes = map (lookup_id lg pids) (the (process_addr lg v)),
     cl_local = truthy (projr (the (is_local lg v)))\<rparr>"

definition outputs_spec :: "lua_graph \<Rightarrow> id_table \<Rightarrow> (lua_value \<times> lua_value) list \<Rightarrow> key list" where
  "outputs_spec lg cids kvs = map (\<lambda>(k, w). (key_of k, lookup_id lg cids w)) kvs"

definition stage_spec :: "lua_graph \<Rightarrow> id_table \<Rightarrow> id_table \<Rightarrow> lua_value \<Rightarrow> stage_data" where
  "stage_spec lg clids cids v = \<lparr>sd_name = str_field lg v ''name'', sd_env = projr (mar_encoded lg v),
     sd_output = outputs_spec lg cids (projr (the (get_output lg v))),
     sd_serial = (field lg v ''serial'' \<noteq> LNil),
     sd_cluster = lookup_id lg clids (projr (get_cluster lg v))\<rparr>"

definition connector_spec :: "lua_graph \<Rightarrow> id_table \<Rightarrow> lua_value \<Rightarrow> connector_data" where
  "connector_spec lg sids v = \<lparr>cd_name = str_field lg v ''port'',
     cd_p = lookup_id lg sids (field lg v ''producer''),
     cd_c = lookup_id lg sids (field lg v ''consumer''), cd_send = str_field lg v ''method''\<rparr>"

text \<open>
  A Lua object that answers like a graph with these processes, clusters, stages
  and connectors, and with no id tables or with good ones.
\<close>

definition tab_ok :: "lua_graph \<Rightarrow> id_table option \<Rightarrow> lua_value list \<Rightarrow> bool" where
  "tab_ok lg tab objs = (case tab of None \<Rightarrow> distinct objs \<and> length objs < 2 ^ 31
     | Some t \<Rightarrow> ids_ok lg t objs)"

definition final_ids :: "id_table option \<Rightarrow> lua_value list \<Rightarrow> id_table" where
  "final_ids tab objs = (case tab of None \<Rightarrow> fresh_ids objs | Some t \<Rightarrow> t)"

definition answers :: "lua_graph \<Rightarrow> lua_value lua_method \<Rightarrow> lua_value list lua_method \<Rightarrow>
    id_table option \<Rightarrow> lua_value list \<Rightarrow> bool" where
  "answers lg cnt lst tab objs \<longleftrightarrow>
     cnt = Some (Inr (LInteger (int (length objs)))) \<and> lst = Some (Inr objs) \<and> tab_ok lg tab objs"

definition graph_input ::
  "lua_graph \<Rightarrow> lua_value list \<Rightarrow> lua_value list \<Rightarrow> lua_value list \<Rightarrow> lua_value list \<Rightarrow> bool" where
  "graph_input lg ps cls ss cs \<longleftrightarrow> is_graph lg \<and>
     answers lg (count_processes lg) (lg_processes lg) (lg_processesid lg) ps \<and>
     answers lg (count_clusters lg) (lg_clusters lg) (lg_clustersid lg) cls \<and>
     answers lg (count_stages lg) (lg_stages lg) (lg_stagesid lg) ss \<and>
     answers lg (count_connectors lg) (lg_connectors lg) (lg_connectorsid lg) cs \<and>
     (\<forall>v \<in> set cls. (\<exists>r. is_local lg v = Some (Inr r)) \<and> process_addr lg v \<noteq> None) \<and>
     (\<forall>v \<in> set ss. (\<exists>e. mar_encoded lg v = Inr e) \<and> (\<exists>c. get_cluster lg v = Inr c) \<and>
        (\<exists>kvs. get_output lg v = Some (Inr kvs) \<and> (\<forall>(k, w) \<in> set kvs. is_key k \<and> w \<in> set cs)))"

text \<open>The arrays of \<open>g\<close> hold the data of every object at the object's identifier.\<close>

definition represents ::
  "lua_graph \<Rightarrow> graph_data \<Rightarrow> lua_value list \<Rightarrow> lua_value list \<Rightarrow> lua_value list \<Rightarrow> lua_value list \<Rightarrow> bool" where
  "represents lg g ps cls ss cs \<longleftrightarrow>
     (\<exists>pids clids sids cids.
        lg_processesid lg = Some pids \<and> ids_ok lg pids ps \<and> n_d g = length ps \<and>
        slots_ok lg pids (process_spec lg) ps (g_d g) \<and>
        lg_clustersid lg = Some clids \<and> ids_ok lg clids cls \<and> n_cl g = length cls \<and>
        slots_ok lg clids (cluster_spec lg pids) cls (g_cl g) \<and>
        lg_stagesid lg = Some sids \<and> ids_ok lg sids ss \<and> n_s g = length ss \<and>
        slots_ok lg sids (stage_spec lg clids cids) ss (g_s g) \<and>
        lg_connectorsid lg = Some cids \<and> ids_ok lg cids cs \<and> n_c g = length cs \<and>
        slots_ok lg cids (connector_spec lg sids) cs (g_c g)) \<and>
     g_name g = value_string (number2str (core lg)) (lg_name lg)"

lemma read_count_ok:
  "m = Some (Inr (LInteger (int n))) \<Longrightarrow> n < 2 ^ 31 \<Longrightarrow> read_count lg m = Inr n"
proof -
  assume m: "m = Some (Inr (LInteger (int n)))" and n: "n < 2 ^ 31"
  have "value_integer (str2number (core lg)) (LInteger (int n)) = int n" using n by simp
  with m n show ?thesis by (simp add: read_count_def call_method_def size_of_int_def LInteger_def)
qed

lemma tab_ok_length: "tab_ok lg tab objs \<Longrightarrow> length objs < 2 ^ 31"
  by (auto simp: tab_ok_def ids_ok_def split: option.splits)

lemma answersE:
  assumes "answers lg cnt lst tab objs" and "\<And>v. v \<in> set objs \<Longrightarrow> mk v = Inr (f v)"
  obtains slots where "read_count lg cnt = Inr (length objs)" and "call_method lst = Inr objs"
    and "place_all lg tab (length objs) mk objs = Inr (final_ids tab objs, slots)"
    and "ids_ok lg (final_ids tab objs) objs" and "slots_ok lg (final_ids tab objs) f objs slots"
proof -
  have "case tab of None \<Rightarrow> distinct objs \<and> length objs < 2 ^ 31 | Some t \<Rightarrow> ids_ok lg t objs"
    using assms(1) by (simp add: answers_def tab_ok_def)
  from place_all_ok [OF this, of mk f] assms(2) obtain slots where
    "place_all lg tab (length objs) mk objs = Inr (final_ids tab objs, slots)"
    "ids_ok lg (final_ids tab objs) objs" "slots_ok lg (final_ids tab objs) f objs slots"
    unfolding final_ids_def by blast
  moreover have "read_count lg cnt = Inr (length objs)" and "call_method lst = Inr objs"
    using assms(1) read_count_ok [OF _ tab_ok_length] by (auto simp: answers_def call_method_def)
  ultimately show thesis using that by blast
qed

lemma fill_output_ok:
  "\<forall>(k, w) \<in> set kvs. is_key k \<and> 0 \<le> lookup_id lg cids w \<Longrightarrow> length out = j + length kvs \<Longrightarrow>
   fill_output lg cids kvs (int j) out = Inr (Some (take j out @ outputs_spec lg cids kvs))"
proof (induction kvs arbitrary: j out)
  case Nil
  then show ?case by (simp add: outputs_spec_def)
next
  case (Cons kv kvs)
  obtain k w where kv: "kv = (k, w)" by force
  let ?out = "out[j := (key_of k, lookup_id lg cids w)]"
  have j: "j < length out" using Cons.prems by simp
  have "fill_output lg cids kvs (int (Suc j)) ?out = Inr (Some (take (Suc j) ?out @ outputs_spec lg cids kvs))"
    using Cons.prems by (intro Cons.IH) auto
  moreover have "take (Suc j) ?out = take j out @ [(key_of k, lookup_id lg cids w)]"
    using j by (simp add: take_Suc_conv_app_nth)
  ultimately show ?case using Cons.prems j by (simp add: kv outputs_spec_def add.commute)
qed

lemma stage_output_ok:
  assumes "\<forall>(k, w) \<in> set kvs. is_key k \<and> 0 \<le> lookup_id lg cids w"
  shows "stage_output lg cids kvs = Inr (Some (outputs_spec lg cids kvs))"
proof -
  have "filter (\<lambda>(kv, _). is_key kv) kvs = kvs" using assms by (auto simp: filter_id_conv)
  then show ?thesis
    using fill_output_ok [OF assms, of "replicate (length kvs) (None, 0)" 0]
    by (simp add: stage_output_def outputs_spec_def)
qed

lemma build_outputs_ok:
  assumes ids: "ids_ok lg sids ss" and out: "\<And>v. v \<in> set ss \<Longrightarrow>
      \<exists>kvs. get_output lg v = Some (Inr kvs) \<and> stage_output lg cids kvs = Inr (Some (outputs_spec lg cids kvs))"
  shows "distinct vs \<Longrightarrow> set vs \<subseteq> set ss \<Longrightarrow> length (g_s g) = length ss \<Longrightarrow>
     \<forall>v \<in> set ss. g_s g ! nat (lookup_id lg sids v) = Some (if v \<in> set vs
        then (stage_spec lg clids cids v)\<lparr>sd_output := []\<rparr> else stage_spec lg clids cids v) \<Longrightarrow>
     \<exists>slots. build_outputs lg sids cids vs g = Inr (Some (g\<lparr>g_s := slots\<rparr>)) \<and>
       slots_ok lg sids (stage_spec lg clids cids) ss slots"
proof (induction vs arbitrary: g)
  case Nil
  then show ?case by (intro exI [of _ "g_s g"]) (simp add: slots_ok_def)
next
  case (Cons w vs)
  have w: "w \<in> set ss" using Cons.prems by simp
  note r = ids_ok_range [OF ids w]
  from out [OF w] obtain kvs where kvs: "get_output lg w = Some (Inr kvs)"
    "stage_output lg cids kvs = Inr (Some (outputs_spec lg cids kvs))" by blast
  let ?g = "g\<lparr>g_s := (g_s g)[nat (lookup_id lg sids w) := Some (stage_spec lg clids cids w)]\<rparr>"
  have "\<forall>v \<in> set ss. g_s ?g ! nat (lookup_id lg sids v) = Some (if v \<in> set vs
        then (stage_spec lg clids cids v)\<lparr>sd_output := []\<rparr> else stage_spec lg clids cids v)"
  proof
    fix v assume v: "v \<in> set ss"
    show "g_s ?g ! nat (lookup_id lg sids v) = Some (if v \<in> set vs
        then (stage_spec lg clids cids v)\<lparr>sd_output := []\<rparr> else stage_spec lg clids cids v)"
    proof (cases "v = w")
      case True
      then show ?thesis using r Cons.prems by simp
    next
      case False
      then have "nat (lookup_id lg sids w) \<noteq> nat (lookup_id lg sids v)" using ids_ok_inj [OF ids v w] by auto
      with False v Cons.prems(4) show ?thesis by (simp del: eq_nat_nat_iff)
    qed
  qed
  then obtain slots where IH: "build_outputs lg sids cids vs ?g = Inr (Some (?g\<lparr>g_s := slots\<rparr>))"
    "slots_ok lg sids (stage_spec lg clids cids) ss slots"
    using Cons.IH [of ?g] Cons.prems by auto
  have "array_get (g_s g) (lookup_id lg sids w) = Inr (Some ((stage_spec lg clids cids w)\<lparr>sd_output := []\<rparr>))"
    using r w Cons.prems by (simp add: array_get_nat)
  moreover have "(stage_spec lg clids cids w)\<lparr>sd_output := outputs_spec lg cids kvs\<rparr> = stage_spec lg clids cids w"
    by (simp add: stage_spec_def kvs)
  ultimately have "build_outputs lg sids cids (w # vs) g = Inr (Some (g\<lparr>g_s := slots\<rparr>))"
    using IH(1) kvs r Cons.prems(3) by (simp add: call_method_def deref_slot_def array_set_nat)
  with IH(2) show ?case by blast
qed

text \<open>The values of the id tables are not read by the data functions.\<close>

lemma lookup_id_cong: "core lg' = core lg \<Longrightarrow> lookup_id lg' = lookup_id lg"
  by (simp add: lookup_id_def fun_eq_iff)

lemma spec_cong:
  assumes "core lg' = core lg" and "field lg' = field lg" and "process_addr lg' = process_addr lg"
    and "is_local lg' = is_local lg" and "mar_encoded lg' = mar_encoded lg"
    and "get_cluster lg' = get_cluster lg" and "get_output lg' = get_output lg"
  shows "ids_ok lg' = ids_ok lg" and "slots_ok lg' = slots_ok lg" and "process_spec lg' = process_spec lg"
    and "cluster_spec lg' = cluster_spec lg" and "stage_spec lg' = stage_spec lg"
    and "connector_spec lg' = connector_spec lg"
  using assms lookup_id_cong [OF assms(1)]
  by (simp_all add: fun_eq_iff ids_ok_def slots_ok_def process_spec_def cluster_spec_def stage_spec_def
      connector_spec_def str_field_def outputs_spec_def)

definition with_ids :: "lua_graph \<Rightarrow> lua_value list \<Rightarrow> lua_value list \<Rightarrow> lua_value list \<Rightarrow> lua_value list \<Rightarrow> lua_graph" where
  "with_ids lg ps cls ss cs = lg\<lparr>lg_processesid := Some (final_ids (lg_processesid lg) ps),
     lg_clustersid := Some (final_ids (lg_clustersid lg) cls),
     lg_stagesid := Some (final_ids (lg_stagesid lg) ss),
     lg_connectorsid := Some (final_ids (lg_connectorsid lg) cs)\<rparr>"

lemma mk_process: "build_process lg v = Inr (process_spec lg v)"
  by (simp add: build_process_def process_spec_def)

lemma mk_cluster:
  "graph_input lg ps cls ss cs \<Longrightarrow> v \<in> set cls \<Longrightarrow> build_cluster lg pids v = Inr (cluster_spec lg pids v)"
  by (auto simp: graph_input_def build_cluster_def cluster_spec_def call_method_def)

lemma mk_stage:
  "graph_input lg ps cls ss cs \<Longrightarrow> v \<in> set ss \<Longrightarrow>
   build_stage lg clids v = Inr ((stage_spec lg clids cids v)\<lparr>sd_output := []\<rparr>)"
  by (fastforce simp: graph_input_def build_stage_def stage_spec_def)

lemma mk_connector: "build_connector lg sids v = Inr (connector_spec lg sids v)"
  by (simp add: build_connector_def connector_spec_def)

lemma input_outputs:
  assumes inp: "graph_input lg ps cls ss cs" and ids: "ids_ok lg cids cs" and v: "v \<in> set ss"
  shows "\<exists>kvs. get_output lg v = Some (Inr kvs) \<and> stage_output lg cids kvs = Inr (Some (outputs_spec lg cids kvs))"
proof -
  from inp v obtain kvs where kvs: "get_output lg v = Some (Inr kvs)"
    "\<forall>(k, w) \<in> set kvs. is_key k \<and> w \<in> set cs" by (auto simp: graph_input_def)
  then have "\<forall>(k, w) \<in> set kvs. is_key k \<and> 0 \<le> lookup_id lg cids w"
    using ids_ok_range [OF ids] by fast
  with kvs(1) stage_output_ok show ?thesis by blast
qed

lemma build_graph_ok:
  assumes inp: "graph_input lg ps cls ss cs"
  shows "\<exists>g. graph_build lg = Inr (g, with_ids lg ps cls ss cs) \<and> represents (with_ids lg ps cls ss cs) g ps cls ss cs"
proof -
  let ?pids = "final_ids (lg_processesid lg) ps" and ?clids = "final_ids (lg_clustersid lg) cls"
    and ?sids = "final_ids (lg_stagesid lg) ss" and ?cids = "final_ids (lg_connectorsid lg) cs"
  have ap: "answers lg (count_processes lg) (lg_processes lg) (lg_processesid lg) ps"
    and acl: "answers lg (count_clusters lg) (lg_clusters lg) (lg_clustersid lg) cls"
    and as: "answers lg (count_stages lg) (lg_stages lg) (lg_stagesid lg) ss"
    and ac: "answers lg (count_connectors lg) (lg_connectors lg) (lg_connectorsid lg) cs"
    and ig: "is_graph lg"
    using inp by (simp_all add: graph_input_def)
  obtain d where d: "read_count lg (count_processes lg) = Inr (length ps)"
    "call_method (lg_processes lg) = Inr ps"
    "place_all lg (lg_processesid lg) (length ps) (build_process lg) ps = Inr (?pids, d)"
    "ids_ok lg ?pids ps" "slots_ok lg ?pids (process_spec lg) ps d"
    by (rule answersE [OF ap, of "build_process lg" "process_spec lg"]) (simp_all add: mk_process)
  obtain cl where cl: "read_count lg (count_clusters lg) = Inr (length cls)"
    "call_method (lg_clusters lg) = Inr cls"
    "place_all lg (lg_clustersid lg) (length cls) (build_cluster lg ?pids) cls = Inr (?clids, cl)"
    "ids_ok lg ?clids cls" "slots_ok lg ?clids (cluster_spec lg ?pids) cls cl"
    by (rule answersE [OF acl, of "build_cluster lg ?pids" "cluster_spec lg ?pids"]) (simp_all add: mk_cluster [OF inp])
  obtain s0 where s0: "read_count lg (count_stages lg) = Inr (length ss)"
    "call_method (lg_stages lg) = Inr ss"
    "place_all lg (lg_stagesid lg) (length ss) (build_stage lg ?clids) ss = Inr (?sids, s0)"
    "ids_ok lg ?sids ss" "slots_ok lg ?sids (\<lambda>v. (stage_spec lg ?clids ?cids v)\<lparr>sd_output := []\<rparr>) ss s0"
    by (rule answersE [OF as, of "build_stage lg ?clids"
          "\<lambda>v. (stage_spec lg ?clids ?cids v)\<lparr>sd_output := []\<rparr>"]) (simp_all add: mk_stage [OF inp])
  obtain c where c: "read_count lg (count_connectors lg) = Inr (length cs)"
    "call_method (lg_connectors lg) = Inr cs"
    "place_all lg (lg_connectorsid lg) (length cs) (build_connector lg ?sids) cs = Inr (?cids, c)"
    "ids_ok lg ?cids cs" "slots_ok lg ?cids (connector_spec lg ?sids) cs c"
    by (rule answersE [OF ac, of "build_connector lg ?sids" "connector_spec lg ?sids"]) (simp_all add: mk_connector)
  note out = input_outputs [OF inp c(4)]
  let ?g = "graph_empty\<lparr>g_name := value_string (number2str (core lg)) (lg_name lg), n_d := length ps, g_d := d,
    n_cl := length cls, g_cl := cl, n_s := length ss, g_s := s0, n_c := length cs, g_c := c\<rparr>"
  have ds: "distinct ss" using s0(4) by (simp add: ids_ok_def)
  obtain slots where o: "build_outputs lg ?sids ?cids ss ?g = Inr (Some (?g\<lparr>g_s := slots\<rparr>))"
    "slots_ok lg ?sids (stage_spec lg ?clids ?cids) ss slots"
    using build_outputs_ok [OF s0(4) out ds, of ?g ?clids] s0(5) by (auto simp: slots_ok_def)
  have "build_graph_representation lg graph_empty = Inr (Some (?g\<lparr>g_s := slots\<rparr>), with_ids lg ps cls ss cs)"
    using d(1-3) cl(1-3) s0(1-3) c(1-3) o(1)
    by (simp add: build_graph_representation_def build_processes_def build_clusters_def
        build_stages_def build_connectors_def with_ids_def)
  moreover have "represents (with_ids lg ps cls ss cs) (?g\<lparr>g_s := slots\<rparr>) ps cls ss cs"
    using d(4,5) cl(4,5) s0(4) c(4,5) o(2)
    by (simp add: represents_def with_ids_def spec_cong [of "with_ids lg ps cls ss cs" lg, unfolded with_ids_def])
  ultimately show ?thesis using ig by (simp add: graph_build_def)
qed

section \<open>Properties\<close>

lemma slots_ok_deref:
  "ids_ok lg t objs \<Longrightarrow> slots_ok lg t f objs slots \<Longrightarrow> v \<in> set objs \<Longrightarrow>
   deref_slot slots (lookup_id lg t v) = Inr (f v)"
  using ids_ok_range [of lg t objs v] by (auto simp: slots_ok_def deref_slot_def array_get_nat)

lemma slots_ok_full:
  assumes "ids_ok lg t objs" and "slots_ok lg t f objs slots" and "i < length objs"
  shows "\<exists>v \<in> set objs. deref_slot slots (int i) = Inr (f v)"
proof -
  from assms(1,3) obtain v where "v \<in> set objs" "lookup_id lg t v = int i" by (rule ids_ok_surj)
  with slots_ok_deref [OF assms(1,2), of v] show ?thesis by auto
qed


text \<open>
  C24. Two processes that build the same graph with shared id tables agree on
  every identifier: rebuilding with the tables of a first build gives the same
  arrays, whatever order the tables of objects are iterated in.
\<close>

theorem graph_rebuild_same:
  assumes inp: "graph_input lg ps cls ss cs" and b: "graph_build lg = Inr (g, lg')"
    and perm: "mset ps' = mset ps" "mset cls' = mset cls" "mset ss' = mset ss" "mset cs' = mset cs"
  shows "\<exists>lg''. graph_build (lg'\<lparr>lg_processes := Some (Inr ps'), lg_clusters := Some (Inr cls'),
     lg_stages := Some (Inr ss'), lg_connectors := Some (Inr cs')\<rparr>) = Inr (g, lg'')"
proof -
  let ?lg = "lg'\<lparr>lg_processes := Some (Inr ps'), lg_clusters := Some (Inr cls'),
     lg_stages := Some (Inr ss'), lg_connectors := Some (Inr cs')\<rparr>"
  from build_graph_ok [OF inp] b have lg': "lg' = with_ids lg ps cls ss cs"
    and rep: "represents lg' g ps cls ss cs" by auto
  from rep obtain pids clids sids cids where ids:
    "lg_processesid lg' = Some pids" "ids_ok lg' pids ps" "lg_clustersid lg' = Some clids" "ids_ok lg' clids cls"
    "lg_stagesid lg' = Some sids" "ids_ok lg' sids ss" "lg_connectorsid lg' = Some cids" "ids_ok lg' cids cs"
    by (auto simp: represents_def)
  have sets: "set ps' = set ps" "set cls' = set cls" "set ss' = set ss" "set cs' = set cs"
    and lens: "length ps' = length ps" "length cls' = length cls" "length ss' = length ss" "length cs' = length cs"
    using perm by (metis set_mset_mset, metis set_mset_mset, metis set_mset_mset, metis set_mset_mset,
      metis size_mset, metis size_mset, metis size_mset, metis size_mset)
  have dis: "distinct ps'" "distinct cls'" "distinct ss'" "distinct cs'"
    using ids(2,4,6,8) perm by (auto simp: ids_ok_def dest: mset_eq_imp_distinct_iff)
  note cong = spec_cong [of ?lg lg', simplified]
  have ids': "ids_ok ?lg pids ps'" "ids_ok ?lg clids cls'" "ids_ok ?lg sids ss'" "ids_ok ?lg cids cs'"
    unfolding cong by (rule ids_ok_set_eq; fact ids sets dis)+
  have "graph_input ?lg ps' cls' ss' cs'"
    using inp ids ids' sets lens
    by (simp add: graph_input_def answers_def tab_ok_def lg' with_ids_def)
  from build_graph_ok [OF this] obtain g2 where g2: "graph_build ?lg = Inr (g2, with_ids ?lg ps' cls' ss' cs')"
    "represents (with_ids ?lg ps' cls' ss' cs') g2 ps' cls' ss' cs'" by blast
  have w: "with_ids ?lg ps' cls' ss' cs' = ?lg" using ids by (simp add: with_ids_def final_ids_def)
  from g2(2) rep ids sets lens have "g_d g2 = g_d g" "g_cl g2 = g_cl g" "g_s g2 = g_s g" "g_c g2 = g_c g"
    "n_d g2 = n_d g" "n_cl g2 = n_cl g" "n_s g2 = n_s g" "n_c g2 = n_c g" "g_name g2 = g_name g"
    unfolding w represents_def cong
    by (auto intro: slots_ok_unique slots_ok_set_eq)
  then have "g2 = g" by simp
  with g2 show ?thesis by blast
qed

text \<open>A small graph: a producer and a serial consumer, joined by one connector.\<close>

definition wit_field :: "lua_value \<Rightarrow> string \<Rightarrow> lua_value" where
  "wit_field v f =
     (if v = LTable 4 \<and> f = ''serial'' then LBoolean True
      else if v = LTable 5 \<and> f = ''producer'' then LTable 3
      else if v = LTable 5 \<and> f = ''consumer'' then LTable 4
      else if f = ''name'' \<or> f = ''port'' \<or> f = ''host'' then LString (lit ''x'') else LNil)"

definition wit_graph :: lua_graph where
  "wit_graph = \<lparr>lg_name = LString (lit ''g''), lg_stagesid = None, lg_connectorsid = None,
     lg_clustersid = None, lg_processesid = None,
     count_processes = Some (Inr (LInteger (int 1))), count_clusters = Some (Inr (LInteger (int 1))),
     count_stages = Some (Inr (LInteger (int 2))), count_connectors = Some (Inr (LInteger (int 1))),
     lg_processes = Some (Inr [LTable 1]), lg_clusters = Some (Inr [LTable 2]),
     lg_stages = Some (Inr [LTable 3, LTable 4]), lg_connectors = Some (Inr [LTable 5]),
     field = wit_field, process_addr = (\<lambda>_. Some [LTable 1]),
     is_local = (\<lambda>_. Some (Inr (LBoolean True))), mar_encoded = (\<lambda>_. Inr []),
     get_cluster = (\<lambda>_. Inr (LTable 2)),
     get_output = (\<lambda>v. Some (Inr (if v = LTable 3 then [(LString (lit ''out''), LTable 5)] else []))),
     is_graph = True, core = \<lparr>str2number = (\<lambda>_. None), number2str = (\<lambda>_. [])\<rparr>\<rparr>"

lemma wit_graph_input: "graph_input wit_graph [LTable 1] [LTable 2] [LTable 3, LTable 4] [LTable 5]"
  by (auto simp: graph_input_def wit_graph_def answers_def tab_ok_def)


theorem graph_rebuild_same_witness:
  "\<exists>g lg' lg''. graph_build wit_graph = Inr (g, lg') \<and>
     graph_build (lg'\<lparr>lg_processes := Some (Inr [LTable 1]), lg_clusters := Some (Inr [LTable 2]),
       lg_stages := Some (Inr [LTable 4, LTable 3]), lg_connectors := Some (Inr [LTable 5])\<rparr>) = Inr (g, lg'')"
proof -
  from build_graph_ok [OF wit_graph_input] obtain g lg' where g: "graph_build wit_graph = Inr (g, lg')" by blast
  from graph_rebuild_same [OF wit_graph_input g, of "[LTable 1]" "[LTable 2]" "[LTable 4, LTable 3]" "[LTable 5]"] g
  show ?thesis by auto
qed

text \<open>
  The endpoints of a connector are the stages the Lua connector names: following
  \<open>c->p\<close> or \<open>c->c\<close> into the stage array leads to the data of the producer or of the
  consumer, and the outputs of a stage lead to connectors of the graph.
\<close>

theorem graph_connector_endpoints:
  assumes "graph_input lg ps cls ss cs" and "v \<in> set cs"
    and "field lg v ''producer'' \<in> set ss" and "field lg v ''consumer'' \<in> set ss"
  shows "\<exists>g lg' i c sp sc. graph_build lg = Inr (g, lg') \<and> i = lookup_id lg (the (lg_connectorsid lg')) v \<and>
     CONNECTOR g i = Inr c \<and> STAGE g (cd_p c) = Inr sp \<and> STAGE g (cd_c c) = Inr sc \<and>
     sd_name sp = str_field lg (field lg v ''producer'') ''name'' \<and>
     sd_name sc = str_field lg (field lg v ''consumer'') ''name'' \<and>
     (\<forall>(k, j) \<in> set (sd_output sp). 0 \<le> j \<and> nat j < n_c g)"
proof -
  let ?p = "field lg v ''producer''" and ?c = "field lg v ''consumer''"
  let ?lg = "with_ids lg ps cls ss cs"
  from build_graph_ok [OF assms(1)] obtain g where g: "graph_build lg = Inr (g, ?lg)"
    and rep: "represents ?lg g ps cls ss cs" by blast
  note cong = spec_cong [of ?lg lg, unfolded with_ids_def, simplified]
  from rep obtain pids clids sids cids where
    s: "ids_ok lg sids ss" "slots_ok lg sids (stage_spec lg clids cids) ss (g_s g)" and
    c: "lg_connectorsid ?lg = Some cids" "ids_ok lg cids cs" "slots_ok lg cids (connector_spec lg sids) cs (g_c g)"
       "n_c g = length cs"
    unfolding represents_def with_ids_def cong by auto
  from assms(1,3) obtain kvs where kvs: "get_output lg ?p = Some (Inr kvs)"
    "\<forall>(k, w) \<in> set kvs. is_key k \<and> w \<in> set cs" by (auto simp: graph_input_def)
  have "\<forall>(k, j) \<in> set (sd_output (stage_spec lg clids cids ?p)). 0 \<le> j \<and> nat j < n_c g"
    using kvs ids_ok_range [OF c(2)] by (force simp: stage_spec_def outputs_spec_def c(4))
  moreover have "CONNECTOR g (lookup_id lg cids v) = Inr (connector_spec lg sids v)"
    using slots_ok_deref [OF c(2,3) assms(2)] by (simp add: CONNECTOR_def)
  moreover have "STAGE g (lookup_id lg sids ?p) = Inr (stage_spec lg clids cids ?p)"
    "STAGE g (lookup_id lg sids ?c) = Inr (stage_spec lg clids cids ?c)"
    using slots_ok_deref [OF s assms(3)] slots_ok_deref [OF s assms(4)] by (simp_all add: STAGE_def)
  ultimately show ?thesis using g c(1)
    by (intro exI [of _ g] exI [of _ ?lg] exI [of _ "lookup_id lg cids v"] exI [of _ "connector_spec lg sids v"]
        exI [of _ "stage_spec lg clids cids ?p"] exI [of _ "stage_spec lg clids cids ?c"])
      (simp add: connector_spec_def stage_spec_def)
qed

theorem graph_connector_endpoints_witness:
  "\<exists>g lg' c sc. graph_build wit_graph = Inr (g, lg') \<and>
     CONNECTOR g (lookup_id wit_graph (the (lg_connectorsid lg')) (LTable 5)) = Inr c \<and>
     STAGE g (cd_c c) = Inr sc \<and> sd_name sc = lit ''x''"
proof -
  have "str_field wit_graph (field wit_graph (LTable 5) ''consumer'') ''name'' = lit ''x''"
    "field wit_graph (LTable 5) ''producer'' \<in> set [LTable 3, LTable 4]"
    "field wit_graph (LTable 5) ''consumer'' \<in> set [LTable 3, LTable 4]"
    by (simp_all add: wit_graph_def wit_field_def str_field_def)
  with graph_connector_endpoints [OF wit_graph_input, of "LTable 5"] show ?thesis by auto
qed

text \<open>
  The getters return the entry of a valid identifier and \<open>NULL\<close> for a negative
  or too large one, except for the identifier just past the end: it passes the
  test \<open>id > n\<close> and is read outside the array.
\<close>

theorem graph_get_stage_bounds:
  assumes "length (g_s g) = n_s g" and "n_s g < 2 ^ 31" and "- (2 ^ 31) \<le> i" and "i < 2 ^ 31"
  shows "graph_get_stage (Some g) i =
     (if 0 \<le> i \<and> i < int (n_s g) then Inr (g_s g ! nat i)
      else if i = int (n_s g) then Inl OutOfBounds else Inr None)"
proof (cases "0 \<le> i")
  case True
  with assms show ?thesis
    by (auto simp: graph_get_stage_def size_of_int_def array_get_def)
next
  case False
  then have "(i + 2 ^ 64) mod 2 ^ 64 = i + 2 ^ 64" using assms(3) by (intro mod_pos_pos_trivial) auto
  then have "i mod 2 ^ 64 = i + 2 ^ 64" by (simp only: mod_add_self2)
  with False assms show ?thesis by (simp add: graph_get_stage_def size_of_int_def)
qed

theorem graph_get_stage_bounds_witness:
  "\<exists>g lg'. graph_build wit_graph = Inr (g, lg') \<and> graph_get_stage (Some g) 2 = Inl OutOfBounds"
proof -
  from build_graph_ok [OF wit_graph_input] obtain g lg' where g: "graph_build wit_graph = Inr (g, lg')"
    "represents lg' g [LTable 1] [LTable 2] [LTable 3, LTable 4] [LTable 5]" by blast
  then have "length (g_s g) = n_s g" "n_s g = 2" by (auto simp: represents_def slots_ok_def)
  with graph_get_stage_bounds [of g 2] g show ?thesis by simp
qed

lemma fill_output_overflow:
  "\<forall>(k, w) \<in> set kvs. 0 \<le> lookup_id lg cids w \<Longrightarrow> \<forall>(k, n) \<in> set out. 0 \<le> n \<Longrightarrow>
   j \<le> length out \<Longrightarrow> length out < j + length kvs \<Longrightarrow>
   fill_output lg cids kvs (int j) out = Inl OutOfBounds"
proof (induction kvs arbitrary: j out)
  case Nil
  then show ?case by simp
next
  case (Cons kv kvs)
  obtain k w where kv: "kv = (k, w)" by force
  show ?case
  proof (cases "j < length out")
    case False
    with Cons.prems show ?thesis by (auto simp: kv array_set_def array_get_def)
  next
    case True
    define out' where "out' = (if is_key k then out[j := (key_of k, lookup_id lg cids w)] else out)"
    have l: "length out' = length out" by (simp add: out'_def)
    have n: "\<forall>(k, n) \<in> set out'. 0 \<le> n"
    proof
      fix x assume "x \<in> set out'"
      then have "x \<in> set out \<or> x = (key_of k, lookup_id lg cids w)"
        using set_update_subset_insert [of out j "(key_of k, lookup_id lg cids w)"]
        by (auto simp: out'_def split: if_splits)
      then show "case x of (k, n) \<Rightarrow> 0 \<le> n" using Cons.prems(1,2) by (auto simp: kv)
    qed
    have "fill_output lg cids kvs (int (Suc j)) out' = Inl OutOfBounds"
      using Cons.prems n True l by (intro Cons.IH) auto
    moreover have "0 \<le> snd (out' ! j)" using n True l by (metis case_prod_beta nth_mem)
    ultimately show ?thesis using True l
      by (auto simp: kv out'_def add.commute case_prod_beta split: if_splits)
  qed
qed

text \<open>
  A stage whose output table has, beside string or number keys, a key of
  another type, makes the construction access the output array outside its
  bounds: the array is sized by the first kind of keys, the index advances on all.
\<close>

theorem graph_mixed_output_keys_overflow:
  assumes "(k1, w1) \<in> set kvs" and "is_key k1" and "(k2, w2) \<in> set kvs" and "\<not> is_key k2"
    and "\<forall>(k, w) \<in> set kvs. 0 \<le> lookup_id lg cids w"
  shows "stage_output lg cids kvs = Inl OutOfBounds"
proof -
  let ?n = "length (filter (\<lambda>(kv, _). is_key kv) kvs)"
  have "?n < length kvs" using assms(3,4) by (metis (mono_tags) case_prod_conv length_filter_less)
  moreover have "0 < ?n" using assms(1,2) by (force simp: filter_empty_conv)
  ultimately show ?thesis
    using fill_output_overflow [OF assms(5), of "replicate ?n (None, 0)" 0] by (simp add: stage_output_def)
qed

theorem graph_mixed_output_keys_overflow_witness:
  "stage_output wit_graph (fresh_ids [LTable 5])
     [(LString (lit ''out''), LTable 5), (LBoolean True, LTable 5)] = Inl OutOfBounds"
  using lookup_fresh [of "[LTable 5]" 0 wit_graph]
  by (intro graph_mixed_output_keys_overflow [of "LString (lit ''out'')" "LTable 5" _ "LBoolean True" "LTable 5"])
    simp_all

lemma free_entries_ok:
  assumes "\<forall>i < n. \<exists>x. deref_slot xs (int i) = Inr x"
  shows "free_entries xs n blocks freed = Inr (freed @ concat (map blocks [0..<n]))"
  using assms unfolding free_entries_def
  by (induction n) (auto simp: for_each_append less_Suc_eq)

lemma distinct_blocks:
  fixes f :: "nat \<Rightarrow> graph_block list"
  assumes d: "\<And>i. distinct (f i)" and i: "\<And>i j. i \<noteq> j \<Longrightarrow> set (f i) \<inter> set (f j) = {}"
  shows "distinct (concat (map f [0..<n]))"
proof (induction n)
  case (Suc n)
  have "\<forall>a \<in> {0..<n}. set (f a) \<inter> set (f n) = {}" using i by simp
  then have "(\<Union>a \<in> {0..<n}. set (f a)) \<inter> set (f n) = {}" by blast
  with Suc d show ?case by simp
qed simp

text \<open>
  C31. Collecting a graph frees every block of its connectors, clusters and
  processes exactly once, and nothing of its stages but the array of pointers.
\<close>

theorem graph_destroy_frees_once:
  assumes "represents lg g ps cls ss cs"
  shows "\<exists>freed g'. graph_destroy g = Inr (freed, g') \<and> distinct freed \<and>
     set freed = {BStages, BConnectors, BClusters, BProcesses} \<union>
       (\<Union>i < n_c g. {BConnectorName i, BConnectorSend i, BConnector i}) \<union>
       (\<Union>i < n_cl g. {BClusterName i, BClusterProcesses i, BCluster i}) \<union>
       (\<Union>i < n_d g. {BProcessHost i, BProcess i})"
proof -
  have full: "\<forall>i < n_c g. \<exists>x. deref_slot (g_c g) (int i) = Inr x"
    "\<forall>i < n_cl g. \<exists>x. deref_slot (g_cl g) (int i) = Inr x"
    "\<forall>i < n_d g. \<exists>x. deref_slot (g_d g) (int i) = Inr x"
    using assms slots_ok_full unfolding represents_def by (metis, metis, metis)
  show ?thesis
    unfolding graph_destroy_def
    by (auto simp: free_entries_ok [OF full(1)] free_entries_ok [OF full(2)] free_entries_ok [OF full(3)]
        intro!: distinct_blocks)
qed

theorem graph_destroy_frees_once_witness:
  "\<exists>g lg' freed g'. graph_build wit_graph = Inr (g, lg') \<and> graph_destroy g = Inr (freed, g') \<and> distinct freed"
proof -
  from build_graph_ok [OF wit_graph_input] obtain g lg' where "graph_build wit_graph = Inr (g, lg')"
    "represents lg' g [LTable 1] [LTable 2] [LTable 3, LTable 4] [LTable 5]" by blast
  with graph_destroy_frees_once [of lg' g] show ?thesis by blast
qed

end
