(* ===== verification/Leda_Marshal.thy ===== *)
theory Leda_Marshal
  imports Leda_Lua
begin

text \<open>
  The marshalling of Lua values in \<open>src/kernel/extra/lmarshal.c\<close>: the growing
  buffer, the encoder with its table of objects already seen, the decoder with
  its pointer arithmetic, and the entry points. The branch for Lua 5.1 is the one
  modelled (5.2 also strips \<open>_ENV\<close> upvalues).

  What the Lua core does with a function (\<open>lua_dump\<close>, \<open>lua_load\<close>), the results of
  the \<open>__persist\<close> and \<open>__wrap\<close> hooks, calling a decoded function and the border
  \<open>lua_objlen\<close> picks are data of the heap or arguments of the definitions.
\<close>

section \<open>The heap of a Lua state\<close>

text \<open>
  The entries of a table are in the order of \<open>lua_next\<close>. \<open>t_persist\<close> is the value
  the table's \<open>__persist\<close> hook returns, when there is one; likewise for userdata.
\<close>

record lua_table =
  entries :: "(lua_value \<times> lua_value) list"
  t_persist :: "lua_value option"

record lua_function =
  is_lua :: bool
  chunk :: "byte list"
  upvalues :: "lua_value list"

record lua_userdata =
  u_wrap :: "lua_value option"
  u_persist :: "lua_value option"

record lua_heap =
  tabs :: "addr \<rightharpoonup> lua_table"
  funs :: "addr \<rightharpoonup> lua_function"
  uds :: "addr \<rightharpoonup> lua_userdata"
  nexta :: addr

record lua_runtime =
  undump :: "byte list \<Rightarrow> nat option"
  load_message :: "byte list"
  call0 :: "lua_value \<Rightarrow> lua_heap \<Rightarrow> (lua_value \<times> lua_heap) result"
  border :: "(lua_value \<times> lua_value) list \<Rightarrow> nat"

fun is_function :: "lua_value \<Rightarrow> bool" where
  "is_function (LFunction _) = True"
| "is_function _ = False"

text \<open>Numbers are compared as numbers: both zeros are one key, a NaN is none.\<close>

definition key_eq :: "lua_value \<Rightarrow> lua_value \<Rightarrow> bool" where
  "key_eq a b \<longleftrightarrow> a = b \<or> (a \<in> {LNumber 0, LNumber (2 ^ 63)} \<and> b \<in> {LNumber 0, LNumber (2 ^ 63)})"

fun is_nan :: "lua_value \<Rightarrow> bool" where
  "is_nan (LNumber n) = (num_exp n = 2047 \<and> num_frac n \<noteq> 0)"
| "is_nan _ = False"

fun rawset_entries ::
  "lua_value \<Rightarrow> lua_value \<Rightarrow> (lua_value \<times> lua_value) list \<Rightarrow> (lua_value \<times> lua_value) list" where
  "rawset_entries k v [] = (if v = LNil then [] else [(k, v)])"
| "rawset_entries k v ((k', v') # es) =
     (if key_eq k k' then (if v = LNil then es else (k', v) # es) else (k', v') # rawset_entries k v es)"

fun rawget_entries :: "lua_value \<Rightarrow> (lua_value \<times> lua_value) list \<Rightarrow> lua_value" where
  "rawget_entries k [] = LNil"
| "rawget_entries k ((k', v') # es) = (if key_eq k k' then v' else rawget_entries k es)"

definition lua_settable :: "addr \<Rightarrow> lua_value \<Rightarrow> lua_value \<Rightarrow> lua_heap \<Rightarrow> lua_heap result" where
  "lua_settable a k v h =
     (if k = LNil then Inl (LuaError ''index is nil'')
      else if is_nan k then Inl (LuaError ''index is NaN'')
      else case tabs h a of None \<Rightarrow> Inl NullDeref
        | Some t \<Rightarrow> Inr (h\<lparr>tabs := (tabs h)(a \<mapsto> t\<lparr>entries := rawset_entries k v (entries t)\<rparr>)\<rparr>))"

definition lua_newtable :: "lua_heap \<Rightarrow> addr \<times> lua_heap" where
  "lua_newtable h = (nexta h,
     h\<lparr>tabs := (tabs h)(nexta h \<mapsto> \<lparr>entries = [], t_persist = None\<rparr>), nexta := nexta h + 1\<rparr>)"

definition new_function :: "lua_function \<Rightarrow> lua_heap \<Rightarrow> addr \<times> lua_heap" where
  "new_function f h = (nexta h, h\<lparr>funs := (funs h)(nexta h \<mapsto> f), nexta := nexta h + 1\<rparr>)"

section \<open>The buffer\<close>

text \<open>
  \<open>bdata\<close> holds the bytes written so far, the first \<open>head\<close> bytes of the allocation of
  \<open>bsize\<close> bytes.
\<close>

record mar_Buffer =
  bsize :: nat
  bseek :: nat
  bhead :: nat
  bdata :: "byte list"

definition buf_init :: mar_Buffer where
  "buf_init = \<lparr>bsize = 128, bseek = 0, bhead = 0, bdata = []\<rparr>"

text \<open>The doubling loop; \<open>new_size\<close> starts positive and above \<open>head\<close>.\<close>

function grow :: "nat \<Rightarrow> nat \<Rightarrow> nat \<Rightarrow> nat" where
  "grow new_size cur_head len =
     (if 0 < new_size \<and> new_size - cur_head \<le> len then grow (2 * new_size) cur_head len else new_size)"
  by pat_completeness auto
termination
  by (relation "measure (\<lambda>(new_size, cur_head, len). Suc (cur_head + len) - new_size)") auto

declare grow.simps [simp del]

definition buf_write :: "byte list \<Rightarrow> mar_Buffer \<Rightarrow> mar_Buffer result" where
  "buf_write str buf =
     (let len = length str in
      if len > 2 ^ 32 - 1 then Inl (LuaError ''buffer too long'')
      else let size = (if bsize buf - bhead buf < len then grow (2 * bsize buf) (bhead buf) len
                       else bsize buf)
           in if bhead buf + len \<le> size
              then Inr (buf\<lparr>bsize := size, bdata := bdata buf @ str, bhead := bhead buf + len\<rparr>)
              else Inl OutOfBounds)"

text \<open>\<open>buf_read\<close>: the reader \<open>lua_load\<close> calls until it returns no data.\<close>

definition buf_read :: "mar_Buffer \<Rightarrow> mar_Buffer \<times> byte list option" where
  "buf_read buf = (if bseek buf < bhead buf
     then (buf\<lparr>bseek := bhead buf\<rparr>, Some (take (bhead buf) (bdata buf)))
     else (buf, None))"

section \<open>Encoding\<close>

record enc_state =
  ebuf :: mar_Buffer
  eseen :: "lua_value \<rightharpoonup> nat"
  eidx :: nat

definition MAR_TREF :: byte where "MAR_TREF = 1"
definition MAR_TVAL :: byte where "MAR_TVAL = 2"
definition MAR_TUSR :: byte where "MAR_TUSR = 3"
definition MAR_MAGIC :: byte where "MAR_MAGIC = 0x8e"

lemmas mar_tags [simp] = MAR_TREF_def MAR_TVAL_def MAR_TUSR_def MAR_MAGIC_def

definition put :: "byte list \<Rightarrow> enc_state \<Rightarrow> enc_state result" where
  "put bs st = rbind (buf_write bs (ebuf st)) (\<lambda>b. Inr (st\<lparr>ebuf := b\<rparr>))"

definition put_ref :: "nat \<Rightarrow> enc_state \<Rightarrow> enc_state result" where
  "put_ref r st = rbind (put [MAR_TREF] st) (put (le_bytes 4 r))"

definition mark_seen :: "lua_value \<Rightarrow> enc_state \<Rightarrow> enc_state" where
  "mark_seen v st = st\<lparr>eseen := (eseen st)(v \<mapsto> eidx st), eidx := eidx st + 1\<rparr>"

text \<open>A length-prefixed block, written after the bytes \<open>pre\<close>.\<close>

definition put_block :: "byte list \<Rightarrow> byte list \<Rightarrow> enc_state \<Rightarrow> enc_state result" where
  "put_block pre bs st = rbind (put pre st) (\<lambda>st.
     rbind (put (le_bytes 4 (length bs)) st) (put bs))"

definition upvalue_entries :: "lua_value list \<Rightarrow> (lua_value \<times> lua_value) list" where
  "upvalue_entries us = filter (\<lambda>(_, u). u \<noteq> LNil) (zip (map (\<lambda>i. LInteger (int i)) [1..<Suc (length us)]) us)"

text \<open>
  \<open>mar_encode_value\<close> and \<open>mar_encode_table\<close>. The first argument is the number of
  nested activations the C stack has room for. A nested table is encoded into a
  buffer of its own (\<open>rec_buf\<close>), which is then copied behind its length.
\<close>

definition encode_hook ::
  "((lua_value \<times> lua_value) list \<Rightarrow> enc_state \<Rightarrow> enc_state result) \<Rightarrow> string \<Rightarrow> lua_value \<Rightarrow>
   enc_state \<Rightarrow> enc_state result" where
  "encode_hook enc_table msg f st =
     (if \<not> is_function f then Inl (LuaError msg)
      else rbind (enc_table [(LInteger 1, f)] (st\<lparr>ebuf := buf_init\<rparr>))
             (\<lambda>st'. put_block [MAR_TUSR] (bdata (ebuf st')) (st'\<lparr>ebuf := ebuf st\<rparr>)))"

definition encode_table_value ::
  "((lua_value \<times> lua_value) list \<Rightarrow> enc_state \<Rightarrow> enc_state result) \<Rightarrow> lua_heap \<Rightarrow> addr \<Rightarrow>
   enc_state \<Rightarrow> enc_state result" where
  "encode_table_value enc_table h a st =
     (case eseen st (LTable a) of Some ref \<Rightarrow> put_ref ref st
      | None \<Rightarrow> (case tabs h a of None \<Rightarrow> Inl UseAfterFree
         | Some t \<Rightarrow> (case t_persist t of
             Some f \<Rightarrow> encode_hook enc_table ''__persist must return a function'' f st
           | None \<Rightarrow>
               rbind (enc_table (entries t) ((mark_seen (LTable a) st)\<lparr>ebuf := buf_init\<rparr>))
                 (\<lambda>st'. put_block [MAR_TVAL] (bdata (ebuf st')) (st'\<lparr>ebuf := ebuf st\<rparr>)))))"

definition encode_function_value ::
  "((lua_value \<times> lua_value) list \<Rightarrow> enc_state \<Rightarrow> enc_state result) \<Rightarrow> lua_heap \<Rightarrow> addr \<Rightarrow>
   enc_state \<Rightarrow> enc_state result" where
  "encode_function_value enc_table h a st =
     (case eseen st (LFunction a) of Some ref \<Rightarrow> put_ref ref st
      | None \<Rightarrow> (case funs h a of None \<Rightarrow> Inl UseAfterFree
         | Some f \<Rightarrow>
             if \<not> is_lua f then Inl (LuaError ''attempt to persist a C function'')
             else rbind (put_block [MAR_TVAL] (chunk f) (mark_seen (LFunction a) st)) (\<lambda>st1.
               rbind (enc_table (upvalue_entries (upvalues f)) (st1\<lparr>ebuf := buf_init\<rparr>))
                 (\<lambda>st'. put_block [] (bdata (ebuf st')) (st'\<lparr>ebuf := ebuf st1\<rparr>)))))"

definition encode_userdata_value ::
  "((lua_value \<times> lua_value) list \<Rightarrow> enc_state \<Rightarrow> enc_state result) \<Rightarrow> lua_heap \<Rightarrow> bool \<Rightarrow> addr \<Rightarrow>
   enc_state \<Rightarrow> enc_state result" where
  "encode_userdata_value enc_table h nowrap a st =
     (case eseen st (LUserdata a) of Some ref \<Rightarrow> put_ref ref st
      | None \<Rightarrow> (case uds h a of None \<Rightarrow> Inl UseAfterFree
         | Some u \<Rightarrow> (case (if nowrap then None else u_wrap u) of
             Some f \<Rightarrow> encode_hook enc_table ''__wrap must return a function'' f (mark_seen (LUserdata a) st)
           | None \<Rightarrow> (case u_persist u of
               Some f \<Rightarrow> encode_hook enc_table ''__persist must return a function'' f (mark_seen (LUserdata a) st)
             | None \<Rightarrow> Inl (LuaError ''attempt to encode userdata'')))))"

fun mar_encode_value :: "nat \<Rightarrow> lua_heap \<Rightarrow> bool \<Rightarrow> lua_value \<Rightarrow> enc_state \<Rightarrow> enc_state result"
  and mar_encode_table ::
    "nat \<Rightarrow> lua_heap \<Rightarrow> bool \<Rightarrow> (lua_value \<times> lua_value) list \<Rightarrow> enc_state \<Rightarrow> enc_state result" where
  "mar_encode_value 0 h nowrap v st = Inl StackOverflow"
| "mar_encode_value (Suc d) h nowrap v st =
     rbind (put [of_int (type_tag v)] st) (\<lambda>st.
     case v of
       LBoolean b \<Rightarrow> put [if b then 1 else 0] st
     | LString s \<Rightarrow> rbind (put (le_bytes 4 (length s)) st) (put s)
     | LNumber n \<Rightarrow> put (le_bytes 8 (unat n)) st
     | LLightUserdata p \<Rightarrow>
         if nowrap then Inl (LuaError ''light userdata not permitted'') else put (le_bytes 8 (unat p)) st
     | LTable a \<Rightarrow> encode_table_value (mar_encode_table d h nowrap) h a st
     | LFunction a \<Rightarrow> encode_function_value (mar_encode_table d h nowrap) h a st
     | LUserdata a \<Rightarrow> encode_userdata_value (mar_encode_table d h nowrap) h nowrap a st
     | LNil \<Rightarrow> Inr st
     | LThread _ \<Rightarrow> Inl (LuaError ''invalid value type''))"
| "mar_encode_table d h nowrap [] st = Inr st"
| "mar_encode_table d h nowrap ((k, v) # es) st =
     rbind (mar_encode_value d h nowrap k st) (\<lambda>st.
     rbind (mar_encode_value d h nowrap v st) (mar_encode_table d h nowrap es))"

text \<open>
  \<open>mar_encode\<close>: the constants of argument 2 are numbered from 1 before the value of
  argument 1 is encoded; the header is one magic byte.
\<close>

definition seen_init :: "lua_value list \<Rightarrow> lua_value \<rightharpoonup> nat" where
  "seen_init consts = fold (\<lambda>(v, i) m. m(v \<mapsto> i)) (zip consts [1..<Suc (length consts)]) Map.empty"

definition mar_encode ::
  "nat \<Rightarrow> lua_heap \<Rightarrow> lua_value list \<Rightarrow> bool \<Rightarrow> lua_value \<Rightarrow> byte list result" where
  "mar_encode d h consts nowrap v =
     rbind (put [MAR_MAGIC] \<lparr>ebuf = buf_init, eseen = seen_init consts, eidx = Suc (length consts)\<rparr>) (\<lambda>st.
     rbind (mar_encode_value d h nowrap v st) (\<lambda>st. Inr (bdata (ebuf st))))"

section \<open>Decoding\<close>

text \<open>
  Pointers are offsets into the string's memory \<open>mem\<close>: its bytes and the zero byte
  Lua keeps behind them. A window is given by its start \<open>base\<close> and length \<open>len\<close>.
  A read is checked against the window only where the source checks it; a read
  outside the memory is a fault.
\<close>

record dec_state =
  dp :: nat
  dheap :: lua_heap
  dseen :: "int \<rightharpoonup> lua_value"
  didx :: nat

definition rd :: "byte list \<Rightarrow> nat \<Rightarrow> nat \<Rightarrow> byte list result" where
  "rd mem p k = (if p + k \<le> length mem then Inr (take k (drop p mem)) else Inl OutOfBounds)"

definition mar_incr_ptr :: "nat \<Rightarrow> nat \<Rightarrow> nat \<Rightarrow> dec_state \<Rightarrow> dec_state result" where
  "mar_incr_ptr base len l ds =
     (if dp ds - base + l > len then Inl (LuaError ''bad code'') else Inr (ds\<lparr>dp := dp ds + l\<rparr>))"

definition mar_next_len :: "byte list \<Rightarrow> nat \<Rightarrow> nat \<Rightarrow> dec_state \<Rightarrow> (nat \<times> dec_state) result" where
  "mar_next_len mem base len ds =
     (if dp ds - base + 4 > len then Inl (LuaError ''bad code'')
      else rbind (rd mem (dp ds) 4) (\<lambda>bs. Inr (le_val bs, ds\<lparr>dp := dp ds + 4\<rparr>)))"

text \<open>Reading \<open>k\<close> bytes and advancing afterwards, in the order of the source.\<close>

definition rd_incr :: "byte list \<Rightarrow> nat \<Rightarrow> nat \<Rightarrow> nat \<Rightarrow> dec_state \<Rightarrow> (byte list \<times> dec_state) result" where
  "rd_incr mem base len k ds =
     rbind (rd mem (dp ds) k) (\<lambda>bs. rbind (mar_incr_ptr base len k ds) (\<lambda>ds. Inr (bs, ds)))"

definition seen_add :: "lua_value \<Rightarrow> dec_state \<Rightarrow> dec_state" where
  "seen_add v ds = ds\<lparr>dseen := (dseen ds)(int (didx ds) \<mapsto> v), didx := didx ds + 1\<rparr>"

definition seen_get :: "nat \<Rightarrow> dec_state \<Rightarrow> lua_value" where
  "seen_get ref ds = (case dseen ds (c_int (int ref)) of None \<Rightarrow> LNil | Some v \<Rightarrow> v)"

definition entries_at :: "lua_heap \<Rightarrow> addr \<Rightarrow> (lua_value \<times> lua_value) list" where
  "entries_at h a = (case tabs h a of None \<Rightarrow> [] | Some t \<Rightarrow> entries t)"

text \<open>
  \<open>lua_load\<close> of a dumped chunk, and the upvalue loop. Its status is ignored by the
  source: when the chunk is refused an error message takes the place of the
  function, and with upvalues to set the stack gets out of step and a value that
  is no table is indexed.
\<close>

definition lua_load :: "lua_runtime \<Rightarrow> byte list \<Rightarrow> lua_heap \<Rightarrow> lua_value \<times> lua_heap" where
  "lua_load rt bs h = (case undump rt bs of
     None \<Rightarrow> (LString (load_message rt), h)
   | Some n \<Rightarrow> (let (a, h) = new_function \<lparr>is_lua = True, chunk = bs, upvalues = replicate n LNil\<rparr> h
                in (LFunction a, h)))"

definition set_upvalues :: "lua_runtime \<Rightarrow> lua_value \<Rightarrow> (lua_value \<times> lua_value) list \<Rightarrow> lua_heap \<Rightarrow> lua_heap result" where
  "set_upvalues rt fv es h =
     (let nups = border rt es; vals = map (\<lambda>i. rawget_entries (LInteger (int i)) es) [1..<Suc nups] in
      case fv of
        LFunction a \<Rightarrow> (case funs h a of None \<Rightarrow> Inl NullDeref
          | Some f \<Rightarrow> if nups \<le> length (upvalues f)
              then Inr (h\<lparr>funs := (funs h)(a \<mapsto> f\<lparr>upvalues := vals @ drop nups (upvalues f)\<rparr>)\<rparr>)
              else Inl NullDeref)
      | _ \<Rightarrow> if nups = 0 then Inr h else Inl NullDeref)"

text \<open>
  The branches of \<open>mar_decode_value\<close> for the three kinds of objects, with the
  decoder of a nested table (window start and length, address of the table that
  is filled) as the argument \<open>dec_table\<close>.
\<close>

definition decode_ref :: "byte list \<Rightarrow> nat \<Rightarrow> nat \<Rightarrow> dec_state \<Rightarrow> (lua_value \<times> dec_state) result" where
  "decode_ref mem base len ds =
     rbind (mar_next_len mem base len ds) (\<lambda>(ref, ds). Inr (seen_get ref ds, ds))"

definition decode_usr ::
  "(nat \<Rightarrow> nat \<Rightarrow> addr \<Rightarrow> dec_state \<Rightarrow> dec_state result) \<Rightarrow> lua_runtime \<Rightarrow> byte list \<Rightarrow> nat \<Rightarrow> nat \<Rightarrow>
   dec_state \<Rightarrow> (lua_value \<times> dec_state) result" where
  "decode_usr dec_table rt mem base len ds =
     rbind (mar_next_len mem base len ds) (\<lambda>(l, ds).
     case lua_newtable (dheap ds) of (a, h) \<Rightarrow>
     rbind (dec_table (dp ds) l a (ds\<lparr>dheap := h\<rparr>)) (\<lambda>ds'.
     rbind (call0 rt (rawget_entries (LInteger 1) (entries_at (dheap ds') a)) (dheap ds')) (\<lambda>(v, h).
     rbind (mar_incr_ptr base len l (seen_add v (ds'\<lparr>dheap := h, dp := dp ds\<rparr>))) (\<lambda>ds. Inr (v, ds)))))"

definition decode_table_value ::
  "(nat \<Rightarrow> nat \<Rightarrow> addr \<Rightarrow> dec_state \<Rightarrow> dec_state result) \<Rightarrow> lua_runtime \<Rightarrow> byte list \<Rightarrow> nat \<Rightarrow> nat \<Rightarrow>
   dec_state \<Rightarrow> (lua_value \<times> dec_state) result" where
  "decode_table_value dec_table rt mem base len ds =
     rbind (rd_incr mem base len 1 ds) (\<lambda>(tag, ds).
     if tag = [MAR_TREF] then decode_ref mem base len ds
     else if tag = [MAR_TVAL] then
       rbind (mar_next_len mem base len ds) (\<lambda>(l, ds).
       case lua_newtable (dheap ds) of (a, h) \<Rightarrow>
       rbind (dec_table (dp ds) l a (seen_add (LTable a) (ds\<lparr>dheap := h\<rparr>))) (\<lambda>ds'.
       rbind (mar_incr_ptr base len l (ds'\<lparr>dp := dp ds\<rparr>)) (\<lambda>ds. Inr (LTable a, ds))))
     else if tag = [MAR_TUSR] then decode_usr dec_table rt mem base len ds
     else Inl (LuaError ''bad encoded data''))"

definition decode_function_value ::
  "(nat \<Rightarrow> nat \<Rightarrow> addr \<Rightarrow> dec_state \<Rightarrow> dec_state result) \<Rightarrow> lua_runtime \<Rightarrow> byte list \<Rightarrow> nat \<Rightarrow> nat \<Rightarrow>
   dec_state \<Rightarrow> (lua_value \<times> dec_state) result" where
  "decode_function_value dec_table rt mem base len ds =
     rbind (rd_incr mem base len 1 ds) (\<lambda>(tag, ds).
     if tag = [MAR_TREF] then decode_ref mem base len ds
     else
       rbind (mar_next_len mem base len ds) (\<lambda>(l, ds).
       rbind (rd_incr mem base len l ds) (\<lambda>(code, ds).
       case lua_load rt code (dheap ds) of (fv, h) \<Rightarrow>
       rbind (mar_next_len mem base len (seen_add fv (ds\<lparr>dheap := h\<rparr>))) (\<lambda>(l, ds).
       case lua_newtable (dheap ds) of (a, h) \<Rightarrow>
       rbind (dec_table (dp ds) l a (ds\<lparr>dheap := h\<rparr>)) (\<lambda>ds'.
       rbind (set_upvalues rt fv (entries_at (dheap ds') a) (dheap ds')) (\<lambda>h.
       rbind (mar_incr_ptr base len l (ds'\<lparr>dheap := h, dp := dp ds\<rparr>)) (\<lambda>ds. Inr (fv, ds))))))))"

definition decode_userdata_value ::
  "(nat \<Rightarrow> nat \<Rightarrow> addr \<Rightarrow> dec_state \<Rightarrow> dec_state result) \<Rightarrow> lua_runtime \<Rightarrow> byte list \<Rightarrow> nat \<Rightarrow> nat \<Rightarrow>
   dec_state \<Rightarrow> (lua_value \<times> dec_state) result" where
  "decode_userdata_value dec_table rt mem base len ds =
     rbind (rd_incr mem base len 1 ds) (\<lambda>(tag, ds).
     if tag = [MAR_TREF] then decode_ref mem base len ds
     else if tag = [MAR_TUSR] then decode_usr dec_table rt mem base len ds
     else Inr (LNil, ds))"

definition decode_value_step ::
  "(nat \<Rightarrow> nat \<Rightarrow> addr \<Rightarrow> dec_state \<Rightarrow> dec_state result) \<Rightarrow> lua_runtime \<Rightarrow> byte list \<Rightarrow> nat \<Rightarrow> nat \<Rightarrow>
   dec_state \<Rightarrow> (lua_value \<times> dec_state) result" where
  "decode_value_step dec_table rt mem base len ds =
     rbind (rd_incr mem base len 1 ds) (\<lambda>(tb, ds).
     let val_type = int (le_val tb) in
     if val_type = LUA_TBOOLEAN then
       rbind (rd_incr mem base len 1 ds) (\<lambda>(bs, ds). Inr (LBoolean (le_val bs \<noteq> 0), ds))
     else if val_type = LUA_TNUMBER then
       rbind (rd_incr mem base len 8 ds) (\<lambda>(bs, ds). Inr (LNumber (of_nat (le_val bs)), ds))
     else if val_type = LUA_TLIGHTUSERDATA then
       rbind (rd_incr mem base len 8 ds) (\<lambda>(bs, ds). Inr (LLightUserdata (of_nat (le_val bs)), ds))
     else if val_type = LUA_TSTRING then
       rbind (mar_next_len mem base len ds) (\<lambda>(l, ds).
       rbind (rd_incr mem base len l ds) (\<lambda>(bs, ds). Inr (LString bs, ds)))
     else if val_type = LUA_TTABLE then decode_table_value dec_table rt mem base len ds
     else if val_type = LUA_TFUNCTION then decode_function_value dec_table rt mem base len ds
     else if val_type = LUA_TUSERDATA then decode_userdata_value dec_table rt mem base len ds
     else if val_type = LUA_TNIL \<or> val_type = LUA_TTHREAD then Inr (LNil, ds)
     else Inl (LuaError ''bad code''))"

fun mar_decode_value ::
    "nat \<Rightarrow> lua_runtime \<Rightarrow> byte list \<Rightarrow> nat \<Rightarrow> nat \<Rightarrow> dec_state \<Rightarrow> (lua_value \<times> dec_state) result"
  and mar_decode_table ::
    "nat \<Rightarrow> lua_runtime \<Rightarrow> byte list \<Rightarrow> nat \<Rightarrow> nat \<Rightarrow> addr \<Rightarrow> dec_state \<Rightarrow> dec_state result" where
  "mar_decode_value 0 rt mem base len ds = Inl StackOverflow"
| "mar_decode_value (Suc n) rt mem base len ds =
     decode_value_step (mar_decode_table n rt mem) rt mem base len ds"
| "mar_decode_table 0 rt mem base len a ds = Inl StackOverflow"
| "mar_decode_table (Suc n) rt mem base len a ds =
     (if dp ds - base < len then
        rbind (mar_decode_value n rt mem base len ds) (\<lambda>(k, ds).
        rbind (mar_decode_value n rt mem base len ds) (\<lambda>(v, ds).
        rbind (lua_settable a k v (dheap ds)) (\<lambda>h.
        mar_decode_table n rt mem base len a (ds\<lparr>dheap := h\<rparr>))))
      else Inr ds)"

text \<open>
  \<open>mar_decode\<close> on the string \<open>s\<close>; \<open>n\<close> bounds the number of nested activations and
  loop iterations, at most twice the length of the input plus two.
\<close>

definition dseen_init :: "lua_value list \<Rightarrow> int \<rightharpoonup> lua_value" where
  "dseen_init consts = (\<lambda>i. if 1 \<le> i \<and> nat i \<le> length consts then Some (consts ! (nat i - 1)) else None)"

definition mar_decode ::
  "nat \<Rightarrow> lua_runtime \<Rightarrow> lua_value list \<Rightarrow> byte list \<Rightarrow> lua_heap \<Rightarrow> (lua_value \<times> lua_heap) result" where
  "mar_decode n rt consts s h =
     (if length s < 1 then Inl (LuaError ''bad header'')
      else if hd s \<noteq> MAR_MAGIC then Inl (LuaError ''bad magic'')
      else rbind (mar_decode_value n rt (s @ [0]) 1 (length s - 1)
                   \<lparr>dp = 1, dheap = h, dseen = dseen_init consts, didx = Suc (length consts)\<rparr>)
             (\<lambda>(v, ds). Inr (v, dheap ds)))"

definition mar_clone ::
  "nat \<Rightarrow> nat \<Rightarrow> lua_runtime \<Rightarrow> lua_value list \<Rightarrow> bool \<Rightarrow> lua_value \<Rightarrow> lua_heap \<Rightarrow> (lua_value \<times> lua_heap) result" where
  "mar_clone d n rt consts nowrap v h =
     rbind (mar_encode d h consts nowrap v) (\<lambda>s. mar_decode n rt consts s h)"

end
