(* ===== verification/Leda_Marshal_Roundtrip.thy ===== *)
theory Leda_Marshal_Roundtrip
  imports Leda_Marshal
begin

text \<open>
  Decoding what was encoded: the decoder rebuilds, in any target heap, a copy of
  the encoded value that preserves sharing and cycles. The proof relates the
  encoder's table of seen objects with the decoder's: the object that the encoder
  gave number \<open>i\<close> is the one the decoder stored under \<open>i\<close>.
\<close>

section \<open>The buffer\<close>

definition buf_wf :: "mar_Buffer \<Rightarrow> bool" where
  "buf_wf b \<longleftrightarrow> 0 < bsize b \<and> bhead b \<le> bsize b \<and> length (bdata b) = bhead b"

lemma grow_enough: "0 < sz \<Longrightarrow> len < grow sz hd0 len - hd0"
proof (induction sz hd0 len rule: grow.induct)
  case (1 sz hd0 len)
  then show ?case by (subst grow.simps) auto
qed

lemma buf_write_cases:
  assumes "buf_wf b"
  shows "if length bs < 2 ^ 32
    then \<exists>b'. buf_write bs b = Inr b' \<and> bdata b' = bdata b @ bs \<and> buf_wf b'
    else buf_write bs b = Inl (LuaError ''buffer too long'')"
proof -
  have "length bs < grow (2 * bsize b) (bhead b) (length bs) - bhead b"
    using assms by (intro grow_enough) (simp add: buf_wf_def)
  with assms show ?thesis by (auto simp: buf_write_def buf_wf_def Let_def)
qed

lemma buf_write_Inr:
  "buf_write bs b = Inr b' \<Longrightarrow> bdata b' = bdata b @ bs \<and> length bs < 2 ^ 32"
  by (auto simp: buf_write_def Let_def split: if_splits)

lemma put_InrE:
  assumes "put bs st = Inr st'"
  obtains b where "st' = st\<lparr>ebuf := b\<rparr>" and "bdata b = bdata (ebuf st) @ bs" and "length bs < 2 ^ 32"
  using assms buf_write_Inr [of bs "ebuf st"] by (auto simp: put_def rbind_Inr_iff)

lemma put_block_InrE:
  assumes "put_block pre bs st = Inr st'"
  obtains b where "st' = st\<lparr>ebuf := b\<rparr>" and "length bs < 2 ^ 32"
    and "bdata b = bdata (ebuf st) @ pre @ le_bytes 4 (length bs) @ bs"
proof -
  from assms obtain st1 st2 where p: "put pre st = Inr st1" "put (le_bytes 4 (length bs)) st1 = Inr st2"
    "put bs st2 = Inr st'" by (auto simp: put_block_def rbind_Inr_iff)
  from p(1) show ?thesis
  proof (rule put_InrE)
    fix b1 assume 1: "st1 = st\<lparr>ebuf := b1\<rparr>" "bdata b1 = bdata (ebuf st) @ pre"
    from p(2) show ?thesis
    proof (rule put_InrE)
      fix b2 assume 2: "st2 = st1\<lparr>ebuf := b2\<rparr>" "bdata b2 = bdata (ebuf st1) @ le_bytes 4 (length bs)"
      from p(3) show ?thesis
      proof (rule put_InrE)
        fix b3 assume 3: "st' = st2\<lparr>ebuf := b3\<rparr>" "bdata b3 = bdata (ebuf st2) @ bs" "length bs < 2 ^ 32"
        show ?thesis by (rule that [of b3]) (use 1 2 3 in simp_all)
      qed
    qed
  qed
qed

section \<open>Reading back\<close>

definition at :: "byte list \<Rightarrow> nat \<Rightarrow> byte list \<Rightarrow> bool" where
  "at mem p bs \<longleftrightarrow> p + length bs \<le> length mem \<and> take (length bs) (drop p mem) = bs"

lemma at_append [simp]: "at mem p (xs @ ys) \<longleftrightarrow> at mem p xs \<and> at mem (p + length xs) ys"
proof -
  have "take (length xs + length ys) (drop p mem)
      = take (length xs) (drop p mem) @ take (length ys) (drop (p + length xs) mem)"
    by (simp add: take_add add.commute)
  then show ?thesis by (auto simp: at_def append_eq_append_conv)
qed

lemma at_Cons: "at mem p (x # ys) \<longleftrightarrow> at mem p [x] \<and> at mem (Suc p) ys"
  using at_append [of mem p "[x]" ys] by simp

lemma rd_incr_at:
  assumes "at mem (dp ds) bs" and "base \<le> dp ds" and "dp ds + length bs \<le> base + len" and "k = length bs"
  shows "rd_incr mem base len k ds = Inr (bs, ds\<lparr>dp := dp ds + length bs\<rparr>)"
  using assms by (simp add: rd_incr_def rd_def at_def mar_incr_ptr_def)

lemma next_len_at:
  assumes "at mem (dp ds) (le_bytes 4 l)" and "l < 2 ^ 32" and "base \<le> dp ds" and "dp ds + 4 \<le> base + len"
  shows "mar_next_len mem base len ds = Inr (l, ds\<lparr>dp := dp ds + 4\<rparr>)"
  using assms by (simp add: mar_next_len_def rd_def at_def le_val_le_bytes)

section \<open>Copies\<close>

fun addr_of :: "lua_value \<Rightarrow> addr" where
  "addr_of (LTable a) = a"
| "addr_of (LFunction a) = a"
| "addr_of (LUserdata a) = a"
| "addr_of (LThread a) = a"
| "addr_of _ = 0"

fun is_object :: "lua_value \<Rightarrow> bool" where
  "is_object (LTable a) = True"
| "is_object (LFunction a) = True"
| "is_object _ = False"

text \<open>A renaming of objects, applied to a value and to the entries of a table.\<close>

definition ren :: "(lua_value \<rightharpoonup> lua_value) \<Rightarrow> lua_value \<Rightarrow> lua_value \<Rightarrow> bool" where
  "ren \<rho> v w \<longleftrightarrow> (if is_object v then \<rho> v = Some w else w = v)"

definition ren_pair ::
  "(lua_value \<rightharpoonup> lua_value) \<Rightarrow> lua_value \<times> lua_value \<Rightarrow> lua_value \<times> lua_value \<Rightarrow> bool" where
  "ren_pair \<rho> p q \<longleftrightarrow> ren \<rho> (fst p) (fst q) \<and> ren \<rho> (snd p) (snd q)"

text \<open>The object \<open>y\<close> of the heap \<open>h'\<close> is the object \<open>x\<close> of \<open>h\<close>, up to the renaming.\<close>

fun obj_copy ::
  "(lua_value \<rightharpoonup> lua_value) \<Rightarrow> lua_heap \<Rightarrow> lua_value \<Rightarrow> lua_heap \<Rightarrow> lua_value \<Rightarrow> bool" where
  "obj_copy \<rho> h (LTable a) h' (LTable b) =
     (\<exists>t t'. tabs h a = Some t \<and> tabs h' b = Some t' \<and> t_persist t' = None \<and>
        list_all2 (ren_pair \<rho>) (entries t) (entries t'))"
| "obj_copy \<rho> h (LFunction a) h' (LFunction b) =
     (\<exists>f f'. funs h a = Some f \<and> funs h' b = Some f' \<and> is_lua f' \<and> chunk f' = chunk f \<and>
        list_all2 (ren \<rho>) (upvalues f) (upvalues f'))"
| "obj_copy \<rho> h _ h' _ = False"

text \<open>
  \<open>w\<close> in \<open>h'\<close> is a copy of \<open>v\<close> in \<open>h\<close>: some injective renaming maps \<open>v\<close> to \<open>w\<close> and
  every object it renames to a copy of it.
\<close>

definition copy :: "lua_heap \<Rightarrow> lua_value \<Rightarrow> lua_heap \<Rightarrow> lua_value \<Rightarrow> bool" where
  "copy h v h' w \<longleftrightarrow> (\<exists>\<rho>. inj_on \<rho> (dom \<rho>) \<and> ren \<rho> v w \<and> (\<forall>x y. \<rho> x = Some y \<longrightarrow> obj_copy \<rho> h x h' y))"

lemma ren_mono: "ren \<rho> v w \<Longrightarrow> \<rho> \<subseteq>\<^sub>m \<rho>' \<Longrightarrow> ren \<rho>' v w"
  by (auto simp: ren_def map_le_def dom_def split: if_splits)

lemma ren_pair_mono: "ren_pair \<rho> p q \<Longrightarrow> \<rho> \<subseteq>\<^sub>m \<rho>' \<Longrightarrow> ren_pair \<rho>' p q"
  using ren_mono by (simp add: ren_pair_def) blast

lemma ren_pairs_mono: "list_all2 (ren_pair \<rho>) ps qs \<Longrightarrow> \<rho> \<subseteq>\<^sub>m \<rho>' \<Longrightarrow> list_all2 (ren_pair \<rho>') ps qs"
  by (erule list_all2_mono) (rule ren_pair_mono)

lemma obj_copy_mono:
  assumes "obj_copy \<rho> h x h' y" and "\<rho> \<subseteq>\<^sub>m \<rho>'" and "tabs h'' (addr_of y) = tabs h' (addr_of y)"
    and "funs h'' (addr_of y) = funs h' (addr_of y)"
  shows "obj_copy \<rho>' h x h'' y"
  using assms
proof (induction \<rho> h x h' y rule: obj_copy.induct)
  case (1 \<rho> h a h' b)
  then show ?case using ren_pairs_mono by fastforce
next
  case (2 \<rho> h a h' b)
  then show ?case using list_all2_mono [of "ren \<rho>" _ _ "ren \<rho>'"] ren_mono by fastforce
qed simp_all

text \<open>The heap only grows, except for what happens at the addresses \<open>X\<close>.\<close>

definition kept :: "lua_heap \<Rightarrow> lua_heap \<Rightarrow> addr set \<Rightarrow> bool" where
  "kept h h' X \<longleftrightarrow> nexta h \<le> nexta h' \<and> uds h' = uds h \<and>
     (\<forall>a < nexta h. a \<notin> X \<longrightarrow> tabs h' a = tabs h a \<and> funs h' a = funs h a)"

definition heap_wf :: "lua_heap \<Rightarrow> bool" where
  "heap_wf h \<longleftrightarrow> (\<forall>a \<ge> nexta h. tabs h a = None \<and> funs h a = None)"

lemma kept_refl [simp]: "kept h h X"
  by (simp add: kept_def)

lemma kept_trans: "kept h h1 X \<Longrightarrow> kept h1 h2 Y \<Longrightarrow> Y \<inter> {..<nexta h} \<subseteq> X \<Longrightarrow> kept h h2 X"
proof -
  assume k: "kept h h1 X" "kept h1 h2 Y" and X: "Y \<inter> {..<nexta h} \<subseteq> X"
  have "tabs h2 a = tabs h a \<and> funs h2 a = funs h a" if "a < nexta h" and "a \<notin> X" for a
  proof -
    have "a \<notin> Y" and "a < nexta h1" using X that k(1) by (auto simp: kept_def)
    with k that show ?thesis by (simp add: kept_def)
  qed
  with k show ?thesis by (simp add: kept_def)
qed

section \<open>Encoder and decoder in step\<close>

definition rho :: "enc_state \<Rightarrow> dec_state \<Rightarrow> lua_value \<rightharpoonup> lua_value" where
  "rho st ds x = (case eseen st x of None \<Rightarrow> None | Some i \<Rightarrow> dseen ds (int i))"

definition sync :: "enc_state \<Rightarrow> dec_state \<Rightarrow> bool" where
  "sync st ds \<longleftrightarrow> didx ds = eidx st \<and> heap_wf (dheap ds) \<and> inj_on (rho st ds) (dom (rho st ds)) \<and>
     (\<forall>x i. eseen st x = Some i \<longrightarrow> i < eidx st \<and> is_object x \<and>
        (\<exists>y. dseen ds (int i) = Some y \<and> type_tag y = type_tag x \<and> addr_of y < nexta (dheap ds)))"

definition dec_ok :: "lua_heap \<Rightarrow> enc_state \<Rightarrow> enc_state \<Rightarrow> dec_state \<Rightarrow> dec_state \<Rightarrow> addr set \<Rightarrow> bool" where
  "dec_ok h st st' ds ds' X \<longleftrightarrow> sync st' ds' \<and> rho st ds \<subseteq>\<^sub>m rho st' ds' \<and> kept (dheap ds) (dheap ds') X \<and>
     (\<forall>x y. eseen st x = None \<and> rho st' ds' x = Some y \<longrightarrow>
        nexta (dheap ds) \<le> addr_of y \<and> obj_copy (rho st' ds') h x (dheap ds') y)"

lemma rho_upd [simp]:
  "rho (st\<lparr>ebuf := b\<rparr>) ds = rho st ds" "rho st (ds\<lparr>dp := p\<rparr>) = rho st ds" "rho st (ds\<lparr>dheap := hp\<rparr>) = rho st ds"
  by (simp_all add: rho_def fun_eq_iff split: option.split)

lemma sync_upd [simp]:
  "sync (st\<lparr>ebuf := b\<rparr>) ds = sync st ds" "sync st (ds\<lparr>dp := p\<rparr>) = sync st ds"
  by (simp_all add: sync_def)

lemma dec_ok_upd [simp]:
  "dec_ok h (st\<lparr>ebuf := b\<rparr>) st' ds ds' X = dec_ok h st st' ds ds' X"
  "dec_ok h st (st'\<lparr>ebuf := b\<rparr>) ds ds' X = dec_ok h st st' ds ds' X"
  "dec_ok h st st' (ds\<lparr>dp := p\<rparr>) ds' X = dec_ok h st st' ds ds' X"
  "dec_ok h st st' ds (ds'\<lparr>dp := p\<rparr>) X = dec_ok h st st' ds ds' X"
  by (simp_all add: dec_ok_def)

lemma sync_rho: "sync st ds \<Longrightarrow> eseen st x = Some i \<Longrightarrow> \<exists>y. rho st ds x = Some y \<and> dseen ds (int i) = Some y"
  by (auto simp: sync_def rho_def)

lemma sync_addr: "sync st ds \<Longrightarrow> rho st ds x = Some y \<Longrightarrow> addr_of y < nexta (dheap ds)"
  by (fastforce simp: sync_def rho_def split: option.splits)

lemma dec_ok_refl: "sync st ds \<Longrightarrow> dec_ok h st st ds ds X"
  by (auto simp: dec_ok_def rho_def)

lemma dec_ok_trans:
  assumes 1: "dec_ok h st st1 ds ds1 X" and 2: "dec_ok h st1 st2 ds1 ds2 Y"
    and X: "Y \<inter> {..<nexta (dheap ds)} \<subseteq> X" and Y: "Y \<subseteq> {..<nexta (dheap ds)}" and s: "sync st ds"
  shows "dec_ok h st st2 ds ds2 X"
proof -
  have "nexta (dheap ds) \<le> addr_of y \<and> obj_copy (rho st2 ds2) h x (dheap ds2) y"
    if x: "eseen st x = None" and y: "rho st2 ds2 x = Some y" for x y
  proof (cases "eseen st1 x")
    case None
    then have "nexta (dheap ds1) \<le> addr_of y" and "obj_copy (rho st2 ds2) h x (dheap ds2) y"
      using 2 y by (auto simp: dec_ok_def)
    moreover have "nexta (dheap ds) \<le> nexta (dheap ds1)" using 1 by (simp add: dec_ok_def kept_def)
    ultimately show ?thesis by simp
  next
    case (Some i)
    have s1: "sync st1 ds1" using 1 by (simp add: dec_ok_def)
    from sync_rho [OF s1 Some] obtain y' where y': "rho st1 ds1 x = Some y'" by blast
    with 2 y have [simp]: "y' = y" by (force simp: dec_ok_def map_le_def)
    have lo: "nexta (dheap ds) \<le> addr_of y" and oc: "obj_copy (rho st1 ds1) h x (dheap ds1) y"
      using 1 x y' by (auto simp: dec_ok_def)
    have "addr_of y < nexta (dheap ds1)" using sync_addr [OF s1 y'] by simp
    moreover have "addr_of y \<notin> Y" using lo Y by auto
    ultimately have "tabs (dheap ds2) (addr_of y) = tabs (dheap ds1) (addr_of y)"
      "funs (dheap ds2) (addr_of y) = funs (dheap ds1) (addr_of y)"
      using 2 by (auto simp: dec_ok_def kept_def)
    with oc lo 2 show ?thesis by (auto simp: dec_ok_def intro: obj_copy_mono)
  qed
  moreover have "rho st ds \<subseteq>\<^sub>m rho st2 ds2" using 1 2 unfolding dec_ok_def by (blast intro: map_le_trans)
  moreover have "kept (dheap ds) (dheap ds2) X" using 1 2 X unfolding dec_ok_def by (blast intro: kept_trans)
  ultimately show ?thesis using 2 unfolding dec_ok_def by blast
qed

section \<open>Heaps without hooks\<close>

text \<open>
  The entries of a table: no key is nil or NaN, no value is nil, no key occurs
  twice. \<open>border_ok\<close>: the length of a table whose keys are \<open>1..n\<close> is \<open>n\<close>.
\<close>

definition good_entries :: "(lua_value \<times> lua_value) list \<Rightarrow> bool" where
  "good_entries es \<longleftrightarrow> (\<forall>(k, v) \<in> set es. k \<noteq> LNil \<and> \<not> is_nan k \<and> v \<noteq> LNil) \<and>
     sorted_wrt (\<lambda>p q. \<not> key_eq (fst p) (fst q)) es"

definition plain :: "lua_runtime \<Rightarrow> lua_heap \<Rightarrow> bool" where
  "plain rt h \<longleftrightarrow>
     (\<forall>a t. tabs h a = Some t \<longrightarrow> t_persist t = None \<and> good_entries (entries t)) \<and>
     (\<forall>a f. funs h a = Some f \<and> is_lua f \<longrightarrow> LNil \<notin> set (upvalues f) \<and> length (upvalues f) \<le> 255 \<and>
        undump rt (chunk f) = Some (length (upvalues f))) \<and>
     (\<forall>a u. uds h a = Some u \<longrightarrow> u_wrap u = None \<and> u_persist u = None)"

definition border_ok :: "lua_runtime \<Rightarrow> bool" where
  "border_ok rt \<longleftrightarrow> (\<forall>es n. map fst es = map (\<lambda>i. LInteger (int i)) [1..<Suc n] \<and> LNil \<notin> snd ` set es
     \<longrightarrow> border rt es = n)"

lemma rawset_new:
  "\<forall>p \<in> set E. \<not> key_eq k (fst p) \<Longrightarrow> v \<noteq> LNil \<Longrightarrow> rawset_entries k v E = E @ [(k, v)]"
  by (induction k v E rule: rawset_entries.induct) auto

lemma key_eq_sym: "key_eq a b = key_eq b a"
  by (auto simp: key_eq_def)

lemma tag_cases:
  "type_tag w = type_tag v \<Longrightarrow> is_object v \<Longrightarrow> is_object w"
  "is_object w \<Longrightarrow> w \<noteq> LNil \<and> \<not> is_nan w \<and> w \<notin> {LNumber x, LNumber y}"
  by (cases v; cases w; simp) (cases w; simp)

lemma sync_ren:
  assumes "sync st ds" and "ren (rho st ds) v w"
  shows "is_object w = is_object v" and "w = LNil \<longleftrightarrow> v = LNil" and "is_nan w = is_nan v"
proof -
  have "is_object w" if "is_object v"
    using assms that tag_cases(1) [of w v] by (fastforce simp: sync_def ren_def rho_def split: option.splits)
  then show "is_object w = is_object v" "w = LNil \<longleftrightarrow> v = LNil" "is_nan w = is_nan v"
    using assms(2) tag_cases(2) [of w] tag_cases(2) [of v] by (auto simp: ren_def split: if_splits)
qed

lemma ren_key_eq:
  assumes s: "sync st ds" and k: "ren (rho st ds) k k'" and j: "ren (rho st ds) j j'" and eq: "key_eq k' j'"
  shows "key_eq k j"
proof (cases "is_object k")
  case True
  then have "is_object k'" using sync_ren(1) [OF s k] by simp
  then have "k' = j'" using eq tag_cases(2) [of k'] by (auto simp: key_eq_def)
  with \<open>is_object k'\<close> have "is_object j" using sync_ren(1) [OF s j] by simp
  with True k j \<open>k' = j'\<close> have "rho st ds k = Some k'" "rho st ds j = Some k'" by (simp_all add: ren_def)
  then have "k = j" using s inj_onD [of "rho st ds" "dom (rho st ds)" k j] by (auto simp: sync_def)
  then show ?thesis by (simp add: key_eq_def)
next
  case False
  then have "k' = k" using k by (simp add: ren_def)
  moreover have "\<not> is_object j'"
    using False \<open>k' = k\<close> eq tag_cases(2) [of j'] by (auto simp: key_eq_def)
  then have "j' = j" using sync_ren(1) [OF s j] j by (simp add: ren_def)
  ultimately show ?thesis using eq by simp
qed

section \<open>The simulation\<close>

text \<open>What the encoder appends: the bytes \<open>bs\<close>, with at most one new object per byte.\<close>

definition enc_out :: "enc_state \<Rightarrow> enc_state \<Rightarrow> byte list \<Rightarrow> bool" where
  "enc_out st st' bs \<longleftrightarrow> bdata (ebuf st') = bdata (ebuf st) @ bs \<and>
     eidx st \<le> eidx st' \<and> eidx st' \<le> eidx st + length bs"

text \<open>
  What the decoder makes of these bytes, wherever they lie inside a window, when
  it starts in step with the encoder.
\<close>

definition dec_val_ok ::
  "lua_runtime \<Rightarrow> lua_heap \<Rightarrow> lua_value \<Rightarrow> enc_state \<Rightarrow> enc_state \<Rightarrow> byte list \<Rightarrow> bool" where
  "dec_val_ok rt h v st st' bs \<longleftrightarrow> 1 \<le> length bs \<and>
     (\<forall>n mem base len ds. at mem (dp ds) bs \<longrightarrow> base \<le> dp ds \<longrightarrow> dp ds + length bs \<le> base + len \<longrightarrow>
        2 * length bs \<le> n \<longrightarrow> eidx st' < 2 ^ 31 \<longrightarrow> sync st ds \<longrightarrow>
        (\<exists>w ds'. mar_decode_value n rt mem base len ds = Inr (w, ds') \<and> dp ds' = dp ds + length bs \<and>
           dec_ok h st st' ds ds' {} \<and> ren (rho st' ds') v w))"

definition dec_tab_ok ::
  "lua_runtime \<Rightarrow> lua_heap \<Rightarrow> (lua_value \<times> lua_value) list \<Rightarrow> enc_state \<Rightarrow> enc_state \<Rightarrow> byte list \<Rightarrow> bool" where
  "dec_tab_ok rt h es st st' bs \<longleftrightarrow>
     (\<forall>n mem base len ds a t es0. at mem (dp ds) bs \<longrightarrow> base \<le> dp ds \<longrightarrow> dp ds + length bs = base + len \<longrightarrow>
        Suc (2 * length bs) \<le> n \<longrightarrow> eidx st' < 2 ^ 31 \<longrightarrow> sync st ds \<longrightarrow>
        tabs (dheap ds) a = Some t \<longrightarrow> a < nexta (dheap ds) \<longrightarrow>
        list_all2 (ren_pair (rho st ds)) es0 (entries t) \<longrightarrow> good_entries (es0 @ es) \<longrightarrow>
        (\<exists>ds' es'. mar_decode_table n rt mem base len a ds = Inr ds' \<and> dec_ok h st st' ds ds' {a} \<and>
           tabs (dheap ds') a = Some (t\<lparr>entries := entries t @ es'\<rparr>) \<and>
           list_all2 (ren_pair (rho st' ds')) es es'))"

definition val_ok :: "lua_runtime \<Rightarrow> lua_heap \<Rightarrow> bool \<Rightarrow> nat \<Rightarrow> lua_value \<Rightarrow> enc_state \<Rightarrow> bool" where
  "val_ok rt h nw d v st \<longleftrightarrow> (\<forall>st'. mar_encode_value d h nw v st = Inr st' \<longrightarrow>
     (\<exists>bs. enc_out st st' bs \<and> dec_val_ok rt h v st st' bs))"

definition tab_ok ::
  "lua_runtime \<Rightarrow> lua_heap \<Rightarrow> bool \<Rightarrow> nat \<Rightarrow> (lua_value \<times> lua_value) list \<Rightarrow> enc_state \<Rightarrow> bool" where
  "tab_ok rt h nw d es st \<longleftrightarrow> (\<forall>st'. mar_encode_table d h nw es st = Inr st' \<longrightarrow>
     (\<exists>bs. enc_out st st' bs \<and> dec_tab_ok rt h es st st' bs))"

text \<open>Storing one decoded pair appends it to the entries.\<close>

lemma settable_pair:
  assumes s: "sync st ds" and t: "tabs (dheap ds) a = Some t" and es0: "list_all2 (ren_pair (rho st ds)) es0 (entries t)"
    and k: "ren (rho st ds) k k'" and v: "ren (rho st ds) v v'" and g: "good_entries (es0 @ (k, v) # es)"
  shows "lua_settable a k' v' (dheap ds)
     = Inr (dheap ds\<lparr>tabs := (tabs (dheap ds))(a \<mapsto> t\<lparr>entries := entries t @ [(k', v')]\<rparr>)\<rparr>)"
proof -
  have nn: "k' \<noteq> LNil" "\<not> is_nan k'" "v' \<noteq> LNil"
    using g sync_ren(2,3) [OF s k] sync_ren(2) [OF s v] by (auto simp: good_entries_def)
  have "\<not> key_eq k' (fst q)" if "q \<in> set (entries t)" for q
  proof
    assume eq: "key_eq k' (fst q)"
    from es0 that obtain p where p: "p \<in> set es0" "ren_pair (rho st ds) p q"
      by (metis in_set_conv_nth list_all2_conv_all_nth)
    have "key_eq k (fst p)" using ren_key_eq [OF s k _ eq] p(2) by (simp add: ren_pair_def)
    moreover have "\<not> key_eq (fst p) k" using g p(1) by (auto simp: good_entries_def sorted_wrt_append)
    ultimately show False by (simp add: key_eq_sym)
  qed
  then have "rawset_entries k' v' (entries t) = entries t @ [(k', v')]" using nn by (intro rawset_new) auto
  with nn t show ?thesis by (simp add: lua_settable_def)
qed

lemma sync_set_entries:
  assumes "sync st ds" and "a < nexta (dheap ds)"
  shows "sync st (ds\<lparr>dheap := dheap ds\<lparr>tabs := (tabs (dheap ds))(a \<mapsto> t)\<rparr>\<rparr>)"
  using assms by (auto simp: sync_def heap_wf_def)

lemma dec_ok_set_entries:
  assumes s: "sync st ds" and a: "a < nexta (dheap ds)"
  shows "dec_ok h st st ds (ds\<lparr>dheap := dheap ds\<lparr>tabs := (tabs (dheap ds))(a \<mapsto> t)\<rparr>\<rparr>) {a}"
  using sync_set_entries [OF s a] by (auto simp: dec_ok_def kept_def rho_def)

lemma dec_ok_weaken: "dec_ok h st st' ds ds' X \<Longrightarrow> X \<subseteq> Y \<Longrightarrow> dec_ok h st st' ds ds' Y"
  by (auto simp: dec_ok_def kept_def)

lemma dec_ok_entries:
  assumes "dec_ok h st st' ds ds' {}" and "tabs (dheap ds) a = Some t" and "a < nexta (dheap ds)"
    and "list_all2 (ren_pair (rho st ds)) es0 (entries t)"
  shows "tabs (dheap ds') a = Some t" and "a < nexta (dheap ds')"
    and "list_all2 (ren_pair (rho st' ds')) es0 (entries t)"
  using assms ren_pairs_mono by (auto simp: dec_ok_def kept_def)

lemma dec_val_okD:
  "dec_val_ok rt h v st st' bs \<Longrightarrow> at mem (dp ds) bs \<Longrightarrow> base \<le> dp ds \<Longrightarrow> dp ds + length bs \<le> base + len \<Longrightarrow>
   2 * length bs \<le> n \<Longrightarrow> eidx st' < 2 ^ 31 \<Longrightarrow> sync st ds \<Longrightarrow>
   \<exists>w ds'. mar_decode_value n rt mem base len ds = Inr (w, ds') \<and> dp ds' = dp ds + length bs \<and>
     dec_ok h st st' ds ds' {} \<and> ren (rho st' ds') v w"
  unfolding dec_val_ok_def by blast

lemma dec_tab_okD:
  "dec_tab_ok rt h es st st' bs \<Longrightarrow> at mem (dp ds) bs \<Longrightarrow> base \<le> dp ds \<Longrightarrow> dp ds + length bs = base + len \<Longrightarrow>
   Suc (2 * length bs) \<le> n \<Longrightarrow> eidx st' < 2 ^ 31 \<Longrightarrow> sync st ds \<Longrightarrow>
   tabs (dheap ds) a = Some t \<Longrightarrow> a < nexta (dheap ds) \<Longrightarrow>
   list_all2 (ren_pair (rho st ds)) es0 (entries t) \<Longrightarrow> good_entries (es0 @ es) \<Longrightarrow>
   \<exists>ds' es'. mar_decode_table n rt mem base len a ds = Inr ds' \<and> dec_ok h st st' ds ds' {a} \<and>
     tabs (dheap ds') a = Some (t\<lparr>entries := entries t @ es'\<rparr>) \<and> list_all2 (ren_pair (rho st' ds')) es es'"
  unfolding dec_tab_ok_def by blast

lemma enc_out_trans: "enc_out st st1 bs \<Longrightarrow> enc_out st1 st2 cs \<Longrightarrow> enc_out st st2 (bs @ cs)"
  by (simp add: enc_out_def)

lemma dec_tab_ok_Nil: "dec_tab_ok rt h [] st st []"
  unfolding dec_tab_ok_def
proof (intro allI impI)
  fix n mem base len ds a es0 and t :: lua_table
  assume "dp ds + length [] = base + len" "Suc (2 * length []) \<le> n" "sync st ds" "tabs (dheap ds) a = Some t"
  then show "\<exists>ds' es'. mar_decode_table n rt mem base len a ds = Inr ds' \<and> dec_ok h st st ds ds' {a} \<and>
      tabs (dheap ds') a = Some (t\<lparr>entries := entries t @ es'\<rparr>) \<and> list_all2 (ren_pair (rho st ds')) [] es'"
    by (cases n) (auto intro: dec_ok_refl)
qed

lemma dec_tab_ok_Cons:
  assumes dk: "dec_val_ok rt h k st st1 bk" and dv: "dec_val_ok rt h v st1 st2 bv"
    and dt: "dec_tab_ok rt h es st2 st' bt" and mono: "eidx st1 \<le> eidx st2" "eidx st2 \<le> eidx st'"
  shows "dec_tab_ok rt h ((k, v) # es) st st' (bk @ bv @ bt)"
  unfolding dec_tab_ok_def
proof (intro allI impI)
  fix n mem base len ds a t es0
  assume w: "at mem (dp ds) (bk @ bv @ bt)" "base \<le> dp ds" "dp ds + length (bk @ bv @ bt) = base + len"
      "Suc (2 * length (bk @ bv @ bt)) \<le> n" "eidx st' < 2 ^ 31" and s: "sync st ds"
    and t: "tabs (dheap ds) a = Some t" "a < nexta (dheap ds)"
    and es0: "list_all2 (ren_pair (rho st ds)) es0 (entries t)" and g: "good_entries (es0 @ (k, v) # es)"
  have l: "1 \<le> length bk" "1 \<le> length bv" using dk dv by (auto simp: dec_val_ok_def)
  obtain m where n: "n = Suc m" using w(4) by (cases n) auto
  have "\<exists>k' ds1. mar_decode_value m rt mem base len ds = Inr (k', ds1) \<and>
    dp ds1 = dp ds + length bk \<and> dec_ok h st st1 ds ds1 {} \<and> ren (rho st1 ds1) k k'"
    using w s n mono by (intro dec_val_okD [OF dk]) simp_all
  then obtain k' ds1 where 1: "mar_decode_value m rt mem base len ds = Inr (k', ds1)"
    "dp ds1 = dp ds + length bk" "dec_ok h st st1 ds ds1 {}" "ren (rho st1 ds1) k k'" by blast
  have s1: "sync st1 ds1" using 1(3) by (simp add: dec_ok_def)
  have "\<exists>v' ds2. mar_decode_value m rt mem base len ds1 = Inr (v', ds2) \<and>
    dp ds2 = dp ds1 + length bv \<and> dec_ok h st1 st2 ds1 ds2 {} \<and> ren (rho st2 ds2) v v'"
    using w s1 n 1(2) mono by (intro dec_val_okD [OF dv]) simp_all
  then obtain v' ds2 where 2: "mar_decode_value m rt mem base len ds1 = Inr (v', ds2)"
    "dp ds2 = dp ds1 + length bv" "dec_ok h st1 st2 ds1 ds2 {}" "ren (rho st2 ds2) v v'" by blast
  have s2: "sync st2 ds2" using 2(3) by (simp add: dec_ok_def)
  have k2: "ren (rho st2 ds2) k k'" using 1(4) 2(3) ren_mono by (auto simp: dec_ok_def)
  have 12: "dec_ok h st st2 ds ds2 {}" using dec_ok_trans [OF 1(3) 2(3) _ _ s] by simp
  note t2 = dec_ok_entries [OF 12 t es0]
  let ?t = "t\<lparr>entries := entries t @ [(k', v')]\<rparr>"
  let ?ds = "ds2\<lparr>dheap := dheap ds2\<lparr>tabs := (tabs (dheap ds2))(a \<mapsto> ?t)\<rparr>\<rparr>"
  have set: "lua_settable a k' v' (dheap ds2) = Inr (dheap ?ds)"
    using settable_pair [OF s2 t2(1,3) k2 2(4) g] by simp
  have "list_all2 (ren_pair (rho st2 ?ds)) (es0 @ [(k, v)]) (entries ?t)"
    using t2(3) k2 2(4) by (simp add: list_all2_appendI ren_pair_def)
  moreover have "good_entries ((es0 @ [(k, v)]) @ es)" using g by simp
  moreover have "sync st2 ?ds" by (rule sync_set_entries [OF s2 t2(2)])
  moreover have "at mem (dp ?ds) bt" "base \<le> dp ?ds" "dp ?ds + length bt = base + len" "Suc (2 * length bt) \<le> m"
    using w n l 1(2) 2(2) by (simp_all add: add.assoc)
  moreover have "tabs (dheap ?ds) a = Some ?t" "a < nexta (dheap ?ds)" using t2(2) by simp_all
  ultimately have "\<exists>ds' es'. mar_decode_table m rt mem base len a ?ds = Inr ds' \<and>
    dec_ok h st2 st' ?ds ds' {a} \<and> tabs (dheap ds') a = Some (?t\<lparr>entries := entries ?t @ es'\<rparr>) \<and>
    list_all2 (ren_pair (rho st' ds')) es es'"
    using w(5) by (intro dec_tab_okD [OF dt])
  then obtain ds' es' where 3: "mar_decode_table m rt mem base len a ?ds = Inr ds'"
    "dec_ok h st2 st' ?ds ds' {a}" "tabs (dheap ds') a = Some (?t\<lparr>entries := entries ?t @ es'\<rparr>)"
    "list_all2 (ren_pair (rho st' ds')) es es'" by blast
  have "dec_ok h st st2 ds ?ds {a}"
    using dec_ok_trans [OF dec_ok_weaken [OF 12, of "{a}"] dec_ok_set_entries [OF s2 t2(2), of h ?t] _ _ s] t(2) by simp
  from dec_ok_trans [OF this 3(2) _ _ s] t(2) have ok: "dec_ok h st st' ds ds' {a}" by simp
  have "rho st2 ds2 \<subseteq>\<^sub>m rho st' ds'" using 3(2) by (simp add: dec_ok_def)
  then have "ren_pair (rho st' ds') (k, v) (k', v')" using k2 2(4) ren_mono by (auto simp: ren_pair_def)
  moreover have "dp ds - base < len" using w(2,3) l(1) by simp
  then have "mar_decode_table n rt mem base len a ds = Inr ds'"
    using 1(1) 2(1) set 3(1) n by simp
  ultimately show "\<exists>ds' es'. mar_decode_table n rt mem base len a ds = Inr ds' \<and> dec_ok h st st' ds ds' {a} \<and>
      tabs (dheap ds') a = Some (t\<lparr>entries := entries t @ es'\<rparr>) \<and>
      list_all2 (ren_pair (rho st' ds')) ((k, v) # es) es'"
    using ok 3(3,4) by (intro exI [of _ ds'] exI [of _ "(k', v') # es'"]) simp
qed

lemma tab_ok_from_val:
  assumes V: "\<And>v st. val_ok rt h nw d v st"
  shows "tab_ok rt h nw d es st"
proof (induction es arbitrary: st)
  case Nil
  show ?case using dec_tab_ok_Nil by (auto simp: tab_ok_def enc_out_def)
next
  case (Cons kv es)
  obtain k v where kv: "kv = (k, v)" by force
  show ?case unfolding tab_ok_def
  proof (intro allI impI)
    fix st' assume "mar_encode_table d h nw (kv # es) st = Inr st'"
    then obtain st1 st2 where e: "mar_encode_value d h nw k st = Inr st1" "mar_encode_value d h nw v st1 = Inr st2"
      "mar_encode_table d h nw es st2 = Inr st'" by (auto simp: kv rbind_Inr_iff)
    from V [of k st] e(1) obtain bk where bk: "enc_out st st1 bk" "dec_val_ok rt h k st st1 bk"
      by (auto simp: val_ok_def)
    from V [of v st1] e(2) obtain bv where bv: "enc_out st1 st2 bv" "dec_val_ok rt h v st1 st2 bv"
      by (auto simp: val_ok_def)
    from Cons.IH [of st2] e(3) obtain bt where bt: "enc_out st2 st' bt" "dec_tab_ok rt h es st2 st' bt"
      by (auto simp: tab_ok_def)
    have "dec_tab_ok rt h (kv # es) st st' (bk @ bv @ bt)"
      unfolding kv using bk bv bt by (intro dec_tab_ok_Cons) (auto simp: enc_out_def)
    moreover have "enc_out st st' (bk @ bv @ bt)"
      using enc_out_trans [OF bk(1) enc_out_trans [OF bv(1) bt(1)]] .
    ultimately show "\<exists>bs. enc_out st st' bs \<and> dec_tab_ok rt h (kv # es) st st' bs" by blast
  qed
qed

section \<open>Values\<close>

lemma tag_byte [simp]: "unat (of_int (type_tag v) :: byte) = nat (type_tag v)"
  by (cases v) simp_all

lemma dec_val_ok_atom:
  assumes "\<not> is_object v" and "1 \<le> length bs"
    and "\<And>m mem base len ds. at mem (dp ds) bs \<Longrightarrow> base \<le> dp ds \<Longrightarrow> dp ds + length bs \<le> base + len \<Longrightarrow>
      mar_decode_value (Suc m) rt mem base len ds = Inr (v, ds\<lparr>dp := dp ds + length bs\<rparr>)"
  shows "dec_val_ok rt h v st (st\<lparr>ebuf := b\<rparr>) bs"
  unfolding dec_val_ok_def
proof (intro conjI allI impI)
  fix n mem base len ds
  assume w: "at mem (dp ds) bs" "base \<le> dp ds" "dp ds + length bs \<le> base + len" "2 * length bs \<le> n" "sync st ds"
  obtain m where "n = Suc m" using w(4) assms(2) by (cases n) auto
  with assms(1,3) w show "\<exists>w ds'. mar_decode_value n rt mem base len ds = Inr (w, ds') \<and> dp ds' = dp ds + length bs \<and>
     dec_ok h st (st\<lparr>ebuf := b\<rparr>) ds ds' {} \<and> ren (rho (st\<lparr>ebuf := b\<rparr>) ds') v w"
    by (simp add: ren_def dec_ok_refl)
qed (use assms(2) in simp)

lemma decode_nil:
  "at mem (dp ds) [0] \<Longrightarrow> base \<le> dp ds \<Longrightarrow> Suc (dp ds) \<le> base + len \<Longrightarrow>
   mar_decode_value (Suc m) rt mem base len ds = Inr (LNil, ds\<lparr>dp := Suc (dp ds)\<rparr>)"
  by (simp add: decode_value_step_def rd_incr_at [of mem ds "[0]"])

lemma decode_boolean:
  "at mem (dp ds) [1, if b then 1 else 0] \<Longrightarrow> base \<le> dp ds \<Longrightarrow> Suc (Suc (dp ds)) \<le> base + len \<Longrightarrow>
   mar_decode_value (Suc m) rt mem base len ds = Inr (LBoolean b, ds\<lparr>dp := Suc (Suc (dp ds))\<rparr>)"
  by (subst (asm) at_Cons)
    (simp add: decode_value_step_def rd_incr_at [of mem ds "[1]"] rd_incr_at [of mem "ds\<lparr>dp := Suc (dp ds)\<rparr>" "[if b then 1 else 0]"])

lemma unat_bytes: "of_nat (le_val (le_bytes 8 (unat (x :: 64 word)))) = x"
proof -
  have "unat x < 256 ^ 8" using unsigned_less [of x] by simp
  then show ?thesis by (simp add: le_val_le_bytes)
qed

lemma decode_number:
  "at mem (dp ds) (3 # le_bytes 8 (unat x)) \<Longrightarrow> base \<le> dp ds \<Longrightarrow> dp ds + 9 \<le> base + len \<Longrightarrow>
   mar_decode_value (Suc m) rt mem base len ds = Inr (LNumber x, ds\<lparr>dp := dp ds + 9\<rparr>)"
  by (subst (asm) at_Cons)
    (simp add: decode_value_step_def rd_incr_at [of mem ds "[3]"] unat_bytes
      rd_incr_at [of mem "ds\<lparr>dp := Suc (dp ds)\<rparr>" "le_bytes 8 (unat x)"] del: le_bytes.simps)

lemma decode_pointer:
  "at mem (dp ds) (2 # le_bytes 8 (unat x)) \<Longrightarrow> base \<le> dp ds \<Longrightarrow> dp ds + 9 \<le> base + len \<Longrightarrow>
   mar_decode_value (Suc m) rt mem base len ds = Inr (LLightUserdata x, ds\<lparr>dp := dp ds + 9\<rparr>)"
  by (subst (asm) at_Cons)
    (simp add: decode_value_step_def rd_incr_at [of mem ds "[2]"] unat_bytes
      rd_incr_at [of mem "ds\<lparr>dp := Suc (dp ds)\<rparr>" "le_bytes 8 (unat x)"] del: le_bytes.simps)

lemma decode_string:
  assumes "at mem (dp ds) (4 # le_bytes 4 (length x) @ x)" and "length x < 2 ^ 32" and "base \<le> dp ds"
    and "dp ds + (5 + length x) \<le> base + len"
  shows "mar_decode_value (Suc m) rt mem base len ds = Inr (LString x, ds\<lparr>dp := dp ds + (5 + length x)\<rparr>)"
proof -
  have a: "at mem (dp ds) [4]" "at mem (Suc (dp ds)) (le_bytes 4 (length x))" "at mem (dp ds + 5) x"
    using assms(1) by (simp_all add: at_Cons [of mem "dp ds" 4 "le_bytes 4 (length x) @ x"] add.commute del: le_bytes.simps)
  have 1: "rd_incr mem base len 1 ds = Inr ([4], ds\<lparr>dp := Suc (dp ds)\<rparr>)"
    using a assms by (subst rd_incr_at [of mem ds "[4]"]) auto
  have 2: "mar_next_len mem base len (ds\<lparr>dp := Suc (dp ds)\<rparr>) = Inr (length x, ds\<lparr>dp := dp ds + 5\<rparr>)"
    using a assms by (subst next_len_at [of mem "ds\<lparr>dp := Suc (dp ds)\<rparr>" "length x"]) auto
  have 3: "rd_incr mem base len (length x) (ds\<lparr>dp := dp ds + 5\<rparr>) = Inr (x, ds\<lparr>dp := dp ds + (5 + length x)\<rparr>)"
    using a assms by (subst rd_incr_at [of mem "ds\<lparr>dp := dp ds + 5\<rparr>" x]) (auto simp: add.assoc)
  from 1 2 3 show ?thesis by (simp add: decode_value_step_def)
qed

text \<open>An object the encoder has seen is written as a reference, and found again under its number.\<close>

lemma decode_reference:
  assumes "at mem (dp ds) (of_int (type_tag v) # 1 # le_bytes 4 r)" and "r < 2 ^ 31" and "base \<le> dp ds"
    and "dp ds + 6 \<le> base + len" and "is_object v"
  shows "mar_decode_value (Suc m) rt mem base len ds = Inr (seen_get r ds, ds\<lparr>dp := dp ds + 6\<rparr>)"
proof -
  have a: "at mem (dp ds) [of_int (type_tag v)]" "at mem (Suc (dp ds)) [1]" "at mem (dp ds + 2) (le_bytes 4 r)"
    using assms(1)
    by (simp_all add: at_Cons [of mem "dp ds" _ "1 # le_bytes 4 r"] at_Cons [of mem "Suc (dp ds)" 1 "le_bytes 4 r"]
        del: le_bytes.simps)
  have 1: "rd_incr mem base len 1 ds = Inr ([of_int (type_tag v)], ds\<lparr>dp := Suc (dp ds)\<rparr>)"
    using a assms by (subst rd_incr_at [of mem ds "[of_int (type_tag v)]"]) auto
  have 2: "rd_incr mem base len 1 (ds\<lparr>dp := Suc (dp ds)\<rparr>) = Inr ([1], ds\<lparr>dp := dp ds + 2\<rparr>)"
    using a assms by (subst rd_incr_at [of mem "ds\<lparr>dp := Suc (dp ds)\<rparr>" "[1]"]) auto
  have 3: "decode_ref mem base len (ds\<lparr>dp := dp ds + 2\<rparr>) = Inr (seen_get r ds, ds\<lparr>dp := dp ds + 6\<rparr>)"
    using a assms unfolding decode_ref_def
    by (subst next_len_at [of mem "ds\<lparr>dp := dp ds + 2\<rparr>" r]) (auto simp: seen_get_def)
  from assms(5) 1 2 3 show ?thesis
    by (cases v) (simp_all add: decode_value_step_def decode_table_value_def decode_function_value_def)
qed

lemma dec_val_ok_ref:
  assumes "eseen st v = Some r"
  shows "dec_val_ok rt h v st (st\<lparr>ebuf := b\<rparr>) (of_int (type_tag v) # 1 # le_bytes 4 r)"
  unfolding dec_val_ok_def
proof (intro conjI allI impI)
  let ?bs = "of_int (type_tag v) # 1 # le_bytes 4 r"
  fix n mem base len ds
  assume w: "at mem (dp ds) ?bs" "base \<le> dp ds" "dp ds + length ?bs \<le> base + len" "2 * length ?bs \<le> n"
    "eidx (st\<lparr>ebuf := b\<rparr>) < 2 ^ 31" and s: "sync st ds"
  obtain m where n: "n = Suc m" using w(4) by (cases n) auto
  have o: "is_object v" "r < eidx st" using s assms by (simp_all add: sync_def)
  then have r: "r < 2 ^ 31" using w(5) by simp
  obtain y where y: "rho st ds v = Some y" "dseen ds (int r) = Some y" using sync_rho [OF s assms] by blast
  have "mar_decode_value n rt mem base len ds = Inr (y, ds\<lparr>dp := dp ds + 6\<rparr>)"
    using decode_reference [OF w(1) r w(2) _ o(1), of len m rt] w(3) n y(2) r by (simp add: seen_get_def)
  then show "\<exists>w ds'. mar_decode_value n rt mem base len ds = Inr (w, ds') \<and> dp ds' = dp ds + length ?bs \<and>
     dec_ok h st (st\<lparr>ebuf := b\<rparr>) ds ds' {} \<and> ren (rho (st\<lparr>ebuf := b\<rparr>) ds') v w"
    using y(1) o(1) s by (simp add: ren_def dec_ok_refl)
qed simp

section \<open>Objects\<close>

lemma rho_mark:
  assumes s: "sync st ds" and v: "eseen st v = None"
  shows "rho (mark_seen v st) (seen_add w ds) = (rho st ds)(v \<mapsto> w)"
proof (rule ext)
  fix x
  have "i < eidx st" if "eseen st x = Some i" for i using s that by (simp add: sync_def)
  with s show "rho (mark_seen v st) (seen_add w ds) x = ((rho st ds)(v \<mapsto> w)) x"
    by (auto simp: rho_def mark_seen_def seen_add_def sync_def split: option.split)
qed

lemma seen_add_dheap: "seen_add w (ds\<lparr>dheap := hp\<rparr>) = (seen_add w ds)\<lparr>dheap := hp\<rparr>"
  by (simp add: seen_add_def)

text \<open>Numbering a new object: the decoder's object is a fresh one of the same kind.\<close>

lemma sync_mark:
  assumes s: "sync st ds" and v: "eseen st v = None" "is_object v" "type_tag w = type_tag v"
    and w: "addr_of w = nexta (dheap ds)" and hp: "heap_wf hp" "nexta hp = Suc (nexta (dheap ds))"
  shows "sync (mark_seen v st) (seen_add w (ds\<lparr>dheap := hp\<rparr>))"
proof -
  let ?\<rho> = "rho (mark_seen v st) (seen_add w (ds\<lparr>dheap := hp\<rparr>))"
  have r: "?\<rho> = (rho st ds)(v \<mapsto> w)"
    by (simp add: seen_add_dheap rho_mark [OF s v(1)])
  have "y \<noteq> w" if "rho st ds x = Some y" for x y using sync_addr [OF s that] w by auto
  then have "inj_on ?\<rho> (dom ?\<rho>)"
    using s unfolding r inj_on_def sync_def by (fastforce simp: dom_def split: if_splits)
  moreover have "i < eidx (mark_seen v st) \<and> is_object x \<and>
      (\<exists>y. dseen (seen_add w (ds\<lparr>dheap := hp\<rparr>)) (int i) = Some y \<and> type_tag y = type_tag x \<and> addr_of y < nexta hp)"
    if "eseen (mark_seen v st) x = Some i" for x i
    using that s v w hp by (fastforce simp: mark_seen_def seen_add_def sync_def split: if_splits)
  ultimately show ?thesis using s hp by (simp add: sync_def seen_add_def mark_seen_def)
qed

lemma dec_ok_mark:
  assumes s: "sync st ds" and v: "eseen st v = None" "is_object v" "type_tag w = type_tag v"
    and w: "addr_of w = nexta (dheap ds)" and hp: "nexta hp = Suc (nexta (dheap ds))" "kept (dheap ds) hp {}"
    and d: "dec_ok h (mark_seen v st) st' (seen_add w (ds\<lparr>dheap := hp\<rparr>)) ds' {addr_of w}"
    and c: "obj_copy (rho st' ds') h v (dheap ds') w"
  shows "dec_ok h st st' ds ds' {}" and "ren (rho st' ds') v w"
proof -
  have "rho (mark_seen v st) (seen_add w (ds\<lparr>dheap := hp\<rparr>)) = (rho st ds)(v \<mapsto> w)"
    by (simp add: seen_add_dheap rho_mark [OF s v(1)])
  then have le: "(rho st ds)(v \<mapsto> w) \<subseteq>\<^sub>m rho st' ds'" using d by (simp add: dec_ok_def)
  then have rv: "rho st' ds' v = Some w" by (simp add: map_le_def)
  have "rho st ds v = None" using v by (simp add: rho_def)
  have sub: "rho st ds \<subseteq>\<^sub>m rho st' ds'" unfolding map_le_def
  proof
    fix x assume x: "x \<in> dom (rho st ds)"
    then have "x \<noteq> v" using \<open>rho st ds v = None\<close> by auto
    have "x \<in> dom ((rho st ds)(v \<mapsto> w))" using x by simp
    then have "((rho st ds)(v \<mapsto> w)) x = rho st' ds' x" using le unfolding map_le_def by blast
    with \<open>x \<noteq> v\<close> show "rho st ds x = rho st' ds' x" by simp
  qed
  have k: "kept (dheap ds) (dheap ds') {}"
  proof -
    have "kept hp (dheap ds') {addr_of w}" using d by (simp add: dec_ok_def seen_add_def)
    from kept_trans [OF hp(2) this] w show ?thesis by simp
  qed
  have "nexta (dheap ds) \<le> addr_of y \<and> obj_copy (rho st' ds') h x (dheap ds') y"
    if x: "eseen st x = None" "rho st' ds' x = Some y" for x y
  proof (cases "x = v")
    case True
    with x rv w c show ?thesis by simp
  next
    case False
    then have "eseen (mark_seen v st) x = None" using x by (simp add: mark_seen_def)
    with d x(2) have "Suc (nexta (dheap ds)) \<le> addr_of y \<and> obj_copy (rho st' ds') h x (dheap ds') y"
      unfolding dec_ok_def by (simp add: seen_add_def hp(1))
    then show ?thesis by simp
  qed
  with d sub k show "dec_ok h st st' ds ds' {}" by (auto simp: dec_ok_def)
  show "ren (rho st' ds') v w" using rv v(2) by (simp add: ren_def)
qed

lemma heap_wf_new:
  assumes "heap_wf h" and "lua_newtable h = (a, h')"
  shows "heap_wf h'" and "nexta h' = Suc (nexta h)" and "a = nexta h" and "kept h h' X"
    and "tabs h' a = Some \<lparr>entries = [], t_persist = None\<rparr>"
proof -
  have h': "h' = h\<lparr>tabs := (tabs h)(nexta h \<mapsto> \<lparr>entries = [], t_persist = None\<rparr>), nexta := Suc (nexta h)\<rparr>"
    and a: "a = nexta h" using assms(2) by (auto simp: lua_newtable_def)
  show "heap_wf h'" "nexta h' = Suc (nexta h)" "a = nexta h" "kept h h' X"
    "tabs h' a = Some \<lparr>entries = [], t_persist = None\<rparr>"
    using assms(1) by (simp_all add: h' a heap_wf_def kept_def)
qed

lemma heap_wf_fun:
  assumes "heap_wf h" and "new_function f h = (a, h')"
  shows "heap_wf h'" and "nexta h' = Suc (nexta h)" and "a = nexta h" and "kept h h' X" and "funs h' a = Some f"
proof -
  have h': "h' = h\<lparr>funs := (funs h)(nexta h \<mapsto> f), nexta := Suc (nexta h)\<rparr>"
    and a: "a = nexta h" using assms(2) by (auto simp: new_function_def)
  show "heap_wf h'" "nexta h' = Suc (nexta h)" "a = nexta h" "kept h h' X" "funs h' a = Some f"
    using assms(1) by (simp_all add: h' a heap_wf_def kept_def)
qed

text \<open>A new table: its number is given before its entries are decoded.\<close>

lemma dec_val_ok_table:
  assumes v: "eseen st (LTable a) = None" and t: "tabs h a = Some t" and g: "good_entries (entries t)"
    and d: "dec_tab_ok rt h (entries t) (mark_seen (LTable a) st) st' bs" and l: "length bs < 2 ^ 32"
  shows "dec_val_ok rt h (LTable a) st st' (5 # 2 # le_bytes 4 (length bs) @ bs)"
  unfolding dec_val_ok_def
proof (intro conjI allI impI)
  let ?bs = "5 # 2 # le_bytes 4 (length bs) @ bs"
  fix n mem base len ds
  assume w: "at mem (dp ds) ?bs" "base \<le> dp ds" "dp ds + length ?bs \<le> base + len" "2 * length ?bs \<le> n"
    "eidx st' < 2 ^ 31" and s: "sync st ds"
  obtain m where n: "n = Suc m" using w(4) by (cases n) auto
  obtain b hp where nt: "lua_newtable (dheap ds) = (b, hp)" by force
  have hw: "heap_wf (dheap ds)" using s by (simp add: sync_def)
  note hp = heap_wf_new [OF hw nt]
  let ?ds = "seen_add (LTable b) (ds\<lparr>dp := dp ds + 6, dheap := hp\<rparr>)"
  have as: "at mem (dp ds) [5]" "at mem (Suc (dp ds)) [2]" "at mem (dp ds + 2) (le_bytes 4 (length bs))" "at mem (dp ds + 6) bs"
    using w(1) by (simp_all add: at_Cons [of mem "dp ds" 5 "2 # le_bytes 4 (length bs) @ bs"] add.commute
        at_Cons [of mem "Suc (dp ds)" 2 "le_bytes 4 (length bs) @ bs"] del: le_bytes.simps)
  have 1: "rd_incr mem base len 1 ds = Inr ([5], ds\<lparr>dp := Suc (dp ds)\<rparr>)"
    using as w by (subst rd_incr_at [of mem ds "[5]"]) auto
  have 2: "rd_incr mem base len 1 (ds\<lparr>dp := Suc (dp ds)\<rparr>) = Inr ([2], ds\<lparr>dp := dp ds + 2\<rparr>)"
    using as w by (subst rd_incr_at [of mem "ds\<lparr>dp := Suc (dp ds)\<rparr>" "[2]"]) auto
  have 3: "mar_next_len mem base len (ds\<lparr>dp := dp ds + 2\<rparr>) = Inr (length bs, ds\<lparr>dp := dp ds + 6\<rparr>)"
    using as w l by (subst next_len_at [of mem "ds\<lparr>dp := dp ds + 2\<rparr>" "length bs"]) auto
  have sm: "sync (mark_seen (LTable a) st) ?ds"
    using sync_mark [of st "ds\<lparr>dp := dp ds + 6\<rparr>" "LTable a" "LTable b" hp] s v hp by simp
  obtain ds2 es' where 4: "mar_decode_table m rt mem (dp ds + 6) (length bs) b ?ds = Inr ds2"
    "dec_ok h (mark_seen (LTable a) st) st' ?ds ds2 {b}"
    "tabs (dheap ds2) b = Some \<lparr>entries = es', t_persist = None\<rparr>" "list_all2 (ren_pair (rho st' ds2)) (entries t) es'"
    using dec_tab_okD [OF d, of mem ?ds "dp ds + 6" "length bs" m b "\<lparr>entries = [], t_persist = None\<rparr>" "[]"]
      as w n sm hp g by (auto simp: seen_add_def)
  have c: "obj_copy (rho st' ds2) h (LTable a) (dheap ds2) (LTable b)" using t 4(3,4) by simp
  have "dec_ok h st st' (ds\<lparr>dp := dp ds + 6\<rparr>) ds2 {}" and r: "ren (rho st' ds2) (LTable a) (LTable b)"
    using dec_ok_mark [of st "ds\<lparr>dp := dp ds + 6\<rparr>" "LTable a" "LTable b" hp h st' ds2] s v hp 4(2) c by simp_all
  then have ok: "dec_ok h st st' ds (ds2\<lparr>dp := dp ds + 6 + length bs\<rparr>) {}" by simp
  have "mar_decode_value n rt mem base len ds = Inr (LTable b, ds2\<lparr>dp := dp ds + 6 + length bs\<rparr>)"
    using 1 2 3 4(1) nt w(2,3) n by (simp add: decode_value_step_def decode_table_value_def mar_incr_ptr_def)
  with ok r show "\<exists>w ds'. mar_decode_value n rt mem base len ds = Inr (w, ds') \<and> dp ds' = dp ds + length ?bs \<and>
     dec_ok h st st' ds ds' {} \<and> ren (rho st' ds') (LTable a) w" by simp
qed simp

section \<open>Functions and their upvalues\<close>

lemma LInteger_key_eq:
  assumes "0 < i" "i < 2 ^ 53" "0 < j" "j < 2 ^ 53"
  shows "key_eq (LInteger i) (LInteger j) \<longleftrightarrow> i = j"
proof
  assume e: "key_eq (LInteger i) (LInteger j)"
  have z: "num_to_int (2 ^ 63) = 0"
    by (simp add: num_to_int_def num_trunc_def num_exp_def num_frac_def num_neg_def)
  have n: "num_to_int (int_to_num i) = i" "num_to_int (int_to_num j) = j" using assms by (simp_all add: num_to_int_of_int)
  from e have "int_to_num i = int_to_num j \<or> num_to_int (int_to_num i) = 0"
    using z by (auto simp: key_eq_def LInteger_def)
  then show "i = j"
  proof
    assume "int_to_num i = int_to_num j"
    then have "num_to_int (int_to_num i) = num_to_int (int_to_num j)" by (rule arg_cong)
    then show ?thesis unfolding n .
  next
    assume "num_to_int (int_to_num i) = 0"
    then show ?thesis unfolding n using assms(1) by simp
  qed
qed (simp add: key_eq_def)

lemma LInteger_key:
  assumes "0 < i" "i < 2 ^ 53"
  shows "LInteger i \<noteq> LNil" and "\<not> is_nan (LInteger i)"
proof -
  have "num_to_int (int_to_num i) = i" using assms by (simp add: num_to_int_of_int)
  then have "num_exp (int_to_num i) \<noteq> 2047" using assms by (auto simp: num_to_int_def num_trunc_def)
  then show "LInteger i \<noteq> LNil" "\<not> is_nan (LInteger i)" by (simp_all add: LInteger_def)
qed

definition up_keys :: "nat \<Rightarrow> lua_value list" where
  "up_keys n = map (\<lambda>i. LInteger (int i)) [1..<Suc n]"

lemma upvalue_entries_no_nil: "LNil \<notin> set us \<Longrightarrow> upvalue_entries us = zip (up_keys (length us)) us"
  unfolding upvalue_entries_def up_keys_def by (rule filter_True) (auto dest: set_zip_rightD)

lemma up_keys_nth [simp]: "i < n \<Longrightarrow> up_keys n ! i = LInteger (int (Suc i))" "length (up_keys n) = n"
  by (simp_all add: up_keys_def del: upt_Suc)

lemma good_upvalues:
  assumes "LNil \<notin> set us" and "length us \<le> 255"
  shows "good_entries (upvalue_entries us)"
proof -
  have "\<not> key_eq (LInteger (int (Suc i))) (LInteger (int (Suc j)))" if "i < j" "j < length us" for i j
    using LInteger_key_eq [of "int (Suc i)" "int (Suc j)"] that assms(2) by simp
  then have "sorted_wrt (\<lambda>p q. \<not> key_eq (fst p) (fst q)) (zip (up_keys (length us)) us)"
    by (simp add: sorted_wrt_iff_nth_less)
  moreover have "k \<noteq> LNil \<and> \<not> is_nan k \<and> v \<noteq> LNil" if kv: "(k, v) \<in> set (zip (up_keys (length us)) us)" for k v
  proof -
    from kv obtain i where "i < length us" "k = LInteger (int (Suc i))" "v \<in> set us"
      by (auto simp: in_set_zip)
    with LInteger_key [of "int (Suc i)"] assms show ?thesis by auto
  qed
  ultimately show ?thesis using assms(1) by (auto simp: good_entries_def upvalue_entries_no_nil)
qed

lemma rawget_nth:
  "sorted_wrt (\<lambda>p q. \<not> key_eq (fst p) (fst q)) es \<Longrightarrow> j < length es \<Longrightarrow> rawget_entries (fst (es ! j)) es = snd (es ! j)"
proof (induction es arbitrary: j)
  case Nil
  then show ?case by simp
next
  case (Cons e es)
  then show ?case by (cases j; cases e) (auto simp: key_eq_def)
qed

text \<open>The values the upvalue loop reads are the decoded upvalues, in order.\<close>

lemma decoded_upvalues:
  assumes s: "sync st ds" and us: "LNil \<notin> set us" "length us \<le> 255"
    and r: "list_all2 (ren_pair (rho st ds)) (upvalue_entries us) es" and b: "border_ok rt"
  shows "border rt es = length us"
    and "map (\<lambda>i. rawget_entries (LInteger (int i)) es) [1..<Suc (length us)] = map snd es"
    and "list_all2 (ren (rho st ds)) us (map snd es)"
proof -
  have l: "length es = length us" using r us by (simp add: upvalue_entries_no_nil list_all2_conv_all_nth)
  have e: "fst (es ! i) = LInteger (int (Suc i)) \<and> ren (rho st ds) (us ! i) (snd (es ! i))" if "i < length us" for i
    using r us that by (auto simp: upvalue_entries_no_nil list_all2_conv_all_nth ren_pair_def ren_def LInteger_def)
  then have f: "map fst es = map (\<lambda>i. LInteger (int i)) [1..<Suc (length us)]"
    using l by (intro nth_equalityI) (simp_all del: upt_Suc)
  have "snd (es ! i) \<noteq> LNil" if "i < length us" for i
    using e [OF that] sync_ren(2) [OF s] us(1) nth_mem [OF that] by metis
  then have "LNil \<notin> snd ` set es" using l by (force simp: in_set_conv_nth)
  then show "border rt es = length us" using b f unfolding border_ok_def by blast
  have "sorted_wrt (\<lambda>p q. \<not> key_eq (fst p) (fst q)) es"
    using e l us(2) LInteger_key_eq [of "int (Suc _)" "int (Suc _)"] by (auto simp: sorted_wrt_iff_nth_less)
  then have g: "rawget_entries (LInteger (int (Suc i))) es = snd (es ! i)" if "i < length us" for i
    using rawget_nth [of es i] e [OF that] l that by simp
  show "map (\<lambda>i. rawget_entries (LInteger (int i)) es) [1..<Suc (length us)] = map snd es"
    by (rule nth_equalityI) (use l g in \<open>simp_all del: upt_Suc of_nat_Suc\<close>)
  show "list_all2 (ren (rho st ds)) us (map snd es)" using e l by (simp add: list_all2_conv_all_nth)
qed

text \<open>A table allocated for the upvalues is not one of the copied objects.\<close>

lemma dec_ok_scratch:
  assumes s: "sync st ds" and nt: "lua_newtable (dheap ds) = (c, hp)"
    and d: "dec_ok h st st' (ds\<lparr>dheap := hp\<rparr>) ds' {c}"
  shows "dec_ok h st st' ds ds' {}"
proof -
  have hw: "heap_wf (dheap ds)" using s by (simp add: sync_def)
  note hp = heap_wf_new [OF hw nt]
  have "kept hp (dheap ds') {c}" using d by (simp add: dec_ok_def)
  from kept_trans [OF hp(4) [of "{}"] this] hp(3) have k: "kept (dheap ds) (dheap ds') {}" by simp
  have "nexta (dheap ds) \<le> addr_of y \<and> obj_copy (rho st' ds') h x (dheap ds') y"
    if "eseen st x = None" "rho st' ds' x = Some y" for x y
    using d that hp(2) unfolding dec_ok_def by fastforce
  with d k show ?thesis unfolding dec_ok_def by (metis rho_upd(3))
qed

lemma sync_newtable:
  assumes s: "sync st ds" and nt: "lua_newtable (dheap ds) = (c, hp)"
  shows "sync st (ds\<lparr>dheap := hp\<rparr>)"
proof -
  have hw: "heap_wf (dheap ds)" using s by (simp add: sync_def)
  note hp = heap_wf_new [OF hw nt]
  show ?thesis unfolding sync_def
  proof (intro conjI allI impI)
    fix x i assume x: "eseen st x = Some i"
    with s obtain y where "dseen ds (int i) = Some y" "type_tag y = type_tag x" "addr_of y < nexta (dheap ds)"
      by (auto simp: sync_def)
    with hp(2) show "\<exists>y. dseen (ds\<lparr>dheap := hp\<rparr>) (int i) = Some y \<and> type_tag y = type_tag x \<and>
        addr_of y < nexta (dheap (ds\<lparr>dheap := hp\<rparr>))" by (intro exI [of _ y]) simp
  qed (use s hp(1) in \<open>auto simp: sync_def\<close>)
qed

lemma dec_ok_set_function:
  assumes d: "dec_ok h st st' ds ds' {}" and b: "b < nexta (dheap ds)"
  shows "dec_ok h st st' ds (ds'\<lparr>dheap := dheap ds'\<lparr>funs := (funs (dheap ds'))(b \<mapsto> f)\<rparr>\<rparr>) {b}"
proof -
  let ?h = "dheap ds'\<lparr>funs := (funs (dheap ds'))(b \<mapsto> f)\<rparr>"
  have "b < nexta (dheap ds')" using d b by (simp add: dec_ok_def kept_def)
  then have "sync st' (ds'\<lparr>dheap := ?h\<rparr>)" using d by (auto simp: dec_ok_def sync_def heap_wf_def)
  moreover have "nexta (dheap ds) \<le> addr_of y \<and> obj_copy (rho st' ds') h x ?h y"
    if "eseen st x = None" "rho st' ds' x = Some y" for x y
  proof -
    have "nexta (dheap ds) \<le> addr_of y" "obj_copy (rho st' ds') h x (dheap ds') y"
      using d that unfolding dec_ok_def by blast+
    with b show ?thesis by (auto intro: obj_copy_mono)
  qed
  ultimately show ?thesis using d by (simp add: dec_ok_def kept_def)
qed

lemma dec_val_ok_function:
  assumes v: "eseen st (LFunction a) = None" and f: "funs h a = Some f"
    and us: "LNil \<notin> set (upvalues f)" "length (upvalues f) \<le> 255" "undump rt (chunk f) = Some (length (upvalues f))"
    and b: "border_ok rt"
    and d: "dec_tab_ok rt h (upvalue_entries (upvalues f)) (mark_seen (LFunction a) st) st' bs"
    and l: "length (chunk f) < 2 ^ 32" "length bs < 2 ^ 32"
  shows "dec_val_ok rt h (LFunction a) st st'
    (6 # 2 # le_bytes 4 (length (chunk f)) @ chunk f @ le_bytes 4 (length bs) @ bs)"
  unfolding dec_val_ok_def
proof (intro conjI allI impI)
  let ?code = "chunk f" let ?lc = "length (chunk f)"
  let ?bs = "6 # 2 # le_bytes 4 ?lc @ ?code @ le_bytes 4 (length bs) @ bs"
  fix n mem base len ds
  assume w: "at mem (dp ds) ?bs" "base \<le> dp ds" "dp ds + length ?bs \<le> base + len" "2 * length ?bs \<le> n"
    "eidx st' < 2 ^ 31" and s: "sync st ds"
  obtain m where n: "n = Suc m" using w(4) by (cases n) auto
  let ?f0 = "\<lparr>is_lua = True, chunk = ?code, upvalues = replicate (length (upvalues f)) LNil\<rparr>"
  obtain p hp where nf: "new_function ?f0 (dheap ds) = (p, hp)" by force
  have hw: "heap_wf (dheap ds)" using s by (simp add: sync_def)
  note hp = heap_wf_fun [OF hw nf]
  obtain c hc where nt: "lua_newtable hp = (c, hc)" by force
  note hc = heap_wf_new [OF hp(1) nt]
  let ?p6 = "dp ds + 6 + ?lc" and ?p10 = "dp ds + 10 + ?lc"
  have as: "at mem (dp ds) [6]" "at mem (Suc (dp ds)) [2]" "at mem (dp ds + 2) (le_bytes 4 ?lc)"
    "at mem (dp ds + 6) ?code" "at mem ?p6 (le_bytes 4 (length bs))" "at mem ?p10 bs"
    using w(1) by (simp_all add: at_Cons [of mem "dp ds" 6 "2 # _ @ _"] at_Cons [of mem "Suc (dp ds)" 2 "_ @ _"]
        ac_simps del: le_bytes.simps)
  let ?dsf = "seen_add (LFunction p) (ds\<lparr>dp := ?p6, dheap := hp\<rparr>)"
  let ?dst = "?dsf\<lparr>dp := ?p10, dheap := hc\<rparr>"
  have 1: "rd_incr mem base len 1 ds = Inr ([6], ds\<lparr>dp := Suc (dp ds)\<rparr>)"
    using as w by (subst rd_incr_at [of mem ds "[6]"]) auto
  have 2: "rd_incr mem base len 1 (ds\<lparr>dp := Suc (dp ds)\<rparr>) = Inr ([2], ds\<lparr>dp := dp ds + 2\<rparr>)"
    using as w by (subst rd_incr_at [of mem "ds\<lparr>dp := Suc (dp ds)\<rparr>" "[2]"]) auto
  have 3: "mar_next_len mem base len (ds\<lparr>dp := dp ds + 2\<rparr>) = Inr (?lc, ds\<lparr>dp := dp ds + 6\<rparr>)"
    using as w l by (subst next_len_at [of mem "ds\<lparr>dp := dp ds + 2\<rparr>" ?lc]) auto
  have 4: "rd_incr mem base len ?lc (ds\<lparr>dp := dp ds + 6\<rparr>) = Inr (?code, ds\<lparr>dp := ?p6\<rparr>)"
    using as w by (subst rd_incr_at [of mem "ds\<lparr>dp := dp ds + 6\<rparr>" ?code]) auto
  have 5: "lua_load rt ?code (dheap ds) = (LFunction p, hp)" using us(3) nf by (simp add: lua_load_def)
  have 6: "mar_next_len mem base len ?dsf = Inr (length bs, ?dsf\<lparr>dp := ?p10\<rparr>)"
    using as w l by (subst next_len_at [of mem ?dsf "length bs"]) (auto simp: seen_add_def)
  have sf: "sync (mark_seen (LFunction a) st) ?dsf"
    using sync_mark [of st "ds\<lparr>dp := ?p6\<rparr>" "LFunction a" "LFunction p" hp] s v hp by simp
  then have "sync (mark_seen (LFunction a) st) (?dsf\<lparr>dp := ?p10\<rparr>)" by simp
  moreover have "lua_newtable (dheap (?dsf\<lparr>dp := ?p10\<rparr>)) = (c, hc)" using nt by (simp add: seen_add_def)
  ultimately have st: "sync (mark_seen (LFunction a) st) ?dst" by (rule sync_newtable)
  have g: "good_entries ([] @ upvalue_entries (upvalues f))" using good_upvalues [OF us(1,2)] by simp
  have "\<exists>ds2 es'. mar_decode_table m rt mem ?p10 (length bs) c ?dst = Inr ds2 \<and>
    dec_ok h (mark_seen (LFunction a) st) st' ?dst ds2 {c} \<and>
    tabs (dheap ds2) c = Some (\<lparr>entries = [], t_persist = None\<rparr>\<lparr>entries := entries \<lparr>entries = [], t_persist = None\<rparr> @ es'\<rparr>) \<and>
    list_all2 (ren_pair (rho st' ds2)) (upvalue_entries (upvalues f)) es'"
    using as(6) w(4,5) n st hc g by (intro dec_tab_okD [OF d, of mem ?dst ?p10 "length bs" m c _ "[]"]) simp_all
  then obtain ds2 es' where 7: "mar_decode_table m rt mem ?p10 (length bs) c ?dst = Inr ds2"
    "dec_ok h (mark_seen (LFunction a) st) st' ?dst ds2 {c}" "entries_at (dheap ds2) c = es'"
    "list_all2 (ren_pair (rho st' ds2)) (upvalue_entries (upvalues f)) es'"
    by (auto simp: entries_at_def)
  have "?dst = (?dsf\<lparr>dheap := hc\<rparr>)\<lparr>dp := ?p10\<rparr>" by simp
  with 7(2) have "dec_ok h (mark_seen (LFunction a) st) st' (?dsf\<lparr>dheap := hc\<rparr>) ds2 {c}"
    by (simp only: dec_ok_upd)
  moreover have "lua_newtable (dheap ?dsf) = (c, hc)" using nt by (simp add: seen_add_def)
  ultimately have ok2: "dec_ok h (mark_seen (LFunction a) st) st' ?dsf ds2 {}"
    by (intro dec_ok_scratch [OF sf])
  then have s2: "sync st' ds2" and fp: "funs (dheap ds2) p = Some ?f0"
    using hp by (auto simp: dec_ok_def kept_def seen_add_def)
  note up = decoded_upvalues [OF s2 us(1,2) 7(4) b]
  let ?f1 = "?f0\<lparr>upvalues := map snd es'\<rparr>"
  let ?h3 = "dheap ds2\<lparr>funs := (funs (dheap ds2))(p \<mapsto> ?f1)\<rparr>"
  have 8: "set_upvalues rt (LFunction p) es' (dheap ds2) = Inr ?h3"
    using fp up(1,2) by (simp add: set_upvalues_def del: upt_Suc)
  have "p < nexta (dheap ?dsf)" using hp(2,3) by (simp add: seen_add_def)
  from dec_ok_set_function [OF ok2 this, of ?f1]
  have ok3: "dec_ok h (mark_seen (LFunction a) st) st' ?dsf (ds2\<lparr>dheap := ?h3\<rparr>) {p}" .
  have c: "obj_copy (rho st' ds2) h (LFunction a) ?h3 (LFunction p)" using f up(3) by simp
  have "dec_ok h st st' ds (ds2\<lparr>dheap := ?h3\<rparr>) {}" and r: "ren (rho st' ds2) (LFunction a) (LFunction p)"
    using dec_ok_mark [of st "ds\<lparr>dp := ?p6\<rparr>" "LFunction a" "LFunction p" hp h st' "ds2\<lparr>dheap := ?h3\<rparr>"] s v hp ok3 c
    by simp_all
  then have ok: "dec_ok h st st' ds (ds2\<lparr>dheap := ?h3, dp := ?p10 + length bs\<rparr>) {}"
    by (simp only: dec_ok_upd)
  have "mar_decode_value n rt mem base len ds = Inr (LFunction p, ds2\<lparr>dheap := ?h3, dp := ?p10 + length bs\<rparr>)"
    using 1 2 3 4 5 6 7(1,3) 8 nt w(2,3) n
    by (simp add: decode_value_step_def decode_function_value_def mar_incr_ptr_def seen_add_def)
  with ok r show "\<exists>w ds'. mar_decode_value n rt mem base len ds = Inr (w, ds') \<and> dp ds' = dp ds + length ?bs \<and>
     dec_ok h st st' ds ds' {} \<and> ren (rho st' ds') (LFunction a) w" by simp
qed simp

section \<open>The encoder\<close>

lemma put_out: "put bs st = Inr st' \<Longrightarrow> enc_out st st' bs \<and> (\<exists>b. st' = st\<lparr>ebuf := b\<rparr>) \<and> length bs < 2 ^ 32"
  by (erule put_InrE) (auto simp: enc_out_def)

lemma put_ref_out:
  assumes "put_ref r st = Inr st'"
  shows "enc_out st st' (1 # le_bytes 4 r) \<and> (\<exists>b. st' = st\<lparr>ebuf := b\<rparr>)"
proof -
  from assms obtain st1 where p: "put [1] st = Inr st1" "put (le_bytes 4 r) st1 = Inr st'"
    by (auto simp: put_ref_def rbind_Inr_iff)
  from put_out [OF p(1)] put_out [OF p(2)] enc_out_trans [of st st1 "[1]" st' "le_bytes 4 r"]
  show ?thesis by (auto simp del: le_bytes.simps)
qed

lemma put_block_out:
  assumes "put_block pre bs st = Inr st'"
  shows "enc_out st st' (pre @ le_bytes 4 (length bs) @ bs) \<and> (\<exists>b. st' = st\<lparr>ebuf := b\<rparr>) \<and> length bs < 2 ^ 32"
  using assms by (rule put_block_InrE) (simp add: enc_out_def, blast)

lemma dec_val_ok_start:
  "dec_val_ok rt h v (st\<lparr>ebuf := b\<rparr>) st' bs = dec_val_ok rt h v st st' bs"
  "dec_val_ok rt h v st (st'\<lparr>ebuf := b\<rparr>) bs = dec_val_ok rt h v st st' bs"
  by (simp_all add: dec_val_ok_def)

lemma dec_tab_ok_start:
  "dec_tab_ok rt h es (st\<lparr>ebuf := b\<rparr>) st' bs = dec_tab_ok rt h es st st' bs"
  by (simp add: dec_tab_ok_def)

lemma enc_out_tag:
  assumes "put [tag] st = Inr st1" and "enc_out st1 st' bs"
  shows "enc_out st st' (tag # bs)"
  using put_out [OF assms(1)] enc_out_trans [OF _ assms(2), of st "[tag]"] by simp

text \<open>A new table: the nested buffer holds the entries, and is copied behind its length.\<close>

lemma encode_table_ok:
  assumes P: "plain rt h" and T: "\<And>es st. tab_ok rt h nw d es st"
    and e: "encode_table_value (mar_encode_table d h nw) h a st = Inr st'"
  shows "\<exists>bs. enc_out st st' bs \<and> dec_val_ok rt h (LTable a) st st' (5 # bs)"
proof (cases "eseen st (LTable a)")
  case (Some r)
  with e have "put_ref r st = Inr st'" by (simp add: encode_table_value_def)
  from put_ref_out [OF this] dec_val_ok_ref [OF Some, of rt h] show ?thesis
    by (auto simp del: le_bytes.simps)
next
  case None
  with e P obtain t st2 where t: "tabs h a = Some t" "good_entries (entries t)" and
    e2: "mar_encode_table d h nw (entries t) ((mark_seen (LTable a) st)\<lparr>ebuf := buf_init\<rparr>) = Inr st2"
    "put_block [2] (bdata (ebuf st2)) (st2\<lparr>ebuf := ebuf st\<rparr>) = Inr st'"
    by (auto simp: encode_table_value_def plain_def rbind_Inr_iff split: option.splits)
  from T [of "entries t" "(mark_seen (LTable a) st)\<lparr>ebuf := buf_init\<rparr>"] e2(1) obtain bs where
    b: "enc_out ((mark_seen (LTable a) st)\<lparr>ebuf := buf_init\<rparr>) st2 bs" "dec_tab_ok rt h (entries t) (mark_seen (LTable a) st) st2 bs"
    by (auto simp: tab_ok_def dec_tab_ok_start)
  then have bd: "bdata (ebuf st2) = bs" "eidx st2 \<le> Suc (eidx st) + length bs" "eidx st \<le> eidx st2"
    by (auto simp: enc_out_def buf_init_def mark_seen_def)
  from put_block_out [OF e2(2)] bd obtain bf where
    o: "enc_out (st2\<lparr>ebuf := ebuf st\<rparr>) st' ([2] @ le_bytes 4 (length bs) @ bs)" "st' = st2\<lparr>ebuf := bf\<rparr>" "length bs < 2 ^ 32"
    by auto
  have "enc_out st st' (2 # le_bytes 4 (length bs) @ bs)" using o(1,2) bd by (simp add: enc_out_def)
  moreover have "dec_val_ok rt h (LTable a) st st' (5 # 2 # le_bytes 4 (length bs) @ bs)"
    using dec_val_ok_table [OF None t b(2) o(3)] by (simp add: o(2) dec_val_ok_start del: le_bytes.simps)
  ultimately show ?thesis by blast
qed

lemma encode_function_ok:
  assumes P: "plain rt h" "border_ok rt" and T: "\<And>es st. tab_ok rt h nw d es st"
    and e: "encode_function_value (mar_encode_table d h nw) h a st = Inr st'"
  shows "\<exists>bs. enc_out st st' bs \<and> dec_val_ok rt h (LFunction a) st st' (6 # bs)"
proof (cases "eseen st (LFunction a)")
  case (Some r)
  with e have "put_ref r st = Inr st'" by (simp add: encode_function_value_def)
  from put_ref_out [OF this] dec_val_ok_ref [OF Some, of rt h] show ?thesis
    by (auto simp del: le_bytes.simps)
next
  case None
  with e obtain f st1 st2 where f: "funs h a = Some f" "is_lua f" and
    e2: "put_block [2] (chunk f) (mark_seen (LFunction a) st) = Inr st1"
    "mar_encode_table d h nw (upvalue_entries (upvalues f)) (st1\<lparr>ebuf := buf_init\<rparr>) = Inr st2"
    "put_block [] (bdata (ebuf st2)) (st2\<lparr>ebuf := ebuf st1\<rparr>) = Inr st'"
    by (auto simp: encode_function_value_def rbind_Inr_iff split: option.splits if_splits)
  have us: "LNil \<notin> set (upvalues f)" "length (upvalues f) \<le> 255" "undump rt (chunk f) = Some (length (upvalues f))"
    using P(1) f unfolding plain_def by blast+
  from put_block_out [OF e2(1)] obtain b1 where
    o1: "enc_out (mark_seen (LFunction a) st) st1 ([2] @ le_bytes 4 (length (chunk f)) @ chunk f)"
    "st1 = (mark_seen (LFunction a) st)\<lparr>ebuf := b1\<rparr>" "length (chunk f) < 2 ^ 32" by auto
  from T [of "upvalue_entries (upvalues f)" "st1\<lparr>ebuf := buf_init\<rparr>"] e2(2) obtain bs where
    b: "enc_out (st1\<lparr>ebuf := buf_init\<rparr>) st2 bs"
    "dec_tab_ok rt h (upvalue_entries (upvalues f)) (mark_seen (LFunction a) st) st2 bs"
    by (auto simp: tab_ok_def dec_tab_ok_start o1(2))
  then have bd: "bdata (ebuf st2) = bs" "eidx st2 \<le> Suc (eidx st) + length bs" "eidx st \<le> eidx st2"
    by (auto simp: enc_out_def buf_init_def mark_seen_def o1(2))
  from put_block_out [OF e2(3)] bd obtain bf where
    o: "enc_out (st2\<lparr>ebuf := ebuf st1\<rparr>) st' (le_bytes 4 (length bs) @ bs)" "st' = st2\<lparr>ebuf := bf\<rparr>" "length bs < 2 ^ 32"
    by auto
  have "enc_out st st' (2 # le_bytes 4 (length (chunk f)) @ chunk f @ le_bytes 4 (length bs) @ bs)"
    using o(1,2) o1(1) bd by (simp add: enc_out_def mark_seen_def)
  moreover have "dec_val_ok rt h (LFunction a) st st'
      (6 # 2 # le_bytes 4 (length (chunk f)) @ chunk f @ le_bytes 4 (length bs) @ bs)"
    using dec_val_ok_function [OF None f(1) us P(2) b(2) o1(3) o(3)]
    by (simp add: o(2) dec_val_ok_start del: le_bytes.simps)
  ultimately show ?thesis by blast
qed

lemma dec_val_ok_put:
  assumes "put [of_int (type_tag v)] st = Inr st1" and "put bs st1 = Inr st'" and "\<not> is_object v"
    and "\<And>m mem base len ds. at mem (dp ds) (of_int (type_tag v) # bs) \<Longrightarrow> base \<le> dp ds \<Longrightarrow>
      dp ds + length (of_int (type_tag v) # bs) \<le> base + len \<Longrightarrow> mar_decode_value (Suc m) rt mem base len ds
        = Inr (v, ds\<lparr>dp := dp ds + length (of_int (type_tag v) # bs)\<rparr>)"
  shows "\<exists>bs. enc_out st st' bs \<and> dec_val_ok rt h v st st' bs"
proof (intro exI [of _ "of_int (type_tag v) # bs"] conjI)
  show "enc_out st st' (of_int (type_tag v) # bs)"
    using enc_out_tag [OF assms(1)] put_out [OF assms(2)] by simp
  from put_out [OF assms(1)] put_out [OF assms(2)] obtain b where "st' = st\<lparr>ebuf := b\<rparr>" by auto
  with dec_val_ok_atom [OF assms(3) _ assms(4)] show "dec_val_ok rt h v st st' (of_int (type_tag v) # bs)" by simp
qed

lemma val_ok_Suc:
  assumes P: "plain rt h" "border_ok rt" and T: "\<And>es st. tab_ok rt h nw d es st"
  shows "val_ok rt h nw (Suc d) v st"
  unfolding val_ok_def
proof (intro allI impI)
  fix st' assume "mar_encode_value (Suc d) h nw v st = Inr st'"
  then obtain st1 where e1: "put [of_int (type_tag v)] st = Inr st1" and
    e: "(case v of
       LBoolean b \<Rightarrow> put [if b then 1 else 0] st1
     | LString s \<Rightarrow> rbind (put (le_bytes 4 (length s)) st1) (put s)
     | LNumber n \<Rightarrow> put (le_bytes 8 (unat n)) st1
     | LLightUserdata p \<Rightarrow>
         if nw then Inl (LuaError ''light userdata not permitted'') else put (le_bytes 8 (unat p)) st1
     | LTable a \<Rightarrow> encode_table_value (mar_encode_table d h nw) h a st1
     | LFunction a \<Rightarrow> encode_function_value (mar_encode_table d h nw) h a st1
     | LUserdata a \<Rightarrow> encode_userdata_value (mar_encode_table d h nw) h nw a st1
     | LNil \<Rightarrow> Inr st1
     | LThread _ \<Rightarrow> Inl (LuaError ''invalid value type'')) = Inr st'"
    by (auto simp: rbind_Inr_iff)
  from put_out [OF e1] obtain b1 where st1: "st1 = st\<lparr>ebuf := b1\<rparr>" by auto
  have tagged: "\<exists>bs. enc_out st st' bs \<and> dec_val_ok rt h v st st' bs"
    if "\<exists>bs. enc_out st1 st' bs \<and> dec_val_ok rt h v st1 st' (of_int (type_tag v) # bs)"
    using that enc_out_tag [OF e1] by (auto simp: st1 dec_val_ok_start)
  show "\<exists>bs. enc_out st st' bs \<and> dec_val_ok rt h v st st' bs"
  proof (cases v)
    case LNil
    then have "st' = st1" using e by simp
    then have "dec_val_ok rt h v st st' [0]" unfolding st1 LNil \<open>st' = st1\<close>
      by (intro dec_val_ok_atom) (simp_all add: decode_nil del: mar_decode_value.simps)
    then show ?thesis using put_out [OF e1] LNil \<open>st' = st1\<close> by auto
  next
    case (LBoolean b)
    with e have "put [if b then 1 else 0] st1 = Inr st'" by simp
    then show ?thesis
      by (rule dec_val_ok_put [OF e1]) (simp_all add: LBoolean decode_boolean del: le_bytes.simps mar_decode_value.simps)
  next
    case (LLightUserdata x)
    with e have "put (le_bytes 8 (unat x)) st1 = Inr st'" by (simp split: if_splits)
    then show ?thesis
      by (rule dec_val_ok_put [OF e1]) (simp_all add: LLightUserdata decode_pointer del: le_bytes.simps mar_decode_value.simps)
  next
    case (LNumber x)
    with e have "put (le_bytes 8 (unat x)) st1 = Inr st'" by simp
    then show ?thesis
      by (rule dec_val_ok_put [OF e1]) (simp_all add: LNumber decode_number del: le_bytes.simps mar_decode_value.simps)
  next
    case (LString x)
    with e obtain st2 where p: "put (le_bytes 4 (length x)) st1 = Inr st2" "put x st2 = Inr st'"
      by (auto simp: rbind_Inr_iff)
    have l: "length x < 2 ^ 32" and o: "enc_out st1 st' (le_bytes 4 (length x) @ x)" and "\<exists>b. st' = st1\<lparr>ebuf := b\<rparr>"
      using put_out [OF p(1)] put_out [OF p(2)] enc_out_trans [of st1 st2 _ st'] by auto
    then obtain b where "st' = st\<lparr>ebuf := b\<rparr>" by (auto simp: st1)
    then have "dec_val_ok rt h v st st' (4 # le_bytes 4 (length x) @ x)"
      unfolding LString using l
      by (auto intro!: dec_val_ok_atom simp: decode_string simp del: le_bytes.simps mar_decode_value.simps)
    with enc_out_tag [OF e1 o] LString show ?thesis by auto
  next
    case (LTable a)
    with e encode_table_ok [OF P(1) T, of a st1 st'] show ?thesis by (intro tagged) simp
  next
    case (LFunction a)
    with e encode_function_ok [OF P T, of a st1 st'] show ?thesis by (intro tagged) simp
  next
    case (LUserdata a)
    show ?thesis
    proof (cases "eseen st (LUserdata a)")
      case None
      with e P(1) LUserdata show ?thesis
        by (auto simp: encode_userdata_value_def plain_def st1 split: option.splits if_splits)
    next
      case (Some r)
      with e LUserdata have "put_ref r st1 = Inr st'" by (simp add: encode_userdata_value_def st1)
      from put_ref_out [OF this] dec_val_ok_ref [of st1 v r rt h] Some LUserdata show ?thesis
        by (intro tagged) (auto simp: st1 simp del: le_bytes.simps)
    qed
  next
    case (LThread a)
    with e show ?thesis by simp
  qed
qed

lemma val_ok_all:
  assumes "plain rt h" "border_ok rt"
  shows "val_ok rt h nw d v st"
proof (induction d arbitrary: v st)
  case 0
  show ?case by (simp add: val_ok_def)
next
  case (Suc d)
  show ?case by (rule val_ok_Suc [OF assms tab_ok_from_val]) (rule Suc.IH)
qed

lemma decode_encode_copy:
  assumes "plain rt h" and "border_ok rt" and "mar_encode d h [] nowrap v = Inr s" and "length s < 2 ^ 31"
    and "heap_wf h2" and "2 * length s \<le> n"
  shows "\<exists>w h2'. mar_decode n rt [] s h2 = Inr (w, h2') \<and> copy h v h2' w \<and> kept h2 h2' {} \<and> heap_wf h2'"
proof -
  let ?st0 = "\<lparr>ebuf = buf_init, eseen = seen_init [], eidx = Suc 0\<rparr>"
  from assms(3) obtain st1 st2 where e: "put [MAR_MAGIC] ?st0 = Inr st1"
    "mar_encode_value d h nowrap v st1 = Inr st2" "s = bdata (ebuf st2)"
    by (auto simp: mar_encode_def rbind_Inr_iff)
  from put_out [OF e(1)] obtain b1 where st1: "st1 = ?st0\<lparr>ebuf := b1\<rparr>" "bdata b1 = [MAR_MAGIC]"
    by (auto simp: enc_out_def buf_init_def)
  from val_ok_all [OF assms(1,2), of nowrap d v st1] e(2) obtain bs where
    b: "enc_out st1 st2 bs" "dec_val_ok rt h v st1 st2 bs" by (auto simp: val_ok_def)
  have s: "s = MAR_MAGIC # bs" using b(1) e(3) st1 by (simp add: enc_out_def)
  let ?ds = "\<lparr>dp = 1, dheap = h2, dseen = dseen_init [], didx = Suc 0\<rparr>"
  have r0: "rho st1 ?ds = Map.empty" by (simp add: st1 rho_def seen_init_def fun_eq_iff)
  have sy: "sync st1 ?ds" unfolding sync_def r0 using assms(5) by (simp add: st1 seen_init_def)
  have "eidx st2 < 2 ^ 31" using b(1) assms(4) st1 s by (simp add: enc_out_def)
  then have "\<exists>w ds'. mar_decode_value n rt (s @ [0]) 1 (length s - 1) ?ds = Inr (w, ds') \<and>
     dp ds' = dp ?ds + length bs \<and> dec_ok h st1 st2 ?ds ds' {} \<and> ren (rho st2 ds') v w"
    using assms(6) s sy by (intro dec_val_okD [OF b(2)]) (simp_all add: at_def)
  then obtain w ds' where d: "mar_decode_value n rt (s @ [0]) 1 (length s - 1) ?ds = Inr (w, ds')"
    "dec_ok h st1 st2 ?ds ds' {}" "ren (rho st2 ds') v w" by blast
  have "\<forall>x y. rho st2 ds' x = Some y \<longrightarrow> obj_copy (rho st2 ds') h x (dheap ds') y"
    using d(2) unfolding dec_ok_def by (simp add: st1 seen_init_def)
  moreover have "inj_on (rho st2 ds') (dom (rho st2 ds'))" using d(2) by (simp add: dec_ok_def sync_def)
  ultimately have "copy h v (dheap ds') w" using d(3) unfolding copy_def by blast
  moreover have "kept h2 (dheap ds') {}" "heap_wf (dheap ds')" using d(2) by (simp_all add: dec_ok_def sync_def)
  moreover have "mar_decode n rt [] s h2 = Inr (w, dheap ds')" using d(1) s by (simp add: mar_decode_def)
  ultimately show ?thesis by blast
qed

text \<open>Objects of a copy are allocated, so a copy survives whatever only adds objects.\<close>

lemma obj_copy_allocated:
  "obj_copy \<rho> h x h' y \<Longrightarrow> heap_wf h' \<Longrightarrow> addr_of y < nexta h'"
proof (induction \<rho> h x h' y rule: obj_copy.induct)
  case (1 \<rho> h a h' b)
  then have "tabs h' b \<noteq> None" by auto
  with 1 show ?case by (metis addr_of.simps(1) heap_wf_def not_le)
next
  case (2 \<rho> h a h' b)
  then have "funs h' b \<noteq> None" by auto
  with 2 show ?case by (metis addr_of.simps(2) heap_wf_def not_le)
qed simp_all

lemma copy_kept:
  assumes c: "copy h v h' w" and wf: "heap_wf h'" and k: "kept h' h'' {}"
  shows "copy h v h'' w"
proof -
  from c obtain \<rho> where r: "inj_on \<rho> (dom \<rho>)" "ren \<rho> v w" "\<forall>x y. \<rho> x = Some y \<longrightarrow> obj_copy \<rho> h x h' y"
    by (auto simp: copy_def)
  have "obj_copy \<rho> h x h'' y" if "\<rho> x = Some y" for x y
  proof -
    have o: "obj_copy \<rho> h x h' y" using r(3) that by blast
    then have "addr_of y < nexta h'" using wf by (rule obj_copy_allocated)
    with o k show ?thesis by (auto simp: kept_def intro: obj_copy_mono)
  qed
  with r show ?thesis by (auto simp: copy_def)
qed


end
