(* ===== verification/Leda_Marshal_Total.thy ===== *)
theory Leda_Marshal_Total
  imports Leda_Marshal_Roundtrip
begin

text \<open>
  Termination and bounds of the marshaller: the encoder's depth is bounded by the
  number of objects, cyclic structures included; the decoder ends on every input;
  what it does on malformed input; and the two hooks for which the numbering of
  encoder and decoder differ.
\<close>

section \<open>The encoder's depth\<close>

definition objs :: "lua_heap \<Rightarrow> lua_value set" where
  "objs h = LTable ` dom (tabs h) \<union> LFunction ` dom (funs h)"

definition unseen :: "lua_heap \<Rightarrow> enc_state \<Rightarrow> nat" where
  "unseen h st = card (objs h - dom (eseen st))"

lemma put_not_overflow: "put bs st \<noteq> Inl StackOverflow"
  by (simp add: put_def buf_write_def Let_def)

lemma put_block_not_overflow: "put_block pre bs st \<noteq> Inl StackOverflow"
  unfolding put_block_def rbind_def using put_not_overflow by (auto split: sum.splits)

lemma put_ref_not_overflow: "put_ref r st \<noteq> Inl StackOverflow"
  unfolding put_ref_def rbind_def using put_not_overflow by (auto split: sum.splits)

lemma rbind_Inl_iff: "rbind m f = Inl e \<longleftrightarrow> m = Inl e \<or> (\<exists>x. m = Inr x \<and> f x = Inl e)"
  by (cases m) auto

definition grows :: "enc_state \<Rightarrow> enc_state \<Rightarrow> bool" where
  "grows st st' \<longleftrightarrow> dom (eseen st) \<subseteq> dom (eseen st')"

lemma grows_trans: "grows st st1 \<Longrightarrow> grows st1 st2 \<Longrightarrow> grows st st2"
  by (auto simp: grows_def)

lemma grows_upd [simp]:
  "grows st (st'\<lparr>ebuf := b\<rparr>) = grows st st'" "grows (st\<lparr>ebuf := b\<rparr>) st' = grows st st'" "grows st st"
  "unseen h (st\<lparr>ebuf := b\<rparr>) = unseen h st"
  by (simp_all add: grows_def unseen_def)

lemma grows_mark: "grows (mark_seen v st) st' \<Longrightarrow> grows st st'"
  by (auto simp: grows_def mark_seen_def)

lemma put_grows: "put bs st = Inr st' \<Longrightarrow> grows st st' \<and> unseen h st' = unseen h st"
  by (auto elim!: put_InrE)

lemma put_ref_grows: "put_ref r st = Inr st' \<Longrightarrow> grows st st'"
  by (drule put_ref_out) auto

lemma put_block_grows: "put_block pre bs st = Inr st' \<Longrightarrow> grows st st' \<and> unseen h st' = unseen h st"
  by (drule put_block_out) auto

lemma unseen_mono: "finite (objs h) \<Longrightarrow> grows st st' \<Longrightarrow> unseen h st' \<le> unseen h st"
  unfolding unseen_def grows_def by (intro card_mono) auto

lemma unseen_mark:
  assumes "finite (objs h)" and "v \<in> objs h" and "eseen st v = None"
  shows "unseen h (mark_seen v st) < unseen h st"
  unfolding unseen_def using assms by (intro psubset_card_mono) (auto simp: mark_seen_def)

text \<open>Deep enough for the objects not seen yet, a table of entries never exhausts the stack.\<close>

definition deep :: "lua_heap \<Rightarrow> ((lua_value \<times> lua_value) list \<Rightarrow> enc_state \<Rightarrow> enc_state result) \<Rightarrow> nat \<Rightarrow> bool" where
  "deep h enc d \<longleftrightarrow> (\<forall>es st. (unseen h st < d \<longrightarrow> enc es st \<noteq> Inl StackOverflow) \<and>
     (\<forall>st'. enc es st = Inr st' \<longrightarrow> grows st st'))"

lemma table_value_deep:
  assumes P: "plain rt h" "finite (objs h)" and D: "deep h enc d"
  shows "unseen h st < Suc d \<Longrightarrow> encode_table_value enc h a st \<noteq> Inl StackOverflow"
    and "encode_table_value enc h a st = Inr st' \<Longrightarrow> grows st st'"
proof -
  show "encode_table_value enc h a st \<noteq> Inl StackOverflow" if u: "unseen h st < Suc d"
  proof
    assume e: "encode_table_value enc h a st = Inl StackOverflow"
    then obtain t where t: "tabs h a = Some t" "eseen st (LTable a) = None"
      "enc (entries t) ((mark_seen (LTable a) st)\<lparr>ebuf := buf_init\<rparr>) = Inl StackOverflow"
      using P(1) put_ref_not_overflow put_block_not_overflow
      by (auto simp: encode_table_value_def plain_def rbind_Inl_iff split: option.splits)
    have "unseen h (mark_seen (LTable a) st) < unseen h st"
      using t by (intro unseen_mark [OF P(2)]) (auto simp: objs_def)
    then have "unseen h ((mark_seen (LTable a) st)\<lparr>ebuf := buf_init\<rparr>) < d" using u by simp
    with D t(3) show False unfolding deep_def by blast
  qed
  show "grows st st'" if e: "encode_table_value enc h a st = Inr st'"
  proof (cases "eseen st (LTable a)")
    case (Some r)
    with e put_ref_grows show ?thesis by (simp add: encode_table_value_def)
  next
    case None
    with e P(1) obtain t st1 where "tabs h a = Some t" "enc (entries t) ((mark_seen (LTable a) st)\<lparr>ebuf := buf_init\<rparr>) = Inr st1"
      "put_block [2] (bdata (ebuf st1)) (st1\<lparr>ebuf := ebuf st\<rparr>) = Inr st'"
      by (auto simp: encode_table_value_def plain_def rbind_Inr_iff split: option.splits)
    then have "grows (mark_seen (LTable a) st) st1" "grows st1 st'"
      using D put_block_grows [of "[2]"] unfolding deep_def by (metis grows_upd(2), metis grows_upd(2))
    then show ?thesis using grows_mark grows_trans by blast
  qed
qed

lemma function_value_deep:
  assumes P: "finite (objs h)" and D: "deep h enc d"
  shows "unseen h st < Suc d \<Longrightarrow> encode_function_value enc h a st \<noteq> Inl StackOverflow"
    and "encode_function_value enc h a st = Inr st' \<Longrightarrow> grows st st'"
proof -
  show "encode_function_value enc h a st \<noteq> Inl StackOverflow" if u: "unseen h st < Suc d"
  proof
    assume e: "encode_function_value enc h a st = Inl StackOverflow"
    then obtain f st1 where t: "funs h a = Some f" "eseen st (LFunction a) = None"
      "put_block [2] (chunk f) (mark_seen (LFunction a) st) = Inr st1"
      "enc (upvalue_entries (upvalues f)) (st1\<lparr>ebuf := buf_init\<rparr>) = Inl StackOverflow"
      using put_ref_not_overflow put_block_not_overflow
      by (auto simp: encode_function_value_def rbind_Inl_iff split: option.splits if_splits)
    have "unseen h (mark_seen (LFunction a) st) < unseen h st"
      using t by (intro unseen_mark [OF P]) (auto simp: objs_def)
    then have "unseen h (st1\<lparr>ebuf := buf_init\<rparr>) < d" using u put_block_grows [OF t(3), of h] by simp
    with D t(4) show False unfolding deep_def by blast
  qed
  show "grows st st'" if e: "encode_function_value enc h a st = Inr st'"
  proof (cases "eseen st (LFunction a)")
    case (Some r)
    with e put_ref_grows show ?thesis by (simp add: encode_function_value_def)
  next
    case None
    with e obtain f st1 st2 where "funs h a = Some f" "put_block [2] (chunk f) (mark_seen (LFunction a) st) = Inr st1"
      "enc (upvalue_entries (upvalues f)) (st1\<lparr>ebuf := buf_init\<rparr>) = Inr st2"
      "put_block [] (bdata (ebuf st2)) (st2\<lparr>ebuf := ebuf st1\<rparr>) = Inr st'"
      by (auto simp: encode_function_value_def rbind_Inr_iff split: option.splits if_splits)
    then have "grows (mark_seen (LFunction a) st) st1" "grows st1 st2" "grows st2 st'"
      using D put_block_grows unfolding deep_def by (metis, metis grows_upd(2), metis grows_upd(2))
    then show ?thesis using grows_mark grows_trans by blast
  qed
qed

lemma userdata_value_deep:
  assumes P: "plain rt h"
  shows "encode_userdata_value enc h nw a st \<noteq> Inl StackOverflow"
    and "encode_userdata_value enc h nw a st = Inr st' \<Longrightarrow> grows st st'"
  using P put_ref_not_overflow put_ref_grows
  by (auto simp: encode_userdata_value_def plain_def split: option.splits if_splits)

lemma encode_value_deep:
  assumes P: "plain rt h" "finite (objs h)" and D: "deep h (mar_encode_table d h nw) d"
  shows "unseen h st < Suc d \<Longrightarrow> mar_encode_value (Suc d) h nw v st \<noteq> Inl StackOverflow"
    and "mar_encode_value (Suc d) h nw v st = Inr st' \<Longrightarrow> grows st st'"
proof -
  show "mar_encode_value (Suc d) h nw v st \<noteq> Inl StackOverflow" if u: "unseen h st < Suc d"
  proof
    assume e: "mar_encode_value (Suc d) h nw v st = Inl StackOverflow"
    then obtain st1 where p: "put [of_int (type_tag v)] st = Inr st1"
      using put_not_overflow by (auto simp: rbind_Inl_iff)
    then have "unseen h st1 < Suc d" using put_grows [OF p, of h] u by simp
    with e p show False
      using put_not_overflow table_value_deep(1) [OF P D] function_value_deep(1) [OF P(2) D] userdata_value_deep(1) [OF P(1)]
      by (cases v) (auto simp: rbind_Inl_iff split: if_splits)
  qed
  show "grows st st'" if e: "mar_encode_value (Suc d) h nw v st = Inr st'"
  proof -
    from e obtain st1 where p: "put [of_int (type_tag v)] st = Inr st1" by (auto simp: rbind_Inr_iff)
    have "grows st1 st'"
    proof (cases v)
      case (LString x)
      with e p obtain st2 where "put (le_bytes 4 (length x)) st1 = Inr st2" "put x st2 = Inr st'"
        by (auto simp: rbind_Inr_iff)
      then show ?thesis using put_grows grows_trans by blast
    next
      case (LTable a)
      with e p show ?thesis by (auto intro: table_value_deep(2) [OF P D])
    next
      case (LFunction a)
      with e p show ?thesis by (auto intro: function_value_deep(2) [OF P(2) D])
    next
      case (LUserdata a)
      with e p show ?thesis by (auto intro: userdata_value_deep(2) [OF P(1)])
    qed (use e p put_grows [of _ st1 st' h] in \<open>auto split: if_splits simp del: le_bytes.simps\<close>)
    with put_grows [OF p, of h] show ?thesis using grows_trans by blast
  qed
qed

lemma encode_deep:
  assumes P: "plain rt h" "finite (objs h)"
  shows "deep h (mar_encode_table d h nw) d"
proof (induction d)
  case 0
  have "grows st st'" if "mar_encode_table 0 h nw es st = Inr st'" for es st st'
    using that by (cases es) auto
  then show ?case by (simp add: deep_def)
next
  case (Suc d)
  note V = encode_value_deep [OF P Suc.IH]
  have "(unseen h st < Suc d \<longrightarrow> mar_encode_table (Suc d) h nw es st \<noteq> Inl StackOverflow) \<and>
     (\<forall>st'. mar_encode_table (Suc d) h nw es st = Inr st' \<longrightarrow> grows st st')" for es st
  proof (induction es arbitrary: st)
    case Nil
    show ?case by simp
  next
    case (Cons kv es)
    obtain k v where kv: "kv = (k, v)" by force
    have "grows st st'" if e: "mar_encode_table (Suc d) h nw (kv # es) st = Inr st'" for st'
    proof -
      from e obtain st1 st2 where "mar_encode_value (Suc d) h nw k st = Inr st1"
        "mar_encode_value (Suc d) h nw v st1 = Inr st2" "mar_encode_table (Suc d) h nw es st2 = Inr st'"
        by (auto simp: kv rbind_Inr_iff simp del: mar_encode_value.simps)
      then show ?thesis using V(2) Cons.IH grows_trans by meson
    qed
    moreover have False if u: "unseen h st < Suc d" and e: "mar_encode_table (Suc d) h nw (kv # es) st = Inl StackOverflow"
    proof -
      have k: "mar_encode_value (Suc d) h nw k st \<noteq> Inl StackOverflow" by (rule V(1) [OF u])
      with e obtain st1 where 1: "mar_encode_value (Suc d) h nw k st = Inr st1"
        and e1: "rbind (mar_encode_value (Suc d) h nw v st1) (mar_encode_table (Suc d) h nw es) = Inl StackOverflow"
        by (auto simp: kv rbind_Inl_iff simp del: mar_encode_value.simps)
      have u1: "unseen h st1 < Suc d" using unseen_mono [OF P(2) V(2) [OF 1]] u by simp
      from e1 V(1) [OF u1, of v] obtain st2 where 2: "mar_encode_value (Suc d) h nw v st1 = Inr st2"
        and e2: "mar_encode_table (Suc d) h nw es st2 = Inl StackOverflow"
        by (auto simp: rbind_Inl_iff simp del: mar_encode_value.simps)
      have "unseen h st2 < Suc d" using unseen_mono [OF P(2) V(2) [OF 2]] u1 by simp
      with Cons.IH [of st2] e2 show False by blast
    qed
    ultimately show ?case by blast
  qed
  then show ?case unfolding deep_def by blast
qed


section \<open>The decoder on any input\<close>

text \<open>
  A step that does not exhaust the stack, and one that also leaves the pointer at
  or behind position \<open>q\<close>; the rules follow the structure of the decoder.
\<close>

definition nofl :: "'a result \<Rightarrow> bool" where
  "nofl r \<longleftrightarrow> r \<noteq> Inl StackOverflow"

definition fwd :: "nat \<Rightarrow> ('a \<times> dec_state) result \<Rightarrow> bool" where
  "fwd q r \<longleftrightarrow> nofl r \<and> (\<forall>x ds. r = Inr (x, ds) \<longrightarrow> q \<le> dp ds)"

named_theorems fwd_rules

lemma fwd_Inr [fwd_rules]: "q \<le> dp ds \<Longrightarrow> fwd q (Inr (x, ds))"
  by (simp add: fwd_def nofl_def)

lemma fwd_error [fwd_rules]: "fwd q (Inl (LuaError e))"
  by (simp add: fwd_def nofl_def)

lemma fwd_if [fwd_rules]: "(b \<Longrightarrow> fwd q r) \<Longrightarrow> (\<not> b \<Longrightarrow> fwd q r') \<Longrightarrow> fwd q (if b then r else r')"
  by simp

lemma fwd_bind [fwd_rules]:
  "fwd q m \<Longrightarrow> (\<And>x ds. q \<le> dp ds \<Longrightarrow> fwd q (f x ds)) \<Longrightarrow> fwd q (rbind m (\<lambda>(x, ds). f x ds))"
  by (cases m) (auto simp: fwd_def nofl_def)

lemma fwd_bind_any: "nofl m \<Longrightarrow> (\<And>x. fwd q (f x)) \<Longrightarrow> fwd q (rbind m f)"
  by (cases m) (auto simp: fwd_def nofl_def)

lemma fwd_incr [fwd_rules]:
  "q \<le> dp ds \<Longrightarrow> (\<And>ds'. q \<le> dp ds' \<Longrightarrow> fwd q (f ds')) \<Longrightarrow> fwd q (rbind (mar_incr_ptr base len l ds) f)"
  by (simp add: mar_incr_ptr_def fwd_error trans_le_add1)

lemma fwd_rd_incr [fwd_rules]: "q \<le> dp ds \<Longrightarrow> fwd q (rd_incr mem base len k ds)"
  by (auto simp: fwd_def nofl_def rd_incr_def rd_def mar_incr_ptr_def rbind_Inr_iff rbind_def split: if_splits sum.splits)

lemma fwd_next_len [fwd_rules]: "q \<le> dp ds \<Longrightarrow> fwd q (mar_next_len mem base len ds)"
  by (auto simp: fwd_def nofl_def mar_next_len_def rd_def)

lemma nofl_set_upvalues: "nofl (set_upvalues rt fv es h)"
  by (auto simp: nofl_def set_upvalues_def Let_def split: lua_value.splits option.splits)

lemma nofl_settable: "nofl (lua_settable a k v h)"
  by (auto simp: nofl_def lua_settable_def split: option.splits)

lemma fwd_newtable [fwd_rules]: "(\<And>a hp. fwd q (f a hp)) \<Longrightarrow> fwd q (case lua_newtable h of (a, hp) \<Rightarrow> f a hp)"
  by (simp add: lua_newtable_def)

lemma fwd_load [fwd_rules]: "(\<And>v hp. fwd q (f v hp)) \<Longrightarrow> fwd q (case lua_load rt code h of (v, hp) \<Rightarrow> f v hp)"
  by (cases "lua_load rt code h") simp

lemma dp_seen_add [simp]: "dp (seen_add v ds) = dp ds"
  by (simp add: seen_add_def)

text \<open>A nested table decoder that ends when it starts at or behind position \<open>q\<close>.\<close>

definition ends :: "(nat \<Rightarrow> nat \<Rightarrow> addr \<Rightarrow> dec_state \<Rightarrow> dec_state result) \<Rightarrow> nat \<Rightarrow> bool" where
  "ends dec q \<longleftrightarrow> (\<forall>base len a ds. q \<le> dp ds \<longrightarrow> nofl (dec base len a ds))"

definition calls_end :: "lua_runtime \<Rightarrow> bool" where
  "calls_end rt \<longleftrightarrow> (\<forall>v h. nofl (call0 rt v h))"

lemma fwd_table:
  "ends dec q \<Longrightarrow> q \<le> dp ds \<Longrightarrow> (\<And>ds'. fwd q (f ds')) \<Longrightarrow> fwd q (rbind (dec b l a ds) f)"
  by (rule fwd_bind_any) (auto simp: ends_def)

lemma fwd_call:
  "calls_end rt \<Longrightarrow> (\<And>v hp. fwd q (f v hp)) \<Longrightarrow> fwd q (rbind (call0 rt g h) (\<lambda>(v, hp). f v hp))"
  by (rule fwd_bind_any) (auto simp: calls_end_def)

lemma fwd_upvalues: "(\<And>hp. fwd q (f hp)) \<Longrightarrow> fwd q (rbind (set_upvalues rt fv es h) f)"
  by (rule fwd_bind_any) (auto simp: nofl_set_upvalues)

lemma decode_ref_fwd [fwd_rules]: "q \<le> dp ds \<Longrightarrow> fwd q (decode_ref mem base len ds)"
  unfolding decode_ref_def by (intro fwd_rules) simp_all

lemma decode_usr_fwd:
  "ends dec q \<Longrightarrow> calls_end rt \<Longrightarrow> q \<le> dp ds \<Longrightarrow> fwd q (decode_usr dec rt mem base len ds)"
  unfolding decode_usr_def by (intro fwd_table fwd_call fwd_rules; simp)

lemma decode_objects_fwd:
  assumes "ends dec q" and "calls_end rt" and "q \<le> dp ds"
  shows "fwd q (decode_table_value dec rt mem base len ds)" and "fwd q (decode_function_value dec rt mem base len ds)"
    and "fwd q (decode_userdata_value dec rt mem base len ds)"
  unfolding decode_table_value_def decode_function_value_def decode_userdata_value_def using assms
  by (intro decode_usr_fwd fwd_table fwd_upvalues fwd_rules; simp)+

lemma decode_value_fwd:
  assumes "calls_end rt" and "dp ds < length mem \<Longrightarrow> ends (mar_decode_table n rt mem) (Suc (dp ds))"
  shows "fwd (Suc (dp ds)) (mar_decode_value (Suc n) rt mem base len ds)"
proof (cases "dp ds < length mem")
  case False
  then show ?thesis by (simp add: decode_value_step_def rd_incr_def rd_def fwd_def nofl_def)
next
  case True
  have 0: "fwd (Suc (dp ds)) (rd_incr mem base len 1 ds)"
    by (auto simp: fwd_def nofl_def rd_incr_def rd_def mar_incr_ptr_def rbind_def split: if_splits sum.splits)
  show ?thesis
    unfolding mar_decode_value.simps decode_value_step_def Let_def
  proof (rule fwd_bind [OF 0])
    fix tb and ds1 :: dec_state assume "Suc (dp ds) \<le> dp ds1"
    with assms True show "fwd (Suc (dp ds))
        (if int (le_val tb) = LUA_TBOOLEAN then
           rbind (rd_incr mem base len 1 ds1) (\<lambda>(bs, ds). Inr (LBoolean (le_val bs \<noteq> 0), ds))
         else if int (le_val tb) = LUA_TNUMBER then
           rbind (rd_incr mem base len 8 ds1) (\<lambda>(bs, ds). Inr (LNumber (of_nat (le_val bs)), ds))
         else if int (le_val tb) = LUA_TLIGHTUSERDATA then
           rbind (rd_incr mem base len 8 ds1) (\<lambda>(bs, ds). Inr (LLightUserdata (of_nat (le_val bs)), ds))
         else if int (le_val tb) = LUA_TSTRING then
           rbind (mar_next_len mem base len ds1) (\<lambda>(l, ds).
           rbind (rd_incr mem base len l ds) (\<lambda>(bs, ds). Inr (LString bs, ds)))
         else if int (le_val tb) = LUA_TTABLE then decode_table_value (mar_decode_table n rt mem) rt mem base len ds1
         else if int (le_val tb) = LUA_TFUNCTION then decode_function_value (mar_decode_table n rt mem) rt mem base len ds1
         else if int (le_val tb) = LUA_TUSERDATA then decode_userdata_value (mar_decode_table n rt mem) rt mem base len ds1
         else if int (le_val tb) = LUA_TNIL \<or> int (le_val tb) = LUA_TTHREAD then Inr (LNil, ds1)
         else Inl (LuaError ''bad code''))"
      by (intro decode_objects_fwd fwd_rules; simp)
  qed
qed

lemma decode_ends:
  assumes "calls_end rt"
  shows "2 * (length mem - dp ds) + 1 \<le> n \<Longrightarrow> fwd (Suc (dp ds)) (mar_decode_value n rt mem base len ds)"
    and "2 * (length mem - dp ds) + 2 \<le> n \<Longrightarrow> nofl (mar_decode_table n rt mem base len a ds)"
proof (induction n arbitrary: ds base len a)
  case 0
  { case 1 then show ?case by simp }
  { case 2 then show ?case by simp }
next
  case (Suc n)
  { case 1
    have "ends (mar_decode_table n rt mem) (Suc (dp ds))" if "dp ds < length mem"
      unfolding ends_def using Suc.IH(2) 1 that by auto
    then show ?case by (intro decode_value_fwd [OF assms]) }
  { case 2
    have V: "fwd (Suc (dp ds1)) (mar_decode_value n rt mem base len ds1)" if "dp ds \<le> dp ds1" for ds1
      using Suc.IH(1) [of ds1] 2 that by simp
    have T: "nofl (mar_decode_table n rt mem base len a ds1)" if "dp ds < dp ds1" "dp ds < length mem" for ds1
      using Suc.IH(2) [of ds1] 2 that by simp
    have "nofl (mar_decode_value n rt mem base len ds)" using V [of ds] by (simp add: fwd_def)
    moreover have "nofl (rbind (mar_decode_value n rt mem base len ds1) (\<lambda>(v, ds2).
        rbind (lua_settable a k v (dheap ds2)) (\<lambda>h. mar_decode_table n rt mem base len a (ds2\<lparr>dheap := h\<rparr>))))"
      if r: "mar_decode_value n rt mem base len ds = Inr (k, ds1)" for k ds1
    proof -
      have lt: "dp ds < dp ds1" using V [of ds] r by (simp add: fwd_def Suc_le_eq)
      have m: "dp ds < length mem"
      proof (rule ccontr)
        assume "\<not> dp ds < length mem"
        with r show False by (cases n) (auto simp: decode_value_step_def rd_incr_def rd_def)
      qed
      have v: "fwd (Suc (dp ds1)) (mar_decode_value n rt mem base len ds1)" using V lt by simp
      have "nofl (rbind (lua_settable a k v (dheap ds2)) (\<lambda>h. mar_decode_table n rt mem base len a (ds2\<lparr>dheap := h\<rparr>)))"
        if "mar_decode_value n rt mem base len ds1 = Inr (v, ds2)" for v ds2
      proof -
        have "dp ds < dp (ds2\<lparr>dheap := h\<rparr>)" for h using v that lt by (auto simp: fwd_def)
        then show ?thesis using T m nofl_settable [of a k v "dheap ds2"]
          by (auto simp: nofl_def rbind_Inl_iff)
      qed
      with v show ?thesis by (auto simp: fwd_def nofl_def rbind_Inl_iff)
    qed
    ultimately show ?case by (auto simp: nofl_def rbind_Inl_iff) }
qed


section \<open>Evaluation on concrete heaps\<close>

lemma buf_write_fit:
  "bhead b + length bs \<le> bsize b \<Longrightarrow> length bs < 2 ^ 32 \<Longrightarrow>
   buf_write bs b = Inr (b\<lparr>bdata := bdata b @ bs, bhead := bhead b + length bs\<rparr>)"
  by (auto simp: buf_write_def Let_def)

lemma dec_numeral:
  "mar_decode_value (numeral k) rt mem base len ds
     = decode_value_step (mar_decode_table (pred_numeral k) rt mem) rt mem base len ds"
  "mar_decode_table (numeral k) rt mem base len a ds =
     (if dp ds - base < len then
        rbind (mar_decode_value (pred_numeral k) rt mem base len ds) (\<lambda>(k', ds).
        rbind (mar_decode_value (pred_numeral k) rt mem base len ds) (\<lambda>(v, ds).
        rbind (lua_settable a k' v (dheap ds)) (\<lambda>h.
        mar_decode_table (pred_numeral k) rt mem base len a (ds\<lparr>dheap := h\<rparr>))))
      else Inr ds)"
  by (simp_all only: numeral_eq_Suc mar_decode_value.simps mar_decode_table.simps)

lemma int_to_num_1: "int_to_num 1 = 0x3FF0000000000000"
proof -
  have "ilog2 1 = 0" by (subst ilog2.simps) simp
  then show ?thesis by (simp add: int_to_num_def)
qed

lemma one_not_nan: "num_exp 0x3FF0000000000000 = 1023"
  by (simp add: num_exp_def)

lemmas enc_eval = mar_encode_def put_def buf_write_fit buf_init_def seen_init_def le_bytes_numeral
  encode_table_value_def encode_userdata_value_def encode_function_value_def encode_hook_def
  upvalue_entries_def mark_seen_def put_block_def put_ref_def LInteger_def int_to_num_1

lemmas dec_eval = mar_decode_def decode_value_step_def rd_incr_def rd_def mar_incr_ptr_def mar_next_len_def
  decode_table_value_def decode_function_value_def decode_userdata_value_def decode_usr_def decode_ref_def
  seen_add_def seen_get_def entries_at_def lua_load_def new_function_def lua_newtable_def
  lua_settable_def set_upvalues_def dseen_init_def key_eq_def dec_numeral LInteger_def int_to_num_1 one_not_nan

definition wit_rt :: lua_runtime where
  "wit_rt = \<lparr>undump = (\<lambda>_. Some 0), load_message = [], call0 = (\<lambda>v h. Inr (LUserdata 99, h)), border = length\<rparr>"

definition empty_heap :: lua_heap where
  "empty_heap = \<lparr>tabs = Map.empty, funs = Map.empty, uds = Map.empty, nexta = 1\<rparr>"

text \<open>A table that contains itself, and a function without upvalues.\<close>

definition wit_cycle :: lua_heap where
  "wit_cycle = \<lparr>tabs = [1 \<mapsto> \<lparr>entries = [(LString [97], LTable 1), (LString [98], LFunction 2)], t_persist = None\<rparr>],
     funs = [2 \<mapsto> \<lparr>is_lua = True, chunk = [7], upvalues = []\<rparr>], uds = Map.empty, nexta = 3\<rparr>"

lemma wit_plain: "plain wit_rt wit_cycle" "border_ok wit_rt" "calls_end wit_rt" "heap_wf empty_heap"
proof -
  show "plain wit_rt wit_cycle" by (auto simp: plain_def wit_cycle_def wit_rt_def good_entries_def key_eq_def)
  show "border_ok wit_rt" by (auto simp: border_ok_def wit_rt_def dest: arg_cong [of _ _ length])
  show "calls_end wit_rt" by (simp add: calls_end_def wit_rt_def nofl_def)
  show "heap_wf empty_heap" by (simp add: heap_wf_def empty_heap_def)
qed

lemma wit_cycle_encode:
  "mar_encode (Suc (Suc (Suc 0))) wit_cycle [] False (LTable 1) = Inr [142, 5, 2, 29, 0, 0, 0,
     4, 1, 0, 0, 0, 97, 5, 1, 1, 0, 0, 0, 4, 1, 0, 0, 0, 98, 6, 2, 1, 0, 0, 0, 7, 0, 0, 0, 0]"
  by (simp add: enc_eval wit_cycle_def)




text \<open>
  A string whose length field exceeds what follows is read outside the
  memory of the message before the length is checked, for every such length; the
  error "bad code" is reported only after the read.
\<close>

theorem mar_decode_string_overread:
  assumes "length bs + 1 < l" and "l < 2 ^ 32" and "0 < n"
  shows "mar_decode n rt consts (MAR_MAGIC # 4 # le_bytes 4 l @ bs) h = Inl OutOfBounds"
proof -
  obtain m where n: "n = Suc m" using assms(3) by (cases n) auto
  let ?s = "MAR_MAGIC # 4 # le_bytes 4 l @ bs"
  let ?ds = "\<lparr>dp = 1, dheap = h, dseen = dseen_init consts, didx = Suc (length consts)\<rparr>"
  have 1: "rd_incr (?s @ [0]) 1 (length ?s - 1) 1 ?ds = Inr ([4], ?ds\<lparr>dp := 2\<rparr>)"
    by (subst rd_incr_at [of _ _ "[4]"]) (auto simp: at_def)
  have "at (?s @ [0]) 2 (le_bytes 4 l)" by (simp add: at_def numeral_2_eq_2 del: le_bytes.simps)
  then have 2: "mar_next_len (?s @ [0]) 1 (length ?s - 1) (?ds\<lparr>dp := 2\<rparr>) = Inr (l, ?ds\<lparr>dp := 6\<rparr>)"
    using assms(2) by (subst next_len_at [of _ _ l]) auto
  have 3: "rd_incr (?s @ [0]) 1 (length ?s - 1) l (?ds\<lparr>dp := 6\<rparr>) = Inl OutOfBounds"
    using assms(1) by (simp add: rd_incr_def rd_def)
  from 1 2 3 show ?thesis by (simp add: n mar_decode_def decode_value_step_def del: le_bytes.simps)
qed

theorem mar_decode_string_overread_witness:
  "mar_decode 1 wit_rt [] (MAR_MAGIC # 4 # le_bytes 4 1000 @ [97]) empty_heap = Inl OutOfBounds"
  by (rule mar_decode_string_overread) simp_all

definition wit_wrap :: lua_heap where
  "wit_wrap = \<lparr>tabs = [1 \<mapsto> \<lparr>entries = [(LString [97], LUserdata 2), (LString [98], LUserdata 2)], t_persist = None\<rparr>],
     funs = [3 \<mapsto> \<lparr>is_lua = True, chunk = [7], upvalues = []\<rparr>],
     uds = [2 \<mapsto> \<lparr>u_wrap = Some (LFunction 3), u_persist = None\<rparr>], nexta = 4\<rparr>"

lemma wit_wrap_encode:
  "mar_encode (Suc (Suc (Suc (Suc 0)))) wit_wrap [] False (LTable 1) = Inr [142, 5, 2, 44, 0, 0, 0, 4, 1, 0, 0, 0, 97,
     7, 3, 20, 0, 0, 0, 3, 0, 0, 0, 0, 0, 0, 240, 63, 6, 2, 1, 0, 0, 0, 7, 0, 0, 0, 0, 4, 1, 0, 0, 0, 98, 7, 1, 2, 0, 0, 0]"
  by (simp add: enc_eval wit_wrap_def)


definition wit_persist :: lua_heap where
  "wit_persist = \<lparr>tabs = [1 \<mapsto> \<lparr>entries = [(LString [97], LTable 2), (LString [98], LTable 4), (LString [99], LTable 4)],
        t_persist = None\<rparr>, 2 \<mapsto> \<lparr>entries = [], t_persist = Some (LFunction 3)\<rparr>,
        4 \<mapsto> \<lparr>entries = [], t_persist = None\<rparr>],
     funs = [3 \<mapsto> \<lparr>is_lua = True, chunk = [7], upvalues = []\<rparr>], uds = Map.empty, nexta = 5\<rparr>"

lemma wit_persist_encode:
  "mar_encode (Suc (Suc (Suc (Suc 0)))) wit_persist [] False (LTable 1) = Inr [142, 5, 2, 56, 0, 0, 0, 4, 1, 0, 0, 0, 97,
     5, 3, 20, 0, 0, 0, 3, 0, 0, 0, 0, 0, 0, 240, 63, 6, 2, 1, 0, 0, 0, 7, 0, 0, 0, 0,
     4, 1, 0, 0, 0, 98, 5, 2, 0, 0, 0, 0, 4, 1, 0, 0, 0, 99, 5, 1, 3, 0, 0, 0]"
  by (simp add: enc_eval wit_persist_def)

text \<open>
  A table with a \<open>__persist\<close> hook is numbered by the decoder only, which shifts
  every later number by one: a plain table that occurs twice after it decodes, the
  second time, to the persisted object.
\<close>

theorem mar_persisted_shifts:
  "\<exists>s h'. mar_encode (Suc (Suc (Suc (Suc 0)))) wit_persist [] False (LTable 1) = Inr s \<and>
     mar_decode 130 wit_rt [] s empty_heap = Inr (LTable 1, h') \<and>
     rawget_entries (LString [97]) (entries_at h' 1) = LUserdata 99 \<and>
     rawget_entries (LString [99]) (entries_at h' 1) = LUserdata 99 \<and>
     rawget_entries (LString [98]) (entries_at h' 1) \<noteq> LUserdata 99"
  unfolding wit_persist_encode by (simp add: dec_eval wit_rt_def empty_heap_def)

text \<open>
  Appending to a buffer never overruns its allocation, however much it has to
  grow: the bytes written so far are kept and the new ones follow; only a single
  write of \<open>2 ^ 32\<close> bytes or more is refused.
\<close>

theorem buf_write_appends:
  assumes "buf_wf b"
  shows "if length bs < 2 ^ 32
    then \<exists>b'. buf_write bs b = Inr b' \<and> bdata b' = bdata b @ bs \<and> buf_wf b' \<and> bhead b' \<le> bsize b'
    else buf_write bs b = Inl (LuaError ''buffer too long'')"
  using buf_write_cases [OF assms, of bs] by (auto simp: buf_wf_def)

theorem buf_write_appends_witness:
  "\<exists>b'. buf_write (replicate 200 1) buf_init = Inr b' \<and> bdata b' = replicate 200 1 \<and> bhead b' \<le> bsize b'"
  using buf_write_appends [of buf_init "replicate 200 1"] by (auto simp: buf_wf_def buf_init_def)

end
