(* ===== verification/Leda_Event.thy ===== *)
theory Leda_Event
  imports Leda_Marshal_Total
begin

text \<open>
  Events as data (\<open>src/kernel/event.c\<close>, first part): the payload copied out of one
  Lua state and restored into another. A state here is its stack, bottom first,
  and its heap; tables, functions and userdata travel through the marshaller.
\<close>

section \<open>Elements and events\<close>

datatype element_data = DNone | DNumber lua_Number | DStr "byte list" | DBool bool | DPtr c_long

record element =
  el_type :: int
  el_data :: element_data
  el_len :: nat

text \<open>\<open>calloc\<close> clears an element: type \<open>LUA_TNIL\<close>, no data.\<close>

definition zero_element :: element where
  "zero_element = \<lparr>el_type = 0, el_data = DNone, el_len = 0\<rparr>"

datatype event = Packed "byte list" | Event "element list"

text \<open>The blocks of memory an event owns.\<close>

datatype ev_block = EvStruct | EvData | EvPayload | EvStr nat

definition owns_string :: "element \<Rightarrow> bool" where
  "owns_string e = (case el_data e of DStr _ \<Rightarrow> True | _ \<Rightarrow> False)"

definition event_blocks :: "event \<Rightarrow> ev_block set" where
  "event_blocks e = (case e of Packed _ \<Rightarrow> {EvStruct, EvData}
     | Event els \<Rightarrow> {EvStruct, EvPayload} \<union> EvStr ` {i. i < length els \<and> owns_string (els ! i)})"

section \<open>Operations\<close>

text \<open>\<open>destroy_event\<close>: the blocks passed to \<open>free\<close>, in order.\<close>

definition destroy_event :: "event \<Rightarrow> ev_block list" where
  "destroy_event e = (case e of Packed _ \<Rightarrow> [EvData, EvStruct]
     | Event els \<Rightarrow> concat (map (\<lambda>i. let el = els ! i in
           if el_type el \<in> {LUA_TSTRING, LUA_TFUNCTION, LUA_TTABLE, LUA_TUSERDATA} \<and> owns_string el
           then [EvStr i] else []) [0..<length els]) @ [EvPayload, EvStruct])"

text \<open>
  \<open>copy_event_element\<close>: the element for the value at a stack index, \<open>None\<close> for a
  type that is not supported (also for an index without a value).
\<close>

definition copy_event_element ::
  "nat \<Rightarrow> lua_heap \<Rightarrow> lua_value list \<Rightarrow> nat \<Rightarrow> element option result" where
  "copy_event_element d h st i =
     (case lua_index st i of None \<Rightarrow> Inr None
      | Some v \<Rightarrow> (case v of
          LNil \<Rightarrow> Inr (Some \<lparr>el_type = LUA_TNIL, el_data = DNone, el_len = 0\<rparr>)
        | LBoolean b \<Rightarrow> Inr (Some \<lparr>el_type = LUA_TBOOLEAN, el_data = DBool b, el_len = 4\<rparr>)
        | LNumber n \<Rightarrow> Inr (Some \<lparr>el_type = LUA_TNUMBER, el_data = DNumber n, el_len = 8\<rparr>)
        | LString s \<Rightarrow> Inr (Some \<lparr>el_type = LUA_TSTRING, el_data = DStr s, el_len = length s\<rparr>)
        | LLightUserdata p \<Rightarrow> Inr (Some \<lparr>el_type = LUA_TLIGHTUSERDATA, el_data = DPtr p, el_len = 8\<rparr>)
        | LThread _ \<Rightarrow> Inr None
        | _ \<Rightarrow> rbind (mar_encode d h [] False v) (\<lambda>s.
            Inr (Some \<lparr>el_type = type_tag v, el_data = DStr s, el_len = length s\<rparr>))))"

definition event_new_packed_event :: "bool \<Rightarrow> byte list \<Rightarrow> event option" where
  "event_new_packed_event malloc_ok data = (if malloc_ok then Some (Packed data) else None)"

text \<open>
  The copying loop of \<open>extract_event_from_lua_state\<close>: the filled elements, and
  whether it stopped at a value that is not supported.
\<close>

fun extract_loop ::
  "nat \<Rightarrow> lua_heap \<Rightarrow> lua_value list \<Rightarrow> nat \<Rightarrow> nat \<Rightarrow> element list \<Rightarrow> (bool \<times> element list) result" where
  "extract_loop d h st i 0 els = Inr (True, els)"
| "extract_loop d h st i (Suc k) els =
     rbind (copy_event_element d h st i) (\<lambda>r. case r of None \<Rightarrow> Inr (False, els)
       | Some el \<Rightarrow> extract_loop d h st (Suc i) k (els @ [el]))"

text \<open>
  The event, or the error with the blocks that were freed before raising it; an
  error raised by the marshaller leaves the function without freeing anything.
\<close>

datatype extracted = Extracted event | Unsupported "ev_block list"

definition extract_event_from_lua_state ::
  "nat \<Rightarrow> lua_heap \<Rightarrow> lua_value list \<Rightarrow> nat \<Rightarrow> nat \<Rightarrow> extracted result" where
  "extract_event_from_lua_state d h st from args =
     rbind (extract_loop d h st from args []) (\<lambda>(ok, els).
     Inr (if ok then Extracted (Event els)
          else Unsupported (destroy_event (Event (els @ replicate (args - length els) zero_element)))))"

text \<open>
  \<open>restore_event_to_lua_state\<close>: the new stack and heap, the number of values
  pushed and the blocks freed. A packed event is decoded and unpacked by the
  global \<open>unpack\<close>; an element of another type pushes nothing.
\<close>

definition push_element ::
  "lua_runtime \<Rightarrow> element \<Rightarrow> lua_value list \<times> lua_heap \<Rightarrow> (lua_value list \<times> lua_heap) result" where
  "push_element rt el = (\<lambda>(st, h).
     if el_type el = LUA_TNIL then Inr (st @ [LNil], h)
     else (case el_data el of
         DBool b \<Rightarrow> Inr (st @ [LBoolean b], h)
       | DNumber n \<Rightarrow> Inr (st @ [LNumber n], h)
       | DPtr p \<Rightarrow> Inr (st @ [LLightUserdata p], h)
       | DStr s \<Rightarrow> (if el_type el = LUA_TSTRING then Inr (st @ [LString (take (el_len el) s)], h)
           else if el_type el \<in> {LUA_TFUNCTION, LUA_TTABLE, LUA_TUSERDATA} then
             rbind (mar_decode (2 * el_len el + 1) rt [] (take (el_len el) s) h) (\<lambda>(v, h). Inr (st @ [v], h))
           else Inr (st, h))
       | DNone \<Rightarrow> Inr (st, h)))"

definition lua_unpack :: "lua_runtime \<Rightarrow> lua_value \<Rightarrow> lua_heap \<Rightarrow> lua_value list result" where
  "lua_unpack rt v h = (case v of
     LTable a \<Rightarrow> (let es = entries_at h a in
       Inr (map (\<lambda>i. rawget_entries (LInteger (int i)) es) [1..<Suc (border rt es)]))
   | _ \<Rightarrow> Inl (LuaError ''bad argument #1 to unpack (table expected)''))"

definition restore_event_to_lua_state ::
  "lua_runtime \<Rightarrow> event \<Rightarrow> lua_value list \<times> lua_heap \<Rightarrow>
   ((lua_value list \<times> lua_heap) \<times> nat \<times> ev_block list) result" where
  "restore_event_to_lua_state rt e = (\<lambda>(st, h). case e of
     Packed data \<Rightarrow>
       rbind (mar_decode (2 * length data + 1) rt [] data h) (\<lambda>(v, h).
       rbind (lua_unpack rt v h) (\<lambda>vs. Inr ((st @ vs, h), length vs, destroy_event e)))
   | Event els \<Rightarrow>
       rbind (for_each (push_element rt) els (st, h)) (\<lambda>sth. Inr (sth, length els, destroy_event e)))"

text \<open>\<open>copy_values_directly\<close>: the same transfer without an event in between.\<close>

definition copy_value ::
  "nat \<Rightarrow> lua_runtime \<Rightarrow> lua_heap \<Rightarrow> lua_value list \<Rightarrow> nat \<Rightarrow> lua_value list \<times> lua_heap \<Rightarrow>
   (lua_value list \<times> lua_heap) result" where
  "copy_value d rt h src i = (\<lambda>(dst, h2).
     case lua_index src i of None \<Rightarrow> Inl (LuaError ''Value type not supported'')
     | Some v \<Rightarrow> (case v of
         LTable _ \<Rightarrow> rbind (mar_encode d h [] False v) (\<lambda>s.
           rbind (mar_decode (2 * length s + 1) rt [] s h2) (\<lambda>(w, h2). Inr (dst @ [w], h2)))
       | LFunction _ \<Rightarrow> rbind (mar_encode d h [] False v) (\<lambda>s.
           rbind (mar_decode (2 * length s + 1) rt [] s h2) (\<lambda>(w, h2). Inr (dst @ [w], h2)))
       | LUserdata _ \<Rightarrow> rbind (mar_encode d h [] False v) (\<lambda>s.
           rbind (mar_decode (2 * length s + 1) rt [] s h2) (\<lambda>(w, h2). Inr (dst @ [w], h2)))
       | LThread _ \<Rightarrow> Inl (LuaError ''Value type not supported'')
       | _ \<Rightarrow> Inr (dst @ [v], h2)))"

definition copy_values_directly ::
  "nat \<Rightarrow> lua_runtime \<Rightarrow> lua_heap \<Rightarrow> lua_value list \<Rightarrow> nat \<Rightarrow> nat \<Rightarrow> lua_value list \<times> lua_heap \<Rightarrow>
   (lua_value list \<times> lua_heap) result" where
  "copy_values_directly d rt h src from args dst =
     for_each (copy_value d rt h src) [from..<from + args] dst"

section \<open>Memory\<close>

lemma set_concat_if:
  "set (concat (map (\<lambda>i. if P i then [f i] else []) xs)) = f ` {i \<in> set xs. P i}"
  by (induction xs) auto

lemma distinct_concat_if:
  "inj f \<Longrightarrow> distinct xs \<Longrightarrow> distinct (concat (map (\<lambda>i. if P i then [f i] else []) xs))"
  by (induction xs) (auto simp: inj_def)

text \<open>Elements made by \<open>copy_event_element\<close> own a string exactly when their type says so.\<close>

definition element_wf :: "element \<Rightarrow> bool" where
  "element_wf el \<longleftrightarrow>
     (owns_string el \<longleftrightarrow> el_type el \<in> {LUA_TSTRING, LUA_TFUNCTION, LUA_TTABLE, LUA_TUSERDATA})"

lemma destroy_event_exact:
  assumes "case e of Packed _ \<Rightarrow> True | Event els \<Rightarrow> \<forall>el \<in> set els. element_wf el"
  shows "set (destroy_event e) = event_blocks e" and "distinct (destroy_event e)"
proof -
  show "set (destroy_event e) = event_blocks e"
    using assms by (cases e) (auto simp: destroy_event_def event_blocks_def Let_def set_concat_if element_wf_def
        simp del: set_concat)
  show "distinct (destroy_event e)"
    by (cases e) (auto simp: destroy_event_def Let_def set_concat_if simp del: set_concat
        intro!: distinct_concat_if injI)
qed

lemma copy_event_element_wf:
  "copy_event_element d h st i = Inr (Some el) \<Longrightarrow> element_wf el"
  by (auto simp: copy_event_element_def element_wf_def owns_string_def rbind_Inr_iff
      split: option.splits lua_value.splits)

lemma extract_loop_wf:
  "extract_loop d h st i k els = Inr (ok, els') \<Longrightarrow> \<forall>el \<in> set els. element_wf el \<Longrightarrow>
   (\<forall>el \<in> set els'. element_wf el) \<and> length els' \<le> length els + k"
proof (induction d h st i k els rule: extract_loop.induct)
  case (2 d h st i k els)
  then show ?case using copy_event_element_wf [of d h st i]
    by (fastforce simp: rbind_Inr_iff split: option.splits)
qed simp


section \<open>Transfer of values\<close>

text \<open>
  The contract between the elements and the events built from them: an element
  made from a value is pushed as a copy of that value, and pushing disturbs
  nothing pushed before.
\<close>

locale value_transfer =
  fixes made :: "'h \<Rightarrow> lua_value \<Rightarrow> 'e \<Rightarrow> bool"
    and push :: "'e \<Rightarrow> lua_value list \<times> 'h \<Rightarrow> (lua_value list \<times> 'h) result"
    and good :: "'h \<Rightarrow> bool" and wf :: "'h \<Rightarrow> bool"
    and copied :: "'h \<Rightarrow> lua_value \<Rightarrow> 'h \<Rightarrow> lua_value \<Rightarrow> bool"
    and ext :: "'h \<Rightarrow> 'h \<Rightarrow> bool"
  assumes push_made: "good h \<Longrightarrow> wf h2 \<Longrightarrow> made h v e \<Longrightarrow>
      \<exists>w h2'. push e (st, h2) = Inr (st @ [w], h2') \<and> copied h v h2' w \<and> ext h2 h2' \<and> wf h2'"
    and copied_ext: "copied h v h2 w \<Longrightarrow> wf h2 \<Longrightarrow> ext h2 h2' \<Longrightarrow> copied h v h2' w"
    and ext_refl: "ext h2 h2"
    and ext_trans: "ext h1 h2 \<Longrightarrow> ext h2 h3 \<Longrightarrow> ext h1 h3"
begin

lemma push_all:
  assumes "good h" and "list_all2 (made h) vs es" and "wf h2"
  shows "\<exists>ws h2'. for_each push es (st, h2) = Inr (st @ ws, h2') \<and> list_all2 (\<lambda>v w. copied h v h2' w) vs ws \<and>
     ext h2 h2' \<and> wf h2'"
  using assms(2,3)
proof (induction vs es arbitrary: st h2 rule: list_all2_induct)
  case Nil
  then show ?case using ext_refl by simp
next
  case (Cons v vs e es)
  from push_made [OF assms(1) Cons.prems Cons.hyps(1), of st] obtain w h3 where
    1: "push e (st, h2) = Inr (st @ [w], h3)" "copied h v h3 w" "ext h2 h3" "wf h3" by blast
  from Cons.IH [OF 1(4), of "st @ [w]"] obtain ws h4 where
    2: "for_each push es (st @ [w], h3) = Inr ((st @ [w]) @ ws, h4)" "list_all2 (\<lambda>v w. copied h v h4 w) vs ws"
    "ext h3 h4" "wf h4" by blast
  have "copied h v h4 w" using copied_ext [OF 1(2) 1(4) 2(3)] .
  then have "list_all2 (\<lambda>v w. copied h v h4 w) (v # vs) (w # ws)" using 2(2) by simp
  moreover have "ext h2 h4" using ext_trans [OF 1(3) 2(3)] .
  moreover have "for_each push (e # es) (st, h2) = Inr (st @ (w # ws), h4)" using 1(1) 2(1) by simp
  ultimately show ?case using 2(4) by blast
qed

end

definition element_of :: "nat \<Rightarrow> lua_heap \<Rightarrow> lua_value \<Rightarrow> element \<Rightarrow> bool" where
  "element_of d h v el \<longleftrightarrow> copy_event_element d h [v] 1 = Inr (Some el) \<and> el_len el < 2 ^ 31"

lemma copy_atom: "\<not> is_object v \<Longrightarrow> copy h v h' v"
  unfolding copy_def by (rule exI [of _ Map.empty]) (simp add: ren_def)

lemma push_object:
  assumes "plain rt h" "border_ok rt" "heap_wf h2" "mar_encode d h [] False v = Inr s" "length s < 2 ^ 31"
  shows "\<exists>w h2'. mar_decode (2 * length s + 1) rt [] s h2 = Inr (w, h2') \<and> copy h v h2' w \<and> kept h2 h2' {} \<and> heap_wf h2'"
  using decode_encode_copy [OF assms(1,2,4,5,3), of "2 * length s + 1"] by simp

interpretation ev: value_transfer "element_of d" "push_element rt" "\<lambda>h. plain rt h \<and> border_ok rt" heap_wf copy
  "\<lambda>h h'. kept h h' {}" for d rt
proof unfold_locales
  fix h h2 v el st
  assume g: "plain rt h \<and> border_ok rt" and wf: "heap_wf h2" and e: "element_of d h v el"
  show "\<exists>w h2'. push_element rt el (st, h2) = Inr (st @ [w], h2') \<and> copy h v h2' w \<and> kept h2 h2' {} \<and> heap_wf h2'"
  proof (cases "v \<in> {w. type_tag w \<in> {LUA_TTABLE, LUA_TFUNCTION, LUA_TUSERDATA}}")
    case True
    then have "copy_event_element d h [v] 1 = rbind (mar_encode d h [] False v) (\<lambda>s.
        Inr (Some \<lparr>el_type = type_tag v, el_data = DStr s, el_len = length s\<rparr>))"
      by (cases v) (simp_all add: copy_event_element_def)
    with e have "rbind (mar_encode d h [] False v) (\<lambda>s.
        Inr (Some \<lparr>el_type = type_tag v, el_data = DStr s, el_len = length s\<rparr>)) = Inr (Some el)"
      by (simp add: element_of_def)
    then obtain s where s: "mar_encode d h [] False v = Inr s" "length s < 2 ^ 31"
      "el = \<lparr>el_type = type_tag v, el_data = DStr s, el_len = length s\<rparr>"
      using e by (elim rbind_InrE) (auto simp: element_of_def)
    from push_object [OF _ _ wf s(1,2), of rt] g obtain w h2' where
      "mar_decode (2 * length s + 1) rt [] s h2 = Inr (w, h2')" "copy h v h2' w" "kept h2 h2' {}" "heap_wf h2'" by blast
    with True s(3) show ?thesis by (auto simp: push_element_def)
  next
    case False
    then have "push_element rt el (st, h2) = Inr (st @ [v], h2)" and "\<not> is_object v"
      using e by (cases v; auto simp: element_of_def copy_event_element_def push_element_def)+
    then show ?thesis using wf copy_atom by auto
  qed
next
  fix h v h2 w h2' assume "copy h v h2 w" "heap_wf h2" "kept h2 h2' {}"
  then show "copy h v h2' w" by (rule copy_kept)
next
  fix h1 h2 h3 assume "kept h1 h2 {}" "kept h2 h3 {}"
  then show "kept h1 h3 {}" by (auto intro: kept_trans)
qed simp

lemma copy_event_element_at:
  "lua_index st i = Some v \<Longrightarrow> copy_event_element d h st i = copy_event_element d h [v] 1"
  by (simp add: copy_event_element_def)

lemma extract_loop_elements:
  "extract_loop d h st i k els = Inr (True, els') \<Longrightarrow> 1 \<le> i \<Longrightarrow>
   \<exists>es. els' = els @ es \<and> list_all2 (\<lambda>v el. copy_event_element d h [v] 1 = Inr (Some el)) (take k (drop (i - 1) st)) es \<and>
     length es = k"
proof (induction d h st i k els rule: extract_loop.induct)
  case (2 d h st i k els)
  from 2(2) obtain el where c: "copy_event_element d h st i = Inr (Some el)"
    and l: "extract_loop d h st (Suc i) k (els @ [el]) = Inr (True, els')"
    by (auto simp: rbind_Inr_iff split: option.splits)
  from c obtain v where v: "lua_index st i = Some v" by (cases "lua_index st i") (auto simp: copy_event_element_def)
  then have i: "i - 1 < length st" "st ! (i - 1) = v" by (auto simp: lua_index_def split: if_splits)
  from 2(1) [OF c refl l] 2(3) obtain es where es: "els' = (els @ [el]) @ es" "length es = k"
    "list_all2 (\<lambda>v el. copy_event_element d h [v] 1 = Inr (Some el)) (take k (drop i st)) es" by auto
  have "drop (i - 1) st = v # drop i st" using Cons_nth_drop_Suc [OF i(1)] i(2) 2(3) by simp
  then have "take (Suc k) (drop (i - 1) st) = v # take k (drop i st)" by simp
  moreover have "copy_event_element d h [v] 1 = Inr (Some el)" using c copy_event_element_at [OF v, of d h] by simp
  ultimately show ?case using es by (intro exI [of _ "el # es"]) simp
qed simp


lemma copy_value_push:
  assumes "lua_index src i = Some v" and "copy_event_element d h [v] 1 = Inr (Some el)"
  shows "copy_value d rt h src i (dst, h2) = push_element rt el (dst, h2)"
  using assms by (cases v) (auto simp: copy_value_def copy_event_element_def push_element_def rbind_Inr_iff)

lemma for_each_copy_push:
  assumes "list_all2 (\<lambda>v el. copy_event_element d h [v] 1 = Inr (Some el)) vs els"
    and "\<forall>j < length vs. lua_index src (i + j) = Some (vs ! j)"
  shows "for_each (copy_value d rt h src) [i..<i + length vs] dst = for_each (push_element rt) els dst"
  using assms
proof (induction vs els arbitrary: i dst rule: list_all2_induct)
  case Nil
  then show ?case by simp
next
  case (Cons v vs el els)
  obtain st h2 where dst: "dst = (st, h2)" by force
  have "[i..<i + length (v # vs)] = i # [Suc i..<Suc i + length vs]"
    using upt_conv_Cons [of i "i + length (v # vs)"] by (simp del: upt_Suc)
  moreover have "lua_index src i = Some v" using Cons.prems by (metis add.right_neutral length_greater_0_conv list.simps(3) nth_Cons_0)
  moreover have "\<forall>j < length vs. lua_index src (Suc i + j) = Some (vs ! j)" using Cons.prems by fastforce
  ultimately show ?case
    using copy_value_push [of src i v d h el rt st h2] Cons.hyps Cons.IH [of "Suc i"]
    by (simp add: dst rbind_def split: sum.split del: upt_Suc)
qed

text \<open>
  C26. Copying values directly between two states has the same effect as
  extracting them into an event and restoring it.
\<close>

theorem copy_values_as_event:
  assumes "extract_event_from_lua_state d h src from args = Inr (Extracted e)" and "1 \<le> from"
  shows "restore_event_to_lua_state rt e dst =
     rbind (copy_values_directly d rt h src from args dst) (\<lambda>dst'. Inr (dst', args, destroy_event e))"
proof -
  from assms(1) obtain els where l: "extract_loop d h src from args [] = Inr (True, els)" and e: "e = Event els"
    by (auto simp: extract_event_from_lua_state_def rbind_Inr_iff split: if_splits)
  let ?vs = "take args (drop (from - 1) src)"
  from extract_loop_elements [OF l assms(2)] have len: "length els = args"
    and el: "list_all2 (\<lambda>v el. copy_event_element d h [v] 1 = Inr (Some el)) ?vs els" by auto
  then have lv: "length ?vs = args" using list_all2_lengthD by metis
  have "lua_index src (from + j) = Some (?vs ! j)" if "j < length ?vs" for j
    using that lv assms(2) by (auto simp: lua_index_def)
  then have "for_each (copy_value d rt h src) [from..<from + args] dst = for_each (push_element rt) els dst"
    using for_each_copy_push [OF el, of src "from" rt dst] lv by simp
  then show ?thesis
    by (cases dst) (simp add: e restore_event_to_lua_state_def copy_values_directly_def len)
qed

text \<open>Two values in a state whose heap has a cyclic table.\<close>

abbreviation wit_bytes :: "byte list" where
  "wit_bytes \<equiv> [142, 5, 2, 29, 0, 0, 0, 4, 1, 0, 0, 0, 97, 5, 1, 1, 0, 0, 0,
     4, 1, 0, 0, 0, 98, 6, 2, 1, 0, 0, 0, 7, 0, 0, 0, 0]"

abbreviation wit_elements :: "element list" where
  "wit_elements \<equiv> [\<lparr>el_type = LUA_TNUMBER, el_data = DNumber 5, el_len = 8\<rparr>,
     \<lparr>el_type = LUA_TTABLE, el_data = DStr wit_bytes, el_len = 36\<rparr>]"

lemma wit_extract:
  "extract_event_from_lua_state (Suc (Suc (Suc 0))) wit_cycle [LNumber 5, LTable 1] 1 2
     = Inr (Extracted (Event wit_elements))"
  using wit_cycle_encode
  by (simp add: extract_event_from_lua_state_def numeral_2_eq_2 copy_event_element_def lua_index_def
      del: mar_encode_value.simps)



theorem copy_values_as_event_witness:
  "restore_event_to_lua_state wit_rt (Event wit_elements) ([], empty_heap) =
     rbind (copy_values_directly (Suc (Suc (Suc 0))) wit_rt wit_cycle [LNumber 5, LTable 1] 1 2 ([], empty_heap))
       (\<lambda>dst'. Inr (dst', 2, destroy_event (Event wit_elements)))"
  using copy_values_as_event [OF wit_extract, of wit_rt "([], empty_heap)"] by simp

end
