(* ===== verification/Leda_Instance.thy ===== *)
theory Leda_Instance
  imports Leda_Queue Leda_Stats Leda_Graph Leda_Event
begin

text \<open>
  The instances of stages (\<open>src/kernel/instance.c\<close>): the queues of idle instances
  and of pending events of every stage, the ready queue, the limits on the number
  of instances, and how an instance is acquired, released and destroyed.

  The file-level variables of the source are the fields of one record, \<open>kernel\<close>.
  An instance is an address into \<open>insts\<close>; a \<open>NULL\<close> pointer is \<open>None\<close>. The clock is
  read once per call and passed in, in microseconds.
\<close>

section \<open>State\<close>

record instance_data =
  i_L :: lua_State
  i_heap :: lua_heap
  i_stage :: int
  i_args :: nat
  i_number :: c_long
  i_init_time :: int
  i_con_id :: int
  i_packed :: "event option"
  i_communication_time :: int
  i_last_proc :: int

record kernel =
  main_graph :: graph_data
  recycle_queues :: "addr LFQueue list"
  event_queues :: "event LFQueue list"
  recycle_queue_limits :: "atomicInt list"
  number_of_instances :: "atomicInt list"
  ready_queue :: "addr option LFQueue"
  insts :: "addr \<rightharpoonup> instance_data"
  next_inst :: addr
  kstats :: stats

text \<open>
  What the kernel relies on when it creates a state: whether the chunk of
  \<open>instance.lua\<close> loads, and what running it on the table of the stage gives, the
  handler and the heap of the new state, or an error.
\<close>

record stage_table =
  st_name :: "byte list"
  st_serial :: bool
  st_env :: "byte list"
  st_output :: "(lua_value \<times> byte list \<times> int \<times> int) list"

record instance_env =
  load_ok :: bool
  boot :: "stage_table \<Rightarrow> (lua_value \<times> lua_heap) option"
  runtime :: lua_runtime
  enc_depth :: nat

section \<open>Helpers\<close>

definition upd_queue ::
  "(kernel \<Rightarrow> 'q list) \<Rightarrow> (('q list \<Rightarrow> 'q list) \<Rightarrow> kernel \<Rightarrow> kernel) \<Rightarrow> int \<Rightarrow> 'q \<Rightarrow> kernel \<Rightarrow> kernel result" where
  "upd_queue get upd s q k = rbind (array_set (get k) s q) (\<lambda>qs. Inr (upd (\<lambda>_. qs) k))"

definition try_pop_recycle :: "int \<Rightarrow> kernel \<Rightarrow> (addr option \<times> kernel) result" where
  "try_pop_recycle s k =
     rbind (array_get (recycle_queues k) s) (\<lambda>q. rbind (queue_try_pop q) (\<lambda>(r, q).
     rbind (upd_queue recycle_queues recycle_queues_update s q k) (\<lambda>k. Inr (r, k))))"

definition try_push_recycle :: "int \<Rightarrow> addr \<Rightarrow> kernel \<Rightarrow> (bool \<times> kernel) result" where
  "try_push_recycle s i k =
     rbind (array_get (recycle_queues k) s) (\<lambda>q. rbind (queue_try_push q i) (\<lambda>(r, q).
     rbind (upd_queue recycle_queues recycle_queues_update s q k) (\<lambda>k. Inr (r, k))))"

definition try_pop_event :: "int \<Rightarrow> kernel \<Rightarrow> (event option \<times> kernel) result" where
  "try_pop_event s k =
     rbind (array_get (event_queues k) s) (\<lambda>q. rbind (queue_try_pop q) (\<lambda>(r, q).
     rbind (upd_queue event_queues event_queues_update s q k) (\<lambda>k. Inr (r, k))))"

definition get_inst :: "kernel \<Rightarrow> addr \<Rightarrow> instance_data result" where
  "get_inst k i = (if i = 0 then Inl NullDeref
     else case insts k i of None \<Rightarrow> Inl UseAfterFree | Some d \<Rightarrow> Inr d)"

definition set_inst :: "addr \<Rightarrow> instance_data \<Rightarrow> kernel \<Rightarrow> kernel" where
  "set_inst i d k = k\<lparr>insts := (insts k)(i \<mapsto> d)\<rparr>"

definition upd_inst :: "addr \<Rightarrow> (instance_data \<Rightarrow> instance_data) \<Rightarrow> kernel \<Rightarrow> kernel result" where
  "upd_inst i f k = rbind (get_inst k i) (\<lambda>d. Inr (set_inst i (f d) k))"

definition on_stats :: "(stats \<Rightarrow> stats result) \<Rightarrow> kernel \<Rightarrow> kernel result" where
  "on_stats f k = rbind (f (kstats k)) (\<lambda>st. Inr (k\<lparr>kstats := st\<rparr>))"

definition STATS_ACTIVE :: "int \<Rightarrow> kernel \<Rightarrow> kernel result" where
  "STATS_ACTIVE s = on_stats (stats_active_instance s)"

definition STATS_INACTIVE :: "int \<Rightarrow> kernel \<Rightarrow> kernel result" where
  "STATS_INACTIVE s = on_stats (stats_inactive_instance s)"

definition STATS_UPDATE_TIME :: "int \<Rightarrow> int \<Rightarrow> kernel \<Rightarrow> kernel result" where
  "STATS_UPDATE_TIME s t = on_stats (stats_update_time s (of_int t))"

section \<open>Operations\<close>

definition instance_destroy :: "int \<Rightarrow> addr \<Rightarrow> kernel \<Rightarrow> kernel result" where
  "instance_destroy now i k =
     rbind (get_inst k i) (\<lambda>d.
     rbind (array_upd (number_of_instances k) (i_stage d) (\<lambda>n. SUB n 1)) (\<lambda>ns.
     rbind (STATS_UPDATE_TIME (i_stage d) (now - i_init_time d) (k\<lparr>number_of_instances := ns\<rparr>)) (\<lambda>k.
     Inr (k\<lparr>insts := (insts k)(i := None)\<rparr>))))"

text \<open>
  \<open>instance_init\<close>: the limits arrive as \<open>size_t\<close>, are truncated to \<open>int\<close> for the
  queues and kept as \<open>long\<close> in the atomics.
\<close>

definition new_queue :: "int \<Rightarrow> 'a LFQueue" where
  "new_queue cap = queue_set_capacity (the (queue_new True)) cap"

definition instance_init :: "graph_data \<Rightarrow> stats \<Rightarrow> c_long \<Rightarrow> c_long \<Rightarrow> kernel result" where
  "instance_init g st recycle_limit_t pending_limit_t =
     rbind (for_each (\<lambda>i rows. rbind (STAGE g (int i)) (\<lambda>sd. Inr (rows @ [sd_serial sd]))) [0..<n_s g] [])
       (\<lambda>serials. Inr
        \<lparr>main_graph = g,
         recycle_queues = map (\<lambda>b. new_queue (if b then 1 else c_int (uint recycle_limit_t))) serials,
         event_queues = map (\<lambda>_. new_queue (c_int (uint pending_limit_t))) serials,
         recycle_queue_limits = map (\<lambda>b. atomic_new (if b then 1 else recycle_limit_t)) serials,
         number_of_instances = map (\<lambda>_. atomic_new 0) serials,
         ready_queue = new_queue (-1), insts = Map.empty, next_inst = 1, kstats = st\<rparr>)"

definition instance_try_push_pending_event :: "int \<Rightarrow> event \<Rightarrow> kernel \<Rightarrow> (bool \<times> kernel) result" where
  "instance_try_push_pending_event dst e k =
     rbind (array_get (event_queues k) dst) (\<lambda>q. rbind (queue_try_push q e) (\<lambda>(r, q).
     rbind (upd_queue event_queues event_queues_update dst q k) (\<lambda>k. Inr (r, k))))"

text \<open>\<open>push_ready_queue\<close>: blocks when the ready queue is full; \<open>NULL\<close> asks a thread to end.\<close>

definition push_ready_queue :: "addr option \<Rightarrow> kernel \<Rightarrow> kernel call result" where
  "push_ready_queue i k =
     rbind (queue_try_push (ready_queue k) i) (\<lambda>(ret, q).
     if ret then Inr (Returned (k\<lparr>ready_queue := q\<rparr>))
     else rbind (queue_push q i) (\<lambda>c. case c of
            Waiting q \<Rightarrow> Inr (Waiting (k\<lparr>ready_queue := q\<rparr>))
          | Returned q \<Rightarrow> Inr (Returned (k\<lparr>ready_queue := q\<rparr>))))"

definition restore_into :: "lua_runtime \<Rightarrow> event \<Rightarrow> instance_data \<Rightarrow> instance_data result" where
  "restore_into rt e d =
     rbind (restore_event_to_lua_state rt e (stack (i_L d), i_heap d)) (\<lambda>((st, h), n, _).
     Inr (d\<lparr>i_L := (i_L d)\<lparr>stack := st\<rparr>, i_heap := h, i_args := n\<rparr>))"

text \<open>
  The two functions a handler calls to fetch a pending event itself: the values
  are pushed on its stack and their number is returned.
\<close>

definition instance_wait_for_event ::
  "instance_env \<Rightarrow> addr \<Rightarrow> kernel \<Rightarrow> (nat option \<times> kernel) result" where
  "instance_wait_for_event env i k =
     rbind (get_inst k i) (\<lambda>d. rbind (array_get (event_queues k) (i_stage d)) (\<lambda>q.
     rbind (queue_pop q) (\<lambda>c. case c of
       PopWaiting q \<Rightarrow> rbind (upd_queue event_queues event_queues_update (i_stage d) q k) (\<lambda>k. Inr (None, k))
     | Popped e q \<Rightarrow> rbind (upd_queue event_queues event_queues_update (i_stage d) q k) (\<lambda>k.
         rbind (restore_into (runtime env) e d) (\<lambda>d'.
         Inr (Some (i_args d'), set_inst i (d'\<lparr>i_args := i_args d\<rparr>) k))))))"

definition instance_peek_for_event ::
  "instance_env \<Rightarrow> addr \<Rightarrow> kernel \<Rightarrow> (nat \<times> kernel) result" where
  "instance_peek_for_event env i k =
     rbind (get_inst k i) (\<lambda>d. rbind (try_pop_event (i_stage d) k) (\<lambda>(r, k). case r of
       Some e \<Rightarrow> rbind (restore_into (runtime env) e d) (\<lambda>d'.
         Inr (i_args d', set_inst i (d'\<lparr>i_args := i_args d\<rparr>) k))
     | None \<Rightarrow> Inr (2, set_inst i (d\<lparr>i_L := (i_L d)\<lparr>stack :=
         stack (i_L d) @ [LNil, LString (lit ''No pending events available'')]\<rparr>\<rparr>) k)))"

text \<open>
  The table of the stage that a new state receives; an output key that is \<open>NULL\<close> is pushed as nil and refused as a key.
\<close>

definition output_entry ::
  "graph_data \<Rightarrow> key \<Rightarrow> (lua_value \<times> byte list \<times> int \<times> int) result" where
  "output_entry g kv = rbind (CONNECTOR g (snd kv)) (\<lambda>c.
     case fst kv of
       None \<Rightarrow> Inl (LuaError ''index is nil'')
     | Some (KString s) \<Rightarrow> Inr (LString (c_string s), cd_send c, snd kv, cd_c c)
     | Some (KNumber n) \<Rightarrow> Inr (LNumber n, cd_send c, snd kv, cd_c c))"

definition stage_table_of :: "graph_data \<Rightarrow> int \<Rightarrow> stage_table result" where
  "stage_table_of g s = rbind (STAGE g s) (\<lambda>sd.
     rbind (for_each (\<lambda>kv out. rbind (output_entry g kv) (\<lambda>e. Inr (out @ [e]))) (sd_output sd) []) (\<lambda>out.
     Inr \<lparr>st_name = c_string (sd_name sd), st_serial = sd_serial sd, st_env = sd_env sd, st_output = out\<rparr>))"

definition fresh_instance :: "int \<Rightarrow> c_long \<Rightarrow> instance_data" where
  "fresh_instance s n = \<lparr>i_L = \<lparr>stack = [], handler = LNil\<rparr>,
     i_heap = \<lparr>tabs = Map.empty, funs = Map.empty, uds = Map.empty, nexta = 1\<rparr>, i_stage = s, i_args = 0,
     i_number = n, i_init_time = 0, i_con_id = 0, i_packed = None, i_communication_time = 0, i_last_proc = 0\<rparr>"

text \<open>
  Creation of an instance. When the chunk does not load the function returns at
  once; when the stage's initialisation fails the instance is destroyed.
\<close>

definition instance_create :: "instance_env \<Rightarrow> int \<Rightarrow> int \<Rightarrow> kernel \<Rightarrow> (addr option \<times> kernel) result" where
  "instance_create env now s k =
     rbind (STATS_ACTIVE s k) (\<lambda>k.
     rbind (array_upd (number_of_instances k) s (\<lambda>n. ADD n 1)) (\<lambda>ns.
     rbind (array_get ns s) (\<lambda>n.
     let i = next_inst k; d = fresh_instance s (READ n);
         k = set_inst i d (k\<lparr>number_of_instances := ns, next_inst := Suc i\<rparr>) in
     if \<not> load_ok env then Inr (None, k)
     else rbind (stage_table_of (main_graph k) s) (\<lambda>tab.
       case boot env tab of
         None \<Rightarrow> rbind (instance_destroy now i k) (\<lambda>k. Inr (None, k))
       | Some (hnd, hp) \<Rightarrow> Inr (Some i, set_inst i
           (d\<lparr>i_L := \<lparr>stack = [], handler = hnd\<rparr>, i_heap := hp, i_init_time := now\<rparr>) k)))))"

definition instance_aquire :: "instance_env \<Rightarrow> int \<Rightarrow> int \<Rightarrow> kernel \<Rightarrow> (addr option \<times> kernel) result" where
  "instance_aquire env now s k =
     (if size_of_int s > int (n_s (main_graph k)) then Inr (None, k)
      else rbind (try_pop_recycle s k) (\<lambda>(r, k). case r of
        Some i \<Rightarrow> rbind (upd_inst i (\<lambda>d. d\<lparr>i_init_time := now\<rparr>) k) (\<lambda>k.
          rbind (get_inst k i) (\<lambda>d. rbind (STATS_ACTIVE (i_stage d) k) (\<lambda>k. Inr (Some i, k))))
      | None \<Rightarrow>
          rbind (array_get (number_of_instances k) s) (\<lambda>n. rbind (array_get (recycle_queue_limits k) s) (\<lambda>l.
          if READ n = READ l then Inr (None, k) else instance_create env now s k))))"

definition instance_wait :: "instance_env \<Rightarrow> int \<Rightarrow> int \<Rightarrow> kernel \<Rightarrow> (addr option \<times> kernel) result" where
  "instance_wait env now s k =
     rbind (instance_aquire env now s k) (\<lambda>(r, k).
     let finish = (\<lambda>i k. rbind (upd_inst i (\<lambda>d. d\<lparr>i_init_time := now\<rparr>) k) (\<lambda>k.
           rbind (get_inst k i) (\<lambda>d. rbind (STATS_ACTIVE (i_stage d) k) (\<lambda>k. Inr (Some i, k))))) in
     case r of Some i \<Rightarrow> finish i k
     | None \<Rightarrow> rbind (array_get (recycle_queues k) s) (\<lambda>q. rbind (queue_pop q) (\<lambda>c. case c of
         PopWaiting q \<Rightarrow> rbind (upd_queue recycle_queues recycle_queues_update s q k) (\<lambda>k. Inr (None, k))
       | Popped i q \<Rightarrow> rbind (upd_queue recycle_queues recycle_queues_update s q k) (finish i))))"

definition event_queue_size :: "int \<Rightarrow> kernel \<Rightarrow> int result" where
  "event_queue_size s k = rbind (array_get (event_queues k) s) (\<lambda>q. Inr (fst (queue_size q)))"

definition recycle_queue_capacity :: "int \<Rightarrow> kernel \<Rightarrow> int result" where
  "recycle_queue_capacity s k = rbind (array_get (recycle_queues k) s) (\<lambda>q. Inr (queue_capacity q))"

definition event_queue_capacity :: "int \<Rightarrow> kernel \<Rightarrow> int result" where
  "event_queue_capacity s k = rbind (array_get (event_queues k) s) (\<lambda>q. Inr (queue_capacity q))"

text \<open>
  \<open>instance_release\<close>: the return code is 0 unless the instance did not fit into the
  recycle queue and was destroyed.
\<close>

definition instance_release :: "instance_env \<Rightarrow> int \<Rightarrow> addr \<Rightarrow> kernel \<Rightarrow> (int \<times> kernel) call result" where
  "instance_release env now i k =
     rbind (upd_inst i (\<lambda>d. d\<lparr>i_L := (i_L d)\<lparr>stack := []\<rparr>\<rparr>) k) (\<lambda>k.
     rbind (get_inst k i) (\<lambda>d.
     rbind (STATS_UPDATE_TIME (i_stage d) (now - i_init_time d) k) (\<lambda>k.
     rbind (try_pop_event (i_stage d) k) (\<lambda>(r, k). case r of
       Some e \<Rightarrow>
         rbind (STATS_INACTIVE (i_stage d) k) (\<lambda>k. rbind (STATS_ACTIVE (i_stage d) k) (\<lambda>k.
         rbind (restore_into (runtime env) e (d\<lparr>i_L := load_handler [] (i_L d), i_init_time := now\<rparr>)) (\<lambda>d.
         rbind (push_ready_queue (Some i) (set_inst i d k)) (\<lambda>c. case c of
           Waiting k \<Rightarrow> Inr (Waiting (0, k)) | Returned k \<Rightarrow> Inr (Returned (0, k))))))
     | None \<Rightarrow>
         rbind (STATS_INACTIVE (i_stage d) k) (\<lambda>k.
         rbind (try_push_recycle (i_stage d) i k) (\<lambda>(ok, k).
         if ok then Inr (Returned (0, k))
         else rbind (instance_destroy now i k) (\<lambda>k. Inr (Returned (-1, k)))))))))"

text \<open>
  The Lua functions that set limits: the argument stack, and the values pushed.
\<close>

definition lua_fail :: "string \<Rightarrow> lua_value list" where
  "lua_fail msg = [LNil, LString (lit msg)]"

definition leda_set_capacity ::
  "(byte list \<Rightarrow> lua_Number option) \<Rightarrow> lua_value list \<Rightarrow> kernel \<Rightarrow> (lua_value list \<times> kernel) result" where
  "leda_set_capacity conv st k =
     (let i = c_int (lua_tointeger conv st 1); cap = c_int (lua_tointeger conv st 2) in
      if i < 0 then Inr ([LBoolean True], k\<lparr>ready_queue := queue_set_capacity (ready_queue k) cap\<rparr>)
      else if i \<ge> int (n_s (main_graph k)) then Inr (lua_fail ''Invalid stage id'', k)
      else rbind (array_get (event_queues k) i) (\<lambda>q.
        rbind (upd_queue event_queues event_queues_update i (queue_set_capacity q cap) k) (\<lambda>k.
        Inr ([LBoolean True], k))))"

definition set_limit :: "int \<Rightarrow> int \<Rightarrow> kernel \<Rightarrow> kernel result" where
  "set_limit cap i k =
     rbind (array_get (recycle_queues k) i) (\<lambda>q.
     rbind (upd_queue recycle_queues recycle_queues_update i (queue_set_capacity q cap) k) (\<lambda>k.
     rbind (array_upd (recycle_queue_limits k) i (\<lambda>l. STORE l (of_int cap))) (\<lambda>ls.
     Inr (k\<lparr>recycle_queue_limits := ls\<rparr>))))"

definition instance_set_maxpar ::
  "(byte list \<Rightarrow> lua_Number option) \<Rightarrow> lua_value list \<Rightarrow> kernel \<Rightarrow> (lua_value list \<times> kernel) result" where
  "instance_set_maxpar conv st k =
     (let i = c_int (lua_tointeger conv st 1); ns = n_s (main_graph k) in
      if \<not> lua_isnumber conv st 2 then
        if i < -1 then Inr (lua_fail ''Invalid value'', k)
        else rbind (for_each (\<lambda>j k. rbind (STAGE (main_graph k) (int j)) (\<lambda>sd.
               if sd_serial sd then Inr k else set_limit i (int j) k)) [0..<ns] k) (\<lambda>k.
             Inr ([LBoolean True], k))
      else let cap = c_int (lua_tointeger conv st 2) in
        if cap < -1 then Inr (lua_fail ''Invalid value'', k)
        else if i < 0 \<or> i \<ge> int ns then Inr (lua_fail ''Invalid stage id'', k)
        else rbind (STAGE (main_graph k) i) (\<lambda>sd.
          if sd_serial sd then Inr (lua_fail ''Cannot change maxpar of a serial stage'', k)
          else rbind (set_limit cap i k) (\<lambda>k. Inr ([LBoolean True], k))))"

text \<open>
  \<open>instance_end\<close>: the queues are freed one after the other; freeing a queue may not
  return (\<open>None\<close>).
\<close>

fun instance_end_loop :: "(addr LFQueue \<times> event LFQueue) list \<Rightarrow> unit result option" where
  "instance_end_loop [] = Some (Inr ())"
| "instance_end_loop ((rq, eq) # qs) =
     (case queue_free rq of None \<Rightarrow> None | Some (Inl f) \<Rightarrow> Some (Inl f) | Some (Inr _) \<Rightarrow>
      (case queue_free eq of None \<Rightarrow> None | Some (Inl f) \<Rightarrow> Some (Inl f) | Some (Inr _) \<Rightarrow>
       instance_end_loop qs))"

definition instance_end :: "kernel \<Rightarrow> unit result option" where
  "instance_end k =
     (case instance_end_loop (zip (recycle_queues k) (event_queues k)) of
        None \<Rightarrow> None | Some (Inl f) \<Rightarrow> Some (Inl f)
      | Some (Inr _) \<Rightarrow> (case queue_free (ready_queue k) of
          None \<Rightarrow> None | Some (Inl f) \<Rightarrow> Some (Inl f) | Some (Inr _) \<Rightarrow> Some (Inr ())))"

section \<open>Counting instances\<close>

text \<open>The operations on the instance subsystem, as calls that run one after the other.\<close>

datatype kop =
    Aquire int int
  | Wait int int
  | Release int addr
  | Destroy int addr
  | PushPending int event
  | PushReady "addr option"
  | SetCapacity_op "lua_value list"
  | SetMaxpar "lua_value list"

definition call_state :: "'a call \<Rightarrow> 'a" where
  "call_state c = (case c of Waiting x \<Rightarrow> x | Returned x \<Rightarrow> x)"

definition kexec :: "instance_env \<Rightarrow> (byte list \<Rightarrow> lua_Number option) \<Rightarrow> kop \<Rightarrow> kernel \<Rightarrow> kernel result" where
  "kexec env conv op k = (case op of
     Aquire now s \<Rightarrow> rbind (instance_aquire env now s k) (\<lambda>(_, k). Inr k)
   | Wait now s \<Rightarrow> rbind (instance_wait env now s k) (\<lambda>(_, k). Inr k)
   | Release now i \<Rightarrow> rbind (instance_release env now i k) (\<lambda>c. Inr (snd (call_state c)))
   | Destroy now i \<Rightarrow> instance_destroy now i k
   | PushPending s e \<Rightarrow> rbind (instance_try_push_pending_event s e k) (\<lambda>(_, k). Inr k)
   | PushReady i \<Rightarrow> rbind (push_ready_queue i k) (\<lambda>c. Inr (call_state c))
   | SetCapacity_op st \<Rightarrow> rbind (leda_set_capacity conv st k) (\<lambda>(_, k). Inr k)
   | SetMaxpar st \<Rightarrow> rbind (instance_set_maxpar conv st k) (\<lambda>(_, k). Inr k))"

text \<open>The instances that exist for a stage, and the invariant of their counter.\<close>

definition live :: "kernel \<Rightarrow> nat \<Rightarrow> addr set" where
  "live k s = {i. \<exists>d. insts k i = Some d \<and> i_stage d = int s}"

definition count_inv :: "kernel \<Rightarrow> bool" where
  "count_inv k \<longleftrightarrow> (\<forall>i \<ge> next_inst k. insts k i = None) \<and> insts k 0 = None \<and> 0 < next_inst k \<and>
     length (number_of_instances k) = n_s (main_graph k) \<and>
     (\<forall>i d. insts k i = Some d \<longrightarrow> 0 \<le> i_stage d \<and> i_stage d < int (n_s (main_graph k))) \<and>
     (\<forall>s < n_s (main_graph k). READ (number_of_instances k ! s) = of_nat (card (live k s)))"

definition is_serial :: "kernel \<Rightarrow> nat \<Rightarrow> bool" where
  "is_serial k s \<longleftrightarrow> (case STAGE (main_graph k) (int s) of Inl _ \<Rightarrow> False | Inr sd \<Rightarrow> sd_serial sd)"

definition serial_inv :: "kernel \<Rightarrow> bool" where
  "serial_inv k \<longleftrightarrow> length (recycle_queue_limits k) = n_s (main_graph k) \<and>
     (\<forall>s < n_s (main_graph k). is_serial k s \<longrightarrow>
        READ (recycle_queue_limits k ! s) = 1 \<and> card (live k s) \<le> 1)"

definition kinv :: "kernel \<Rightarrow> bool" where
  "kinv k \<longleftrightarrow> count_inv k \<and> serial_inv k"

text \<open>What an operation may change without touching the counted state.\<close>

definition same_count :: "kernel \<Rightarrow> kernel \<Rightarrow> bool" where
  "same_count k k' \<longleftrightarrow> main_graph k' = main_graph k \<and> number_of_instances k' = number_of_instances k \<and>
     recycle_queue_limits k' = recycle_queue_limits k \<and> next_inst k' = next_inst k \<and>
     (\<forall>i. map_option i_stage (insts k' i) = map_option i_stage (insts k i))"

lemma same_count_refl [simp]: "same_count k k"
  by (simp add: same_count_def)

lemma same_count_trans: "same_count k k1 \<Longrightarrow> same_count k1 k2 \<Longrightarrow> same_count k k2"
  by (simp add: same_count_def)

lemma same_count_live: "same_count k k' \<Longrightarrow> live k' s = live k s"
proof -
  assume "same_count k k'"
  then have m: "map_option i_stage (insts k' i) = map_option i_stage (insts k i)" for i by (simp add: same_count_def)
  have "(\<exists>d. insts k' i = Some d \<and> i_stage d = int s) \<longleftrightarrow> (\<exists>d. insts k i = Some d \<and> i_stage d = int s)" for i
    using m [of i] by (cases "insts k i"; cases "insts k' i") auto
  then show ?thesis by (simp add: live_def)
qed

lemma same_count_kinv: "same_count k k' \<Longrightarrow> kinv k \<Longrightarrow> kinv k'"
proof -
  assume s: "same_count k k'" and k: "kinv k"
  have m: "map_option i_stage (insts k' i) = map_option i_stage (insts k i)" for i using s by (simp add: same_count_def)
  have "insts k' i = None \<longleftrightarrow> insts k i = None" for i using m [of i] by (metis map_option_is_None)
  moreover have "0 \<le> i_stage d \<and> i_stage d < int (n_s (main_graph k))" if "insts k' i = Some d" for i d
    using m [of i] that k by (cases "insts k i") (auto simp: kinv_def count_inv_def)
  ultimately show ?thesis using s k same_count_live [OF s]
    unfolding kinv_def count_inv_def serial_inv_def is_serial_def same_count_def by simp
qed

lemma same_count_upds [simp]:
  "same_count k (k\<lparr>recycle_queues := x\<rparr>)" "same_count k (k\<lparr>event_queues := y\<rparr>)"
  "same_count k (k\<lparr>ready_queue := z\<rparr>)" "same_count k (k\<lparr>kstats := w\<rparr>)"
  by (simp_all add: same_count_def)

lemma on_stats_same: "on_stats f k = Inr k' \<Longrightarrow> same_count k k' \<and> insts k' = insts k"
  by (auto simp: on_stats_def rbind_Inr_iff)

lemmas stats_same = on_stats_same [of "stats_active_instance s" for s, folded STATS_ACTIVE_def]
  on_stats_same [of "stats_inactive_instance s" for s, folded STATS_INACTIVE_def]
  on_stats_same [of "stats_update_time s (of_int t)" for s t, folded STATS_UPDATE_TIME_def]

lemma upd_queue_same:
  "upd_queue recycle_queues recycle_queues_update s q k = Inr k' \<Longrightarrow> same_count k k' \<and> insts k' = insts k"
  "upd_queue event_queues event_queues_update s q' k = Inr k' \<Longrightarrow> same_count k k' \<and> insts k' = insts k"
  by (auto simp: upd_queue_def rbind_Inr_iff)

lemma queue_steps_same:
  "try_pop_recycle s k = Inr (r, k') \<Longrightarrow> same_count k k' \<and> insts k' = insts k"
  "try_push_recycle s i k = Inr (b, k') \<Longrightarrow> same_count k k' \<and> insts k' = insts k"
  "try_pop_event s k = Inr (e, k') \<Longrightarrow> same_count k k' \<and> insts k' = insts k"
  "instance_try_push_pending_event s ev k = Inr (b, k') \<Longrightarrow> same_count k k' \<and> insts k' = insts k"
  by (auto simp: try_pop_recycle_def try_push_recycle_def try_pop_event_def instance_try_push_pending_event_def
      rbind_Inr_iff dest!: upd_queue_same)

lemma push_ready_same: "push_ready_queue i k = Inr c \<Longrightarrow> same_count k (call_state c) \<and> insts (call_state c) = insts k"
proof -
  assume p: "push_ready_queue i k = Inr c"
  then obtain ret q where t: "queue_try_push (ready_queue k) i = Inr (ret, q)"
    by (auto simp: push_ready_queue_def rbind_Inr_iff)
  show ?thesis
  proof (cases ret)
    case True
    with p t show ?thesis by (auto simp: push_ready_queue_def call_state_def)
  next
    case False
    with p t obtain c' where "queue_push q i = Inr c'" by (auto simp: push_ready_queue_def rbind_Inr_iff)
    with p t False show ?thesis by (cases c') (auto simp: push_ready_queue_def call_state_def)
  qed
qed

lemma upd_inst_same:
  "upd_inst i f k = Inr k' \<Longrightarrow> (\<And>d. i_stage (f d) = i_stage d) \<Longrightarrow> same_count k k'"
  by (auto simp: upd_inst_def set_inst_def get_inst_def same_count_def rbind_Inr_iff split: option.splits if_splits)

lemma set_inst_same: "insts k i = Some d \<Longrightarrow> i_stage d' = i_stage d \<Longrightarrow> same_count k (set_inst i d' k)"
  by (auto simp: set_inst_def same_count_def)

lemma live_finite: "count_inv k \<Longrightarrow> finite (live k s)"
proof -
  assume "count_inv k"
  then have "i < next_inst k" if "i \<in> live k s" for i
    using that by (cases "next_inst k \<le> i") (auto simp: count_inv_def live_def)
  then have "live k s \<subseteq> {..<next_inst k}" by auto
  then show ?thesis by (rule finite_subset) simp
qed

text \<open>Destroying an instance takes it out of the live ones and counts it down.\<close>

lemma destroy_effect:
  assumes "instance_destroy now i k = Inr k'" and "count_inv k"
  obtains d where "insts k i = Some d" and "insts k' = (insts k)(i := None)"
    and "main_graph k' = main_graph k" and "recycle_queue_limits k' = recycle_queue_limits k" and "next_inst k' = next_inst k"
    and "number_of_instances k' = (number_of_instances k)[nat (i_stage d) := SUB (number_of_instances k ! nat (i_stage d)) 1]"
proof -
  from assms(1) obtain d ns k1 where d: "get_inst k i = Inr d"
    and ns: "array_upd (number_of_instances k) (i_stage d) (\<lambda>n. SUB n 1) = Inr ns"
    and k1: "STATS_UPDATE_TIME (i_stage d) (now - i_init_time d) (k\<lparr>number_of_instances := ns\<rparr>) = Inr k1"
    and k': "k' = k1\<lparr>insts := (insts k1)(i := None)\<rparr>"
    by (auto simp: instance_destroy_def rbind_Inr_iff)
  from d have i: "insts k i = Some d" by (auto simp: get_inst_def split: if_splits option.splits)
  then have st: "0 \<le> i_stage d" "nat (i_stage d) < length (number_of_instances k)"
    using assms(2) by (fastforce simp: count_inv_def)+
  then have ns': "ns = (number_of_instances k)[nat (i_stage d) := SUB (number_of_instances k ! nat (i_stage d)) 1]"
    using ns by (simp add: array_upd_nat)
  from stats_same(3) [OF k1] have "same_count (k\<lparr>number_of_instances := ns\<rparr>) k1" "insts k1 = insts k" by simp_all
  with i k' ns' show thesis by (intro that [of d]) (simp_all add: same_count_def)
qed

lemma destroy_live:
  assumes "insts k i = Some d" and "insts k' = (insts k)(i := None)"
  shows "live k' s = (if i_stage d = int s then live k s - {i} else live k s)"
  using assms by (auto simp: live_def)

lemma destroy_kinv:
  assumes "instance_destroy now i k = Inr k'" and "kinv k"
  shows "kinv k'"
proof -
  have c: "count_inv k" using assms(2) by (simp add: kinv_def)
  from destroy_effect [OF assms(1) c] obtain d where d: "insts k i = Some d" "insts k' = (insts k)(i := None)"
    "main_graph k' = main_graph k" "recycle_queue_limits k' = recycle_queue_limits k" "next_inst k' = next_inst k"
    "number_of_instances k' = (number_of_instances k)[nat (i_stage d) := SUB (number_of_instances k ! nat (i_stage d)) 1]"
    by blast
  have range: "0 \<le> i_stage d" "i_stage d < int (n_s (main_graph k))" using c d(1) by (auto simp: count_inv_def)
  note lv = destroy_live [OF d(1,2)]
  have "READ (number_of_instances k' ! s) = of_nat (card (live k' s))" if s: "s < n_s (main_graph k)" for s
  proof (cases "i_stage d = int s")
    case True
    then have i: "i \<in> live k s" using d(1) by (simp add: live_def)
    have "card (live k s) = Suc (card (live k s - {i}))"
      using card.remove [OF live_finite [OF c] i] by simp
    moreover have "READ (number_of_instances k ! s) = of_nat (card (live k s))" using c s by (simp add: count_inv_def)
    ultimately show ?thesis using True s c d(6) lv by (simp add: count_inv_def)
  next
    case False
    then have "nat (i_stage d) \<noteq> s" using range(1) by auto
    with False s c d(6) lv show ?thesis by (simp add: count_inv_def)
  qed
  then have "count_inv k'" using c d unfolding count_inv_def by auto
  moreover have "card (live k' s) \<le> card (live k s)" for s
    using lv live_finite [OF c] by (auto intro: card_mono)
  then have "serial_inv k'" using assms(2) d(3,4)
    unfolding kinv_def serial_inv_def is_serial_def by (metis order_trans)
  ultimately show ?thesis by (simp add: kinv_def)
qed

text \<open>Creating an instance counts it up, and is only done below the limit of a serial stage.\<close>

lemma create_kinv:
  assumes "instance_create env now (int s) k = Inr (r, k')" and "kinv k" and s: "s < n_s (main_graph k)"
    and lim: "READ (number_of_instances k ! s) \<noteq> READ (recycle_queue_limits k ! s)"
  shows "kinv k'"
proof -
  have c: "count_inv k" and ser: "serial_inv k" using assms(2) by (simp_all add: kinv_def)
  let ?i = "next_inst k" let ?ns = "(number_of_instances k)[s := ADD (number_of_instances k ! s) 1]"
  from assms(1) obtain k1 where k1: "STATS_ACTIVE (int s) k = Inr k1"
    and rest: "(let i = next_inst k1; d = fresh_instance (int s) (READ (?ns ! s));
         k2 = set_inst i d (k1\<lparr>number_of_instances := ?ns, next_inst := Suc i\<rparr>) in
       if \<not> load_ok env then Inr (None, k2)
       else rbind (stage_table_of (main_graph k2) (int s)) (\<lambda>tab.
         case boot env tab of
           None \<Rightarrow> rbind (instance_destroy now i k2) (\<lambda>k. Inr (None, k))
         | Some (hnd, hp) \<Rightarrow> Inr (Some i, set_inst i
             (d\<lparr>i_L := \<lparr>stack = [], handler = hnd\<rparr>, i_heap := hp, i_init_time := now\<rparr>) k2))) = Inr (r, k')"
  proof -
    from assms(1) obtain k1 where k1: "STATS_ACTIVE (int s) k = Inr k1" by (auto simp: instance_create_def rbind_Inr_iff)
    then have "number_of_instances k1 = number_of_instances k" using stats_same(1) by (auto simp: same_count_def)
    moreover have "s < length (number_of_instances k)" using c s by (simp add: count_inv_def)
    ultimately show thesis using assms(1) k1 that [OF k1] by (simp add: instance_create_def)
  qed
  have k1s: "same_count k k1" "insts k1 = insts k" "next_inst k1 = ?i" "main_graph k1 = main_graph k"
    using stats_same(1) [OF k1] by (simp_all add: same_count_def)
  define d where "d = fresh_instance (int s) (READ (?ns ! s))"
  define k2 where "k2 = set_inst ?i d (k1\<lparr>number_of_instances := ?ns, next_inst := Suc ?i\<rparr>)"
  have d: "i_stage d = int s" by (simp add: d_def fresh_instance_def)
  have new: "insts k ?i = None" "0 < ?i" using c by (simp_all add: count_inv_def)
  have lv: "live k2 t = (if t = s then insert ?i (live k t) else live k t)" for t
    using new(1) d k1s by (auto simp: live_def k2_def set_inst_def)
  have ni: "?i \<notin> live k s" using new(1) by (simp add: live_def)
  have cnt: "READ (?ns ! t) = of_nat (card (live k2 t))" if "t < n_s (main_graph k)" for t
    using c that lv ni live_finite [OF c] by (cases "t = s") (auto simp: count_inv_def)
  have "count_inv k2" using c cnt new s d k1s unfolding count_inv_def
    by (auto simp: k2_def set_inst_def same_count_def)
  moreover have "serial_inv k2"
  proof -
    have "card (live k2 t) \<le> 1" if t: "t < n_s (main_graph k)" "is_serial k t" for t
    proof (cases "t = s")
      case True
      then have "READ (recycle_queue_limits k ! s) = 1" "card (live k s) \<le> 1" using ser t by (auto simp: serial_inv_def)
      moreover have "READ (number_of_instances k ! s) = of_nat (card (live k s))" using c s by (simp add: count_inv_def)
      ultimately have "card (live k s) = 0" using lim by (cases "card (live k s)") auto
      then show ?thesis using True lv ni live_finite [OF c] by simp
    next
      case False
      with ser t lv show ?thesis by (simp add: serial_inv_def)
    qed
    then show ?thesis using ser k1s unfolding serial_inv_def
      by (simp add: k2_def set_inst_def same_count_def is_serial_def)
  qed
  ultimately have inv2: "kinv k2" by (simp add: kinv_def)
  have fin: "(if \<not> load_ok env then Inr (None, k2)
      else rbind (stage_table_of (main_graph k2) (int s)) (\<lambda>tab. case boot env tab of
         None \<Rightarrow> rbind (instance_destroy now ?i k2) (\<lambda>k. Inr (None, k))
       | Some (hnd, hp) \<Rightarrow> Inr (Some ?i, set_inst ?i
           (d\<lparr>i_L := \<lparr>stack = [], handler = hnd\<rparr>, i_heap := hp, i_init_time := now\<rparr>) k2))) = Inr (r, k')"
    using rest unfolding k2_def d_def Let_def k1s(3) .
  have "k' = k2 \<or> instance_destroy now ?i k2 = Inr k' \<or>
      (\<exists>l hp. k' = set_inst ?i (d\<lparr>i_L := l, i_heap := hp, i_init_time := now\<rparr>) k2)"
  proof (cases "load_ok env")
    case True
    with fin obtain tab where "(case boot env tab of
         None \<Rightarrow> rbind (instance_destroy now ?i k2) (\<lambda>k. Inr (None, k))
       | Some (hnd, hp) \<Rightarrow> Inr (Some ?i, set_inst ?i
           (d\<lparr>i_L := \<lparr>stack = [], handler = hnd\<rparr>, i_heap := hp, i_init_time := now\<rparr>) k2)) = Inr (r, k')"
      by (auto elim!: rbind_InrE)
    then show ?thesis by (cases "boot env tab") (auto simp: rbind_Inr_iff)
  qed (use fin in simp)
  moreover have "same_count k2 (set_inst ?i (d\<lparr>i_L := l, i_heap := hp, i_init_time := now\<rparr>) k2)" for l hp
    by (intro set_inst_same [of k2 ?i d]) (simp_all add: k2_def set_inst_def)
  ultimately show ?thesis using inv2 destroy_kinv same_count_kinv by blast
qed

lemma size_of_int_le: "\<not> size_of_int s > int n \<Longrightarrow> - (2 ^ 63) \<le> s \<Longrightarrow> n < 2 ^ 63 \<Longrightarrow> 0 \<le> s"
proof (rule ccontr)
  assume a: "\<not> size_of_int s > int n" "- (2 ^ 63) \<le> s" "n < 2 ^ 63" "\<not> 0 \<le> s"
  then have "(s + 2 ^ 64) mod 2 ^ 64 = s + 2 ^ 64" by (intro mod_pos_pos_trivial) auto
  then have "s mod 2 ^ 64 = s + 2 ^ 64" by (simp only: mod_add_self2)
  with a show False by (simp add: size_of_int_def)
qed

lemma aquire_kinv:
  assumes a: "instance_aquire env now s k = Inr (r, k')" and inv: "kinv k"
  shows "kinv k'"
proof (cases "size_of_int s > int (n_s (main_graph k))")
  case True
  with a inv show ?thesis by (simp add: instance_aquire_def)
next
  case False
  with a obtain r1 k1 where p: "try_pop_recycle s k = Inr (r1, k1)" by (auto simp: instance_aquire_def rbind_Inr_iff)
  have k1: "same_count k k1" "insts k1 = insts k" using queue_steps_same(1) [OF p] by simp_all
  have inv1: "kinv k1" using same_count_kinv [OF k1(1) inv] .
  show ?thesis
  proof (cases r1)
    case (Some i)
    with a p False obtain k2 d where "upd_inst i (\<lambda>d. d\<lparr>i_init_time := now\<rparr>) k1 = Inr k2"
      "get_inst k2 i = Inr d" "STATS_ACTIVE (i_stage d) k2 = Inr k'" by (auto simp: instance_aquire_def rbind_Inr_iff)
    then have "same_count k1 k2" "same_count k2 k'" using upd_inst_same stats_same(1) by auto
    then show ?thesis using inv1 same_count_kinv by blast
  next
    case None
    with a p False obtain n l where n: "array_get (number_of_instances k1) s = Inr n"
      "array_get (recycle_queue_limits k1) s = Inr l"
      and r: "(if READ n = READ l then Inr (None, k1) else instance_create env now s k1) = Inr (r, k')"
      by (auto simp: instance_aquire_def rbind_Inr_iff)
    from n have s: "0 \<le> s" "nat s < length (number_of_instances k1)" "n = number_of_instances k1 ! nat s"
      "l = recycle_queue_limits k1 ! nat s" by (auto simp: array_get_Inr_iff)
    then have "nat s < n_s (main_graph k1)" using inv1 by (simp add: kinv_def count_inv_def)
    with r s inv1 create_kinv [of env now "nat s" k1 r k'] show ?thesis by (auto split: if_splits)
  qed
qed

lemma wait_kinv:
  assumes a: "instance_wait env now s k = Inr (r, k')" and inv: "kinv k"
  shows "kinv k'"
proof -
  let ?fin = "\<lambda>i k. rbind (upd_inst i (\<lambda>d. d\<lparr>i_init_time := now\<rparr>) k) (\<lambda>k.
           rbind (get_inst k i) (\<lambda>d. rbind (STATS_ACTIVE (i_stage d) k) (\<lambda>k. Inr (Some i, k))))"
  have fin: "same_count k1 k2" if "?fin i k1 = Inr (r, k2)" for i k1 k2
  proof -
    from that obtain k3 d where "upd_inst i (\<lambda>d. d\<lparr>i_init_time := now\<rparr>) k1 = Inr k3"
      "get_inst k3 i = Inr d" "STATS_ACTIVE (i_stage d) k3 = Inr k2" by (auto simp: rbind_Inr_iff)
    then have "same_count k1 k3" "same_count k3 k2" using upd_inst_same stats_same(1) by auto
    then show ?thesis by (rule same_count_trans)
  qed
  from a obtain r1 k1 where q: "instance_aquire env now s k = Inr (r1, k1)" by (auto simp: instance_wait_def rbind_Inr_iff)
  have inv1: "kinv k1" using aquire_kinv [OF q inv] .
  show ?thesis
  proof (cases r1)
    case (Some i)
    with a q have "?fin i k1 = Inr (r, k')" by (simp add: instance_wait_def)
    from fin [OF this] inv1 show ?thesis using same_count_kinv by blast
  next
    case None
    with a q obtain q0 c where c: "array_get (recycle_queues k1) s = Inr q0" "queue_pop q0 = Inr c"
      by (auto simp: instance_wait_def rbind_Inr_iff)
    show ?thesis
    proof (cases c)
      case (PopWaiting q1)
      with a q None c have "upd_queue recycle_queues recycle_queues_update s q1 k1 = Inr k'"
        by (auto simp: instance_wait_def rbind_Inr_iff)
      then show ?thesis using inv1 same_count_kinv upd_queue_same(1) by blast
    next
      case (Popped i q1)
      with a q None c obtain k2 where "upd_queue recycle_queues recycle_queues_update s q1 k1 = Inr k2"
        "?fin i k2 = Inr (r, k')" by (auto simp: instance_wait_def Let_def elim!: rbind_InrE)
      then show ?thesis using inv1 same_count_kinv upd_queue_same(1) fin by blast
    qed
  qed
qed


lemma restore_into_stage: "restore_into rt e d = Inr d' \<Longrightarrow> i_stage d' = i_stage d"
  by (auto simp: restore_into_def rbind_Inr_iff)

lemma release_kinv:
  assumes a: "instance_release env now i k = Inr c" and inv: "kinv k"
  shows "kinv (snd (call_state c))"
proof -
  from a obtain k1 d k2 r k3 where k1: "upd_inst i (\<lambda>d. d\<lparr>i_L := (i_L d)\<lparr>stack := []\<rparr>\<rparr>) k = Inr k1"
    and d: "get_inst k1 i = Inr d" and k2: "STATS_UPDATE_TIME (i_stage d) (now - i_init_time d) k1 = Inr k2"
    and p: "try_pop_event (i_stage d) k2 = Inr (r, k3)"
    by (auto simp: instance_release_def rbind_Inr_iff)
  have "same_count k k1" by (rule upd_inst_same [OF k1]) simp
  with stats_same(3) [OF k2] queue_steps_same(3) [OF p] have s3: "same_count k k3" "insts k3 = insts k1"
    using same_count_trans by (blast, simp)
  from d have i: "insts k1 i = Some d" by (auto simp: get_inst_def split: if_splits option.splits)
  note unf = instance_release_def k1 d k2 p
  show ?thesis
  proof (cases r)
    case None
    with a unf obtain k4 b k5 where k4: "STATS_INACTIVE (i_stage d) k3 = Inr k4"
      and q: "try_push_recycle (i_stage d) i k4 = Inr (b, k5)"
      and fin: "(if b then Inr (Returned (0, k5))
         else rbind (instance_destroy now i k5) (\<lambda>k. Inr (Returned (-1, k)))) = Inr c"
      by (auto simp: rbind_Inr_iff)
    have "same_count k k5" using s3(1) stats_same(2) [OF k4] queue_steps_same(2) [OF q] same_count_trans by blast
    then have "kinv k5" using inv same_count_kinv by blast
    with fin show ?thesis by (auto simp: call_state_def rbind_Inr_iff split: if_splits intro: destroy_kinv)
  next
    case (Some e)
    with a have "rbind (STATS_INACTIVE (i_stage d) k3) (\<lambda>k. rbind (STATS_ACTIVE (i_stage d) k) (\<lambda>k.
         rbind (restore_into (runtime env) e (d\<lparr>i_L := load_handler [] (i_L d), i_init_time := now\<rparr>)) (\<lambda>d.
         rbind (push_ready_queue (Some i) (set_inst i d k)) (\<lambda>c. case c of
           Waiting k \<Rightarrow> Inr (Waiting (0, k)) | Returned k \<Rightarrow> Inr (Returned (0, k)))))) = Inr c"
      by (simp add: unf)
    then obtain k4 k5 d' c' where k4: "STATS_INACTIVE (i_stage d) k3 = Inr k4" "STATS_ACTIVE (i_stage d) k4 = Inr k5"
      and d': "restore_into (runtime env) e (d\<lparr>i_L := load_handler [] (i_L d), i_init_time := now\<rparr>) = Inr d'"
      and q: "push_ready_queue (Some i) (set_inst i d' k5) = Inr c'"
      and fin: "(case c' of Waiting k \<Rightarrow> Inr (Waiting (0, k)) | Returned k \<Rightarrow> Inr (Returned (0, k))) =
        (Inr c :: (int \<times> kernel) call result)"
      by (elim rbind_InrE) (rule that)
    have k5: "same_count k k5" "insts k5 i = Some d"
      using s3 i stats_same(2) [OF k4(1)] stats_same(1) [OF k4(2)] same_count_trans by (blast, simp)
    have "same_count k5 (set_inst i d' k5)"
      using restore_into_stage [OF d'] by (intro set_inst_same [OF k5(2)]) simp
    then have "same_count k (call_state c')" using k5(1) push_ready_same [OF q] same_count_trans by blast
    then have "kinv (call_state c')" using inv same_count_kinv by blast
    with fin show ?thesis by (cases c') (auto simp: call_state_def)
  qed
qed

lemma set_limit_kinv:
  assumes "set_limit cap (int i) k = Inr k'" and "kinv k" and "\<not> is_serial k i"
  shows "kinv k'" and "main_graph k' = main_graph k"
proof -
  from assms(1) obtain q k1 ls where k1: "upd_queue recycle_queues recycle_queues_update (int i) q k = Inr k1"
    and ls: "array_upd (recycle_queue_limits k1) (int i) (\<lambda>l. STORE l (of_int cap)) = Inr ls"
    and k': "k' = k1\<lparr>recycle_queue_limits := ls\<rparr>" by (auto simp: set_limit_def rbind_Inr_iff)
  have same: "same_count k k1" using upd_queue_same(1) [OF k1] by simp
  have inv1: "kinv k1" using same assms(2) same_count_kinv by blast
  from ls have ls': "i < length (recycle_queue_limits k1)"
    "ls = (recycle_queue_limits k1)[i := STORE (recycle_queue_limits k1 ! i) (of_int cap)]"
    by (auto simp: array_upd_def rbind_Inr_iff array_get_Inr_iff array_set_Inr_iff)
  have ser: "\<not> is_serial k1 i" using same assms(3) by (simp add: same_count_def is_serial_def)
  have lv: "live k' s = live k1 s" for s by (simp add: k' live_def)
  have "is_serial k' s = is_serial k1 s" for s by (simp add: k' is_serial_def)
  moreover have "ls ! s = recycle_queue_limits k1 ! s" if "is_serial k1 s" for s
    using that ser ls' by (cases "s = i") auto
  ultimately show "kinv k'" using inv1 ls' lv unfolding kinv_def count_inv_def serial_inv_def
    by (simp add: k')
  show "main_graph k' = main_graph k" using same by (simp add: k' same_count_def)
qed

lemma set_maxpar_kinv:
  assumes a: "instance_set_maxpar conv st k = Inr (vs, k')" and inv: "kinv k"
  shows "kinv k'"
proof -
  let ?i = "c_int (lua_tointeger conv st 1)" let ?cap = "c_int (lua_tointeger conv st 2)"
  have all: "kinv k' \<and> main_graph k' = main_graph k" if "for_each (\<lambda>j k. rbind (STAGE (main_graph k) (int j)) (\<lambda>sd.
      if sd_serial sd then Inr k else set_limit ?i (int j) k)) js k = Inr k'" for js k'
    using that
  proof (rule for_each_inv [where P = "\<lambda>k'. kinv k' \<and> main_graph k' = main_graph k"])
    show "kinv k \<and> main_graph k = main_graph k" using inv by simp
    fix j t t' assume t: "kinv t \<and> main_graph t = main_graph k"
      and e: "rbind (STAGE (main_graph t) (int j)) (\<lambda>sd. if sd_serial sd then Inr t else set_limit ?i (int j) t) = Inr t'"
    then obtain sd where sd: "STAGE (main_graph t) (int j) = Inr sd"
      "(if sd_serial sd then Inr t else set_limit ?i (int j) t) = Inr t'" by (auto elim: rbind_InrE)
    show "kinv t' \<and> main_graph t' = main_graph k"
    proof (cases "sd_serial sd")
      case False
      then have "\<not> is_serial t j" using sd by (simp add: is_serial_def)
      with False sd t set_limit_kinv [of ?i j t t'] show ?thesis by simp
    qed (use sd t in simp)
  qed
  show ?thesis
  proof (cases "lua_isnumber conv st 2")
    case False
    show ?thesis
    proof (cases "?i < -1")
      case True
      with False a inv show ?thesis by (simp add: instance_set_maxpar_def Let_def)
    next
      case ge: False
      with False a obtain k1 where "for_each (\<lambda>j k. rbind (STAGE (main_graph k) (int j)) (\<lambda>sd.
          if sd_serial sd then Inr k else set_limit ?i (int j) k)) [0..<n_s (main_graph k)] k = Inr k1" "k1 = k'"
        by (auto simp: instance_set_maxpar_def Let_def simp del: One_nat_def elim!: rbind_InrE)
      then show ?thesis using all by blast
    qed
  next
    case True
    show ?thesis
    proof (cases "?cap < -1 \<or> ?i < 0 \<or> ?i \<ge> int (n_s (main_graph k))")
      case True
      with a inv \<open>lua_isnumber conv st 2\<close> show ?thesis
        by (auto simp: instance_set_maxpar_def Let_def split: if_splits)
    next
      case False
      with a True obtain sd where sd: "STAGE (main_graph k) ?i = Inr sd"
        "(if sd_serial sd then Inr (lua_fail ''Cannot change maxpar of a serial stage'', k)
          else rbind (set_limit ?cap ?i k) (\<lambda>k. Inr ([LBoolean True], k))) = Inr (vs, k')"
        by (auto simp: instance_set_maxpar_def Let_def simp del: One_nat_def elim!: rbind_InrE)
      then have "\<not> is_serial k (nat ?i)" if "\<not> sd_serial sd" using that False by (simp add: is_serial_def)
      with sd inv set_limit_kinv(1) [of ?cap "nat ?i" k k'] False show ?thesis by (auto simp: rbind_Inr_iff split: if_splits)
    qed
  qed
qed

lemma set_capacity_kinv:
  assumes "leda_set_capacity conv st k = Inr (vs, k')" and "kinv k"
  shows "kinv k'"
proof -
  have "same_count k k'" using assms(1)
    by (auto simp: leda_set_capacity_def Let_def rbind_Inr_iff split: if_splits dest!: upd_queue_same)
  then show ?thesis using assms(2) same_count_kinv by blast
qed

lemma kexec_kinv: "kexec env conv op k = Inr k' \<Longrightarrow> kinv k \<Longrightarrow> kinv k'"
proof (cases op)
  case (Release now i)
  assume "kexec env conv op k = Inr k'" "kinv k"
  with Release show ?thesis by (auto simp: kexec_def rbind_Inr_iff intro: release_kinv)
next
  case (PushReady i)
  assume "kexec env conv op k = Inr k'" "kinv k"
  with PushReady show ?thesis using push_ready_same same_count_kinv by (fastforce simp: kexec_def rbind_Inr_iff)
qed (auto simp: kexec_def rbind_Inr_iff dest: aquire_kinv wait_kinv destroy_kinv set_capacity_kinv set_maxpar_kinv
    dest!: queue_steps_same(4) intro: same_count_kinv)


lemma for_each_rows:
  "for_each (\<lambda>i rows. rbind (f i) (\<lambda>x. Inr (rows @ [h x]))) [0..<n] [] = Inr rows \<Longrightarrow>
   length rows = n \<and> (\<forall>i < n. \<exists>x. f i = Inr x \<and> rows ! i = h x)"
proof (induction n arbitrary: rows)
  case 0
  then show ?case by simp
next
  case (Suc n)
  from Suc.prems obtain rs x where rs: "for_each (\<lambda>i rows. rbind (f i) (\<lambda>x. Inr (rows @ [h x]))) [0..<n] [] = Inr rs"
    and x: "f n = Inr x" "rows = rs @ [h x]"
    by (auto simp: for_each_append rbind_Inr_iff)
  from Suc.IH [OF rs] x show ?case by (auto simp: nth_append less_Suc_eq)
qed

text \<open>\<open>instance_init\<close> in one piece: what each array holds at each stage.\<close>

lemma init_arrays:
  assumes "instance_init g st rl pl = Inr k"
  shows "main_graph k = g" and "insts k = Map.empty" and "next_inst k = 1" and "kstats k = st"
    and "ready_queue k = new_queue (-1)"
    and "length (recycle_queues k) = n_s g" and "length (event_queues k) = n_s g"
    and "length (recycle_queue_limits k) = n_s g" and "length (number_of_instances k) = n_s g"
    and "\<And>s. s < n_s g \<Longrightarrow> number_of_instances k ! s = atomic_new 0 \<and> event_queues k ! s = new_queue (c_int (uint pl)) \<and>
      (\<exists>sd. STAGE g (int s) = Inr sd \<and>
        recycle_queues k ! s = new_queue (if sd_serial sd then 1 else c_int (uint rl)) \<and>
        recycle_queue_limits k ! s = atomic_new (if sd_serial sd then 1 else rl))"
proof -
  from assms obtain serials where
    r: "for_each (\<lambda>i rows. rbind (STAGE g (int i)) (\<lambda>sd. Inr (rows @ [sd_serial sd]))) [0..<n_s g] [] = Inr serials"
    and k: "k = \<lparr>main_graph = g,
         recycle_queues = map (\<lambda>b. new_queue (if b then 1 else c_int (uint rl))) serials,
         event_queues = map (\<lambda>_. new_queue (c_int (uint pl))) serials,
         recycle_queue_limits = map (\<lambda>b. atomic_new (if b then 1 else rl)) serials,
         number_of_instances = map (\<lambda>_. atomic_new 0) serials,
         ready_queue = new_queue (-1), insts = Map.empty, next_inst = 1, kstats = st\<rparr>"
    by (auto simp: instance_init_def elim!: rbind_InrE)
  from for_each_rows [OF r] have s: "length serials = n_s g"
    "\<And>s. s < n_s g \<Longrightarrow> \<exists>sd. STAGE g (int s) = Inr sd \<and> serials ! s = sd_serial sd" by simp_all
  show "main_graph k = g" and "insts k = Map.empty" and "next_inst k = 1" and "kstats k = st"
    and "ready_queue k = new_queue (-1)"
    and "length (recycle_queues k) = n_s g" and "length (event_queues k) = n_s g"
    and "length (recycle_queue_limits k) = n_s g" and "length (number_of_instances k) = n_s g"
    using s(1) by (simp_all add: k)
  show "number_of_instances k ! s = atomic_new 0 \<and> event_queues k ! s = new_queue (c_int (uint pl)) \<and>
      (\<exists>sd. STAGE g (int s) = Inr sd \<and>
        recycle_queues k ! s = new_queue (if sd_serial sd then 1 else c_int (uint rl)) \<and>
        recycle_queue_limits k ! s = atomic_new (if sd_serial sd then 1 else rl))" if "s < n_s g" for s
    using s that by (auto simp: k)
qed

lemma init_kinv:
  assumes "instance_init g st rl pl = Inr k"
  shows "kinv k"
proof -
  note a = init_arrays [OF assms]
  have "READ (number_of_instances k ! s) = of_nat (card (live k s))" if "s < n_s g" for s
    using a(10) [OF that] a(2) by (simp add: live_def)
  moreover have "READ (recycle_queue_limits k ! s) = 1 \<and> card (live k s) \<le> 1" if "s < n_s g" "is_serial k s" for s
    using a(10) [OF that(1)] a(1,2) that(2) by (auto simp: live_def is_serial_def)
  ultimately show ?thesis using a(1,2,3,8,9) by (simp add: kinv_def count_inv_def serial_inv_def)
qed

text \<open>
  C4. After any sequence of calls on a new instance subsystem, the counter of a
  stage is the number of its live instances, and a serial stage has at most one.
\<close>

theorem instances_counted:
  assumes "instance_init g st rl pl = Inr k0" and "for_each (kexec env conv) ops k0 = Inr k"
    and "s < n_s (main_graph k)"
  shows "READ (number_of_instances k ! s) = of_nat (card (live k s)) \<and>
         (is_serial k s \<longrightarrow> card (live k s) \<le> 1)"
proof -
  have "kinv k" using assms(2) init_kinv [OF assms(1)]
    by (rule for_each_inv) (auto intro: kexec_kinv)
  with assms(3) show ?thesis by (simp add: kinv_def count_inv_def serial_inv_def)
qed

definition wit_kgraph :: "bool \<Rightarrow> graph_data" where
  "wit_kgraph ser = \<lparr>g_name = [], g_s = [Some \<lparr>sd_name = [], sd_env = [], sd_output = [], sd_serial = ser, sd_cluster = 0\<rparr>],
     n_s = 1, g_c = [], n_c = 0, g_cl = [Some \<lparr>cl_name = [], cl_processes = [], cl_local = True\<rparr>], n_cl = 1,
     g_d = [], n_d = 0\<rparr>"

definition wit_kstats :: stats where
  "wit_kstats = stats_init 1 0 \<lparr>sstats = [], cstats = [], nstages = 0, nconnectors = 0,
     has_error_cb = False, has_event_cb = False, has_release_cb = False, kevents = []\<rparr>"

definition wit_env :: instance_env where
  "wit_env = \<lparr>load_ok = True, boot = (\<lambda>_. Some (LNil, empty_heap)), runtime = wit_rt, enc_depth = 9\<rparr>"

definition wit_kernel :: "bool \<Rightarrow> c_long \<Rightarrow> kop list \<Rightarrow> kernel result" where
  "wit_kernel ser rl ops = rbind (instance_init (wit_kgraph ser) wit_kstats rl (-1)) (for_each (kexec wit_env (\<lambda>_. None)) ops)"

lemmas wit_kernel_defs =
  wit_kernel_def wit_kgraph_def wit_kstats_def wit_env_def instance_init_def stats_init_def kexec_def new_queue_def
  queue_new_def queue_op_defs Let_def instance_aquire_def instance_create_def try_pop_recycle_def upd_queue_def
  array_get_def array_set_def array_upd_def STAGE_def deref_slot_def STATS_ACTIVE_def on_stats_def
  stats_active_instance_def upd_sstat_def size_of_int_def set_inst_def fresh_instance_def stage_table_of_def

theorem instances_counted_witness:
  "\<exists>k0 k. instance_init (wit_kgraph True) wit_kstats 5 (-1) = Inr k0 \<and>
     for_each (kexec wit_env (\<lambda>_. None)) [Aquire 0 0, Aquire 0 0] k0 = Inr k \<and>
     READ (number_of_instances k ! 0) = of_nat (card (live k 0)) \<and> READ (number_of_instances k ! 0) = 1 \<and> card (live k 0) \<le> 1"
proof -
  obtain k0 where k0: "instance_init (wit_kgraph True) wit_kstats 5 (-1) = Inr k0"
    by (simp add: wit_kernel_defs)
  have "\<exists>k. for_each (kexec wit_env (\<lambda>_. None)) [Aquire 0 0, Aquire 0 0] k0 = Inr k \<and> main_graph k = wit_kgraph True \<and>
     READ (number_of_instances k ! 0) = 1"
    using k0 by (auto simp: wit_kernel_defs)
  then obtain k where k: "for_each (kexec wit_env (\<lambda>_. None)) [Aquire 0 0, Aquire 0 0] k0 = Inr k"
    "main_graph k = wit_kgraph True" "READ (number_of_instances k ! 0) = 1" by blast
  have "0 < n_s (main_graph k)" "is_serial k 0" using k(2)
    by (simp_all add: wit_kgraph_def is_serial_def STAGE_def deref_slot_def array_get_def)
  with instances_counted [OF k0 k(1), of 0] k0 k show ?thesis by auto
qed

end
