(* ===== verification/Leda_Pool.thy ===== *)
theory Leda_Pool
  imports Leda_Instance
begin

text \<open>
  What the instance subsystem promises, as an abstract state: for every stage the
  list of idle instances and of pending events, and the list of ready instances,
  oldest first. The operations of \<open>instance.c\<close> are shown to implement steps on
  these lists, without a fault, and never to have an instance in two places.
\<close>

section \<open>The abstract state\<close>

record pool =
  idle :: "nat \<Rightarrow> addr list"
  pending :: "nat \<Rightarrow> event list"
  ready :: "addr option list"
  idle_cap :: "nat \<Rightarrow> int"
  pend_cap :: "nat \<Rightarrow> int"
  ready_cap :: int

definition has_room :: "int \<Rightarrow> 'a list \<Rightarrow> bool" where
  "has_room c xs \<longleftrightarrow> c < 0 \<or> int (length xs) \<noteq> c"

text \<open>The queues of a kernel state hold the lists of a pool.\<close>

definition qrep :: "kernel \<Rightarrow> pool \<Rightarrow> bool" where
  "qrep k p \<longleftrightarrow> length (recycle_queues k) = n_s (main_graph k) \<and> length (event_queues k) = n_s (main_graph k) \<and>
     stats_wf (kstats k) \<and> nstages (kstats k) = n_s (main_graph k) \<and>
     (\<forall>s < n_s (main_graph k). rep (recycle_queues k ! s) (idle p s) \<and> capacity (recycle_queues k ! s) = idle_cap p s \<and>
        rep (event_queues k ! s) (pending p s) \<and> capacity (event_queues k ! s) = pend_cap p s) \<and>
     rep (ready_queue k) (ready p) \<and> capacity (ready_queue k) = ready_cap p"

text \<open>Queued instances are live, of the right stage, and in one queue only.\<close>

definition owned :: "kernel \<Rightarrow> pool \<Rightarrow> bool" where
  "owned k p \<longleftrightarrow>
     (\<forall>s < n_s (main_graph k). distinct (idle p s) \<and> set (idle p s) \<subseteq> live k s) \<and>
     (\<forall>i. Some i \<in> set (ready p) \<longrightarrow> insts k i \<noteq> None \<and> (\<forall>s < n_s (main_graph k). i \<notin> set (idle p s))) \<and>
     distinct (filter (\<lambda>x. x \<noteq> None) (ready p))"

definition krep :: "kernel \<Rightarrow> pool \<Rightarrow> bool" where
  "krep k p \<longleftrightarrow> kinv k \<and> qrep k p \<and> owned k p"

text \<open>An instance that a thread runs, or that waits for I/O: live, and in no queue.\<close>

definition running :: "kernel \<Rightarrow> pool \<Rightarrow> addr \<Rightarrow> bool" where
  "running k p i \<longleftrightarrow> insts k i \<noteq> None \<and> (\<forall>s < n_s (main_graph k). i \<notin> set (idle p s)) \<and> Some i \<notin> set (ready p)"

text \<open>No event waits while an instance of its stage is idle (of \<open>n\<close> stages).\<close>

definition work_conserving :: "nat \<Rightarrow> pool \<Rightarrow> bool" where
  "work_conserving n p \<longleftrightarrow> (\<forall>s < n. pending p s \<noteq> [] \<longrightarrow> idle p s = [])"

section \<open>Queue steps\<close>

lemma qrep_cong:
  "qrep k p \<Longrightarrow> main_graph k' = main_graph k \<Longrightarrow> recycle_queues k' = recycle_queues k \<Longrightarrow>
   event_queues k' = event_queues k \<Longrightarrow> ready_queue k' = ready_queue k \<Longrightarrow>
   stats_wf (kstats k') \<Longrightarrow> nstages (kstats k') = nstages (kstats k) \<Longrightarrow> qrep k' p"
  by (simp add: qrep_def)

lemma qrep_recycle:
  assumes "qrep k p" and "s < n_s (main_graph k)" and "rep q xs" and "capacity q = c"
  shows "\<exists>k'. upd_queue recycle_queues recycle_queues_update (int s) q k = Inr k' \<and>
     qrep k' (p\<lparr>idle := (idle p)(s := xs), idle_cap := (idle_cap p)(s := c)\<rparr>)"
  using assms by (auto simp: upd_queue_def qrep_def nth_list_update)

lemma qrep_event:
  assumes "qrep k p" and "s < n_s (main_graph k)" and "rep q xs" and "capacity q = c"
  shows "\<exists>k'. upd_queue event_queues event_queues_update (int s) q k = Inr k' \<and>
     qrep k' (p\<lparr>pending := (pending p)(s := xs), pend_cap := (pend_cap p)(s := c)\<rparr>)"
  using assms by (auto simp: upd_queue_def qrep_def nth_list_update)

lemma pool_same [simp]:
  "p\<lparr>idle := (idle p)(s := idle p s), idle_cap := (idle_cap p)(s := idle_cap p s)\<rparr> = p"
  "p\<lparr>idle := (idle p)(s := xs), idle_cap := (idle_cap p)(s := idle_cap p s)\<rparr> = p\<lparr>idle := (idle p)(s := xs)\<rparr>"
  "p\<lparr>pending := (pending p)(s := es), pend_cap := (pend_cap p)(s := pend_cap p s)\<rparr> = p\<lparr>pending := (pending p)(s := es)\<rparr>"
  "p\<lparr>idle := (idle p)(s := idle p s)\<rparr> = p" "p\<lparr>pending := (pending p)(s := pending p s)\<rparr> = p"
  "p\<lparr>ready := ready p\<rparr> = p"
  by simp_all

lemma recycle_pop:
  assumes "qrep k p" and "s < n_s (main_graph k)"
  shows "\<exists>k'. try_pop_recycle (int s) k = Inr (case idle p s of [] \<Rightarrow> None | i # _ \<Rightarrow> Some i, k') \<and>
     qrep k' (p\<lparr>idle := (idle p)(s := tl (idle p s))\<rparr>)"
proof -
  from assms have q: "rep (recycle_queues k ! s) (idle p s)" "capacity (recycle_queues k ! s) = idle_cap p s"
    "s < length (recycle_queues k)" by (simp_all add: qrep_def)
  have "\<exists>q'. queue_try_pop (recycle_queues k ! s) = Inr (case idle p s of [] \<Rightarrow> None | i # _ \<Rightarrow> Some i, q') \<and>
      rep q' (tl (idle p s)) \<and> capacity q' = idle_cap p s"
    using lfq.pop_none [of "recycle_queues k ! s"] lfq.pop_some [of "recycle_queues k ! s"] q
    by (cases "idle p s") auto
  then obtain q' where q': "queue_try_pop (recycle_queues k ! s) = Inr (case idle p s of [] \<Rightarrow> None | i # _ \<Rightarrow> Some i, q')"
    "rep q' (tl (idle p s))" "capacity q' = idle_cap p s" by blast
  with qrep_recycle [OF assms q'(2,3)] q(3) show ?thesis by (auto simp: try_pop_recycle_def)
qed

lemma event_pop:
  assumes "qrep k p" and "s < n_s (main_graph k)"
  shows "\<exists>k'. try_pop_event (int s) k = Inr (case pending p s of [] \<Rightarrow> None | e # _ \<Rightarrow> Some e, k') \<and>
     qrep k' (p\<lparr>pending := (pending p)(s := tl (pending p s))\<rparr>)"
proof -
  from assms have q: "rep (event_queues k ! s) (pending p s)" "capacity (event_queues k ! s) = pend_cap p s"
    "s < length (event_queues k)" by (simp_all add: qrep_def)
  have "\<exists>q'. queue_try_pop (event_queues k ! s) = Inr (case pending p s of [] \<Rightarrow> None | i # _ \<Rightarrow> Some i, q') \<and>
      rep q' (tl (pending p s)) \<and> capacity q' = pend_cap p s"
    using lfq.pop_none [of "event_queues k ! s"] lfq.pop_some [of "event_queues k ! s"] q
    by (cases "pending p s") auto
  then obtain q' where q': "queue_try_pop (event_queues k ! s) = Inr (case pending p s of [] \<Rightarrow> None | i # _ \<Rightarrow> Some i, q')"
    "rep q' (tl (pending p s))" "capacity q' = pend_cap p s" by blast
  with qrep_event [OF assms q'(2,3)] q(3) show ?thesis by (auto simp: try_pop_event_def)
qed

lemma recycle_push:
  assumes "qrep k p" and "s < n_s (main_graph k)"
  shows "\<exists>k'. try_push_recycle (int s) i k = Inr (has_room (idle_cap p s) (idle p s), k') \<and>
     qrep k' (if has_room (idle_cap p s) (idle p s) then p\<lparr>idle := (idle p)(s := idle p s @ [i])\<rparr> else p)"
proof -
  from assms have q: "rep (recycle_queues k ! s) (idle p s)" "capacity (recycle_queues k ! s) = idle_cap p s"
    "s < length (recycle_queues k)" by (simp_all add: qrep_def)
  show ?thesis
    using q(1)
  proof (cases rule: lfq.try_push_cases [where x = i])
    case (full q')
    with qrep_recycle [OF assms full(4,5)] q show ?thesis by (auto simp: try_push_recycle_def has_room_def)
  next
    case (pushed q')
    with qrep_recycle [OF assms pushed(3,4)] q show ?thesis by (auto simp: try_push_recycle_def has_room_def)
  qed
qed

lemma event_push:
  assumes "qrep k p" and "s < n_s (main_graph k)"
  shows "\<exists>k'. instance_try_push_pending_event (int s) e k = Inr (has_room (pend_cap p s) (pending p s), k') \<and>
     qrep k' (if has_room (pend_cap p s) (pending p s) then p\<lparr>pending := (pending p)(s := pending p s @ [e])\<rparr> else p)"
proof -
  from assms have q: "rep (event_queues k ! s) (pending p s)" "capacity (event_queues k ! s) = pend_cap p s"
    "s < length (event_queues k)" by (simp_all add: qrep_def)
  show ?thesis
    using q(1)
  proof (cases rule: lfq.try_push_cases [where x = e])
    case (full q')
    with qrep_event [OF assms full(4,5)] q show ?thesis
      by (auto simp: instance_try_push_pending_event_def has_room_def)
  next
    case (pushed q')
    with qrep_event [OF assms pushed(3,4)] q show ?thesis
      by (auto simp: instance_try_push_pending_event_def has_room_def)
  qed
qed

lemma ready_push:
  assumes "qrep k p"
  shows "if has_room (ready_cap p) (ready p)
     then \<exists>k'. push_ready_queue x k = Inr (Returned k') \<and> qrep k' (p\<lparr>ready := ready p @ [x]\<rparr>)
     else \<exists>k'. push_ready_queue x k = Inr (Waiting k') \<and> qrep k' p"
proof -
  from assms have q: "rep (ready_queue k) (ready p)" "capacity (ready_queue k) = ready_cap p" by (simp_all add: qrep_def)
  show ?thesis
    using q(1)
  proof (cases rule: lfq.try_push_cases [where x = x])
    case (full q')
    from full(4) have "qsize q' = int (length (ready p))" by (rule rep_size)
    with full q have "queue_push q' x = Inr (Waiting (sync_call (SignalWait full_queue) (sync_call Lock q')))"
      by (simp add: queue_push_def queue_push_wait_def)
    with full q assms show ?thesis by (simp add: push_ready_queue_def has_room_def qrep_def)
  next
    case (pushed q')
    with q assms show ?thesis by (auto simp: push_ready_queue_def has_room_def qrep_def)
  qed
qed

lemma stats_steps:
  assumes "qrep k p" and "s < n_s (main_graph k)"
  shows "\<exists>k'. STATS_ACTIVE (int s) k = Inr k' \<and> qrep k' p"
    and "\<exists>k'. STATS_INACTIVE (int s) k = Inr k' \<and> qrep k' p"
    and "\<exists>k'. STATS_UPDATE_TIME (int s) t k = Inr k' \<and> qrep k' p"
proof -
  have w: "stats_wf (kstats k)" "s < nstages (kstats k)" using assms by (simp_all add: qrep_def)
  show "\<exists>k'. STATS_ACTIVE (int s) k = Inr k' \<and> qrep k' p"
    using active_ok [OF w] assms(1) by (auto simp: STATS_ACTIVE_def on_stats_def qrep_def)
  show "\<exists>k'. STATS_INACTIVE (int s) k = Inr k' \<and> qrep k' p"
    using inactive_ok [OF w] assms(1) by (auto simp: STATS_INACTIVE_def on_stats_def qrep_def)
  show "\<exists>k'. STATS_UPDATE_TIME (int s) t k = Inr k' \<and> qrep k' p"
    using update_time_ok [OF w, of "of_int t"] assms(1) by (auto simp: STATS_UPDATE_TIME_def on_stats_def qrep_def)
qed


section \<open>Ownership\<close>

lemma same_count_None: "same_count k k' \<Longrightarrow> insts k' i = None \<longleftrightarrow> insts k i = None"
  unfolding same_count_def by (metis map_option_is_None)

lemma same_count_graph: "same_count k k' \<Longrightarrow> main_graph k' = main_graph k"
  by (simp add: same_count_def)

lemma same_count_owned: "same_count k k' \<Longrightarrow> owned k' p \<longleftrightarrow> owned k p"
  by (simp add: owned_def same_count_None same_count_live same_count_graph)

lemma same_count_running: "same_count k k' \<Longrightarrow> running k' p i \<longleftrightarrow> running k p i"
  by (simp add: running_def same_count_None same_count_graph)

lemma krep_step: "krep k p \<Longrightarrow> same_count k k' \<Longrightarrow> qrep k' p' \<Longrightarrow> owned k p' \<Longrightarrow> krep k' p'"
  by (simp add: krep_def same_count_owned same_count_kinv)

lemma krepD: "krep k p \<Longrightarrow> qrep k p" "krep k p \<Longrightarrow> owned k p" "krep k p \<Longrightarrow> kinv k" "krep k p \<Longrightarrow> count_inv k"
  by (simp_all add: krep_def kinv_def)

lemma count_inv_inst:
  assumes "count_inv k" and "insts k i = Some d"
  shows "0 \<le> i_stage d" and "i_stage d < int (n_s (main_graph k))" and "i \<noteq> 0"
proof -
  have all: "insts k 0 = None" "\<forall>i d. insts k i = Some d \<longrightarrow> 0 \<le> i_stage d \<and> i_stage d < int (n_s (main_graph k))"
    using assms(1) by (simp_all add: count_inv_def)
  then show "0 \<le> i_stage d" and "i_stage d < int (n_s (main_graph k))" using assms(2) by blast+
  show "i \<noteq> 0" using all(1) assms(2) by (cases "i = 0") simp_all
qed

lemma idle_live:
  assumes "krep k p" and "s < n_s (main_graph k)" and "i \<in> set (idle p s)"
  obtains d where "insts k i = Some d" and "i_stage d = int s" and "i \<noteq> 0"
proof -
  from assms have "i \<in> live k s" by (auto simp: krep_def owned_def)
  then obtain d where d: "insts k i = Some d" "i_stage d = int s" by (auto simp: live_def)
  moreover have "i \<noteq> 0" using count_inv_inst(3) [OF krepD(4) [OF assms(1)] d(1)] .
  ultimately show thesis by (rule that)
qed

lemma live_stage:
  assumes "krep k p" and "insts k i = Some d"
  obtains s where "i_stage d = int s" and "s < n_s (main_graph k)" and "i \<noteq> 0"
proof -
  note c = count_inv_inst [OF krepD(4) [OF assms(1)] assms(2)]
  show thesis by (rule that [of "nat (i_stage d)"]) (use c in auto)
qed

text \<open>Idle lists are disjoint, so taking an instance from one takes it out of all.\<close>

lemma idle_unique:
  assumes "krep k p" and "s < n_s (main_graph k)" and "t < n_s (main_graph k)"
    and "i \<in> set (idle p s)" and "i \<in> set (idle p t)"
  shows "s = t"
proof -
  from idle_live [OF assms(1,2,4)] obtain d where d: "insts k i = Some d" "i_stage d = int s" by blast
  from idle_live [OF assms(1,3,5)] obtain e where "insts k i = Some e" "i_stage e = int t" by blast
  with d show ?thesis by simp
qed

lemma take_idle:
  assumes "krep k p" and "s < n_s (main_graph k)" and "idle p s = i # is"
  defines "p' \<equiv> p\<lparr>idle := (idle p)(s := is)\<rparr>"
  shows "owned k p'" and "running k p' i"
proof -
  have o: "owned k p" using assms(1) by (simp add: krep_def)
  have "distinct (idle p s) \<and> set (idle p s) \<subseteq> live k s" using o assms(2) by (simp add: owned_def)
  then have d: "distinct (i # is)" "set (i # is) \<subseteq> live k s" unfolding assms(3) by simp_all
  then have "distinct is" "set is \<subseteq> live k s" "set is \<subseteq> set (idle p s)" using assms(3) by auto
  with o show "owned k p'" unfolding owned_def p'_def by (auto simp: subset_iff)
  have "i \<notin> set (idle p t)" if "t < n_s (main_graph k)" "t \<noteq> s" for t
    using idle_unique [OF assms(1,2) that(1), of i] assms(3) that(2) by auto
  moreover have "insts k i \<noteq> None" using d by (auto simp: live_def)
  moreover have "Some i \<notin> set (ready p)" using o assms(2,3) by (fastforce simp: owned_def)
  ultimately show "running k p' i" using d(1) by (simp add: running_def p'_def)
qed

lemma add_idle:
  assumes "owned k p" and "running k p i" and "i \<in> live k s" and "s < n_s (main_graph k)"
  shows "owned k (p\<lparr>idle := (idle p)(s := idle p s @ [i])\<rparr>)"
  using assms unfolding owned_def running_def by auto

lemma add_ready:
  assumes "owned k p" and "\<And>i. x = Some i \<Longrightarrow> running k p i"
  shows "owned k (p\<lparr>ready := ready p @ [x]\<rparr>)"
  using assms unfolding owned_def running_def by (cases x) auto

lemma owned_pending [simp]: "owned k (p\<lparr>pending := q\<rparr>) \<longleftrightarrow> owned k p"
  by (simp add: owned_def)

lemma running_pending [simp]: "running k (p\<lparr>pending := q\<rparr>) i \<longleftrightarrow> running k p i"
  by (simp add: running_def)

section \<open>Destroying and creating\<close>

lemma set_inst_qrep [simp]: "qrep (set_inst i d k) p \<longleftrightarrow> qrep k p"
  by (simp add: qrep_def set_inst_def)

lemma destroy_ok:
  assumes "kinv k" and "qrep k p" and "insts k i = Some d"
  shows "\<exists>k'. instance_destroy now i k = Inr k' \<and> qrep k' p"
proof -
  have c: "count_inv k" using assms(1) by (simp add: kinv_def)
  then have st: "0 \<le> i_stage d" "nat (i_stage d) < n_s (main_graph k)" "i \<noteq> 0"
    using count_inv_inst [OF c assms(3)] by auto
  define k1 where "k1 = k\<lparr>number_of_instances := (number_of_instances k)[nat (i_stage d) :=
      SUB (number_of_instances k ! nat (i_stage d)) 1]\<rparr>"
  have u: "array_upd (number_of_instances k) (i_stage d) (\<lambda>n. SUB n 1) = Inr (number_of_instances k1)"
    using st c by (simp add: array_upd_nat count_inv_def k1_def)
  have q1: "qrep k1 p" "main_graph k1 = main_graph k" using assms(2) by (simp_all add: k1_def qrep_def)
  from stats_steps(3) [OF q1(1), of "nat (i_stage d)" "now - i_init_time d"] st q1(2)
  obtain k2 where k2: "STATS_UPDATE_TIME (i_stage d) (now - i_init_time d) k1 = Inr k2" "qrep k2 p" by auto
  have "instance_destroy now i k = Inr (k2\<lparr>insts := (insts k2)(i := None)\<rparr>)"
    using u k2(1) assms(3) st(3) by (simp add: instance_destroy_def get_inst_def k1_def)
  moreover have "qrep (k2\<lparr>insts := (insts k2)(i := None)\<rparr>) p" using k2(2) by (simp add: qrep_def)
  ultimately show ?thesis by blast
qed

lemma destroy_running:
  assumes "krep k p" and "running k p i"
  shows "\<exists>k'. instance_destroy now i k = Inr k' \<and> krep k' p \<and> insts k' = (insts k)(i := None) \<and> main_graph k' = main_graph k"
proof -
  from assms(2) obtain d where d: "insts k i = Some d" by (auto simp: running_def)
  from destroy_ok [OF krepD(3) [OF assms(1)] krepD(1) [OF assms(1)] d] obtain k' where
    k': "instance_destroy now i k = Inr k'" "qrep k' p" by blast
  from destroy_effect [OF k'(1) krepD(4) [OF assms(1)]]
  have e: "insts k' = (insts k)(i := None)" "main_graph k' = main_graph k" by auto
  have "owned k' p" using krepD(2) [OF assms(1)] assms(2) destroy_live [OF d e(1)] e
    unfolding owned_def running_def by auto
  with k' e destroy_kinv [OF k'(1) krepD(3) [OF assms(1)]] show ?thesis by (simp add: krep_def)
qed

lemma owned_more:
  assumes "owned k p" and "main_graph k' = main_graph k" and "insts k' = (insts k)(j \<mapsto> d)" and "insts k j = None"
  shows "owned k' p"
proof -
  have "live k s \<subseteq> live k' s" for s using assms(3,4) by (auto simp: live_def)
  with assms(1,2,3) show ?thesis unfolding owned_def by fastforce
qed

lemma fresh_running:
  assumes "krep k p"
  shows "i = next_inst k \<Longrightarrow> insts k i = None \<and> Some i \<notin> set (ready p) \<and> (\<forall>s < n_s (main_graph k). i \<notin> set (idle p s))"
proof -
  assume i: "i = next_inst k"
  have n: "insts k i = None" using krepD(4) [OF assms] i by (simp add: count_inv_def)
  with krepD(2) [OF assms] show ?thesis by (fastforce simp: owned_def live_def)
qed


section \<open>Acquiring\<close>

lemma valid_stage_id: "s < n \<Longrightarrow> \<not> size_of_int (int s) > int n"
proof -
  assume "s < n"
  moreover have "size_of_int (int s) \<le> int s" by (simp add: size_of_int_def zmod_le_nonneg_dividend)
  ultimately show ?thesis by linarith
qed

lemma aquire_idle:
  assumes "krep k p" and "s < n_s (main_graph k)" and "idle p s = i # is" and "insts k i = Some d"
  defines "p' \<equiv> p\<lparr>idle := (idle p)(s := is)\<rparr>"
  shows "\<exists>k'. instance_aquire env now (int s) k = Inr (Some i, k') \<and> krep k' p' \<and> running k' p' i \<and>
     insts k' = (insts k)(i \<mapsto> d\<lparr>i_init_time := now\<rparr>) \<and> main_graph k' = main_graph k"
proof -
  from idle_live [OF assms(1,2), of i] assms(3,4) have i: "i \<noteq> 0" "i_stage d = int s" by auto
  from recycle_pop [OF krepD(1) [OF assms(1)] assms(2)] assms(3) obtain k1 where
    k1: "try_pop_recycle (int s) k = Inr (Some i, k1)" "qrep k1 p'" by (auto simp: p'_def)
  have s1: "same_count k k1" "insts k1 = insts k" using queue_steps_same(1) [OF k1(1)] by simp_all
  define k2 where "k2 = set_inst i (d\<lparr>i_init_time := now\<rparr>) k1"
  have u: "upd_inst i (\<lambda>d. d\<lparr>i_init_time := now\<rparr>) k1 = Inr k2"
    using s1(2) assms(4) i(1) by (simp add: upd_inst_def get_inst_def k2_def)
  have g: "get_inst k2 i = Inr (d\<lparr>i_init_time := now\<rparr>)" using i(1) by (simp add: get_inst_def k2_def set_inst_def)
  have s2: "same_count k1 k2" using upd_inst_same [OF u] by simp
  have q2: "qrep k2 p'" "s < n_s (main_graph k2)"
    using k1(2) assms(2) same_count_graph [OF s1(1)] same_count_graph [OF s2] by (simp_all add: k2_def)
  from stats_steps(1) [OF q2] obtain k3 where k3: "STATS_ACTIVE (int s) k2 = Inr k3" "qrep k3 p'" by blast
  have s3: "same_count k2 k3" "insts k3 = insts k2" using stats_same(1) [OF k3(1)] by simp_all
  have same: "same_count k k3" using s1(1) s2 s3(1) same_count_trans by blast
  have o: "owned k p'" "running k p' i" using take_idle [OF assms(1,2,3)] by (simp_all add: p'_def)
  have "krep k3 p'" using krep_step [OF assms(1) same k3(2) o(1)] .
  moreover have "running k3 p' i" using o(2) same_count_running [OF same] by simp
  moreover have "insts k3 = (insts k)(i \<mapsto> d\<lparr>i_init_time := now\<rparr>)" using s3(2) s1(2) by (simp add: k2_def set_inst_def)
  moreover have "instance_aquire env now (int s) k = Inr (Some i, k3)"
    using valid_stage_id [OF assms(2)] k1(1) u g k3(1) i(2) by (simp add: instance_aquire_def)
  ultimately show ?thesis using same_count_graph [OF same] by blast
qed

lemma recycle_pop_kstats: "try_pop_recycle s k = Inr (r, k') \<Longrightarrow> kstats k' = kstats k"
  by (auto simp: try_pop_recycle_def upd_queue_def rbind_Inr_iff)

lemma aquire_no_idle:
  assumes "krep k p" and "s < n_s (main_graph k)" and "idle p s = []"
  obtains k1 where "same_count k k1" and "insts k1 = insts k" and "kstats k1 = kstats k" and "krep k1 p"
    and "instance_aquire env now (int s) k =
      (if READ (number_of_instances k ! s) = READ (recycle_queue_limits k ! s) then Inr (None, k1)
       else instance_create env now (int s) k1)"
proof -
  have "p\<lparr>idle := (idle p)(s := tl (idle p s))\<rparr> = p" unfolding assms(3) list.sel unfolding assms(3) [symmetric] by simp
  with recycle_pop [OF krepD(1) [OF assms(1)] assms(2)] obtain k1 where
    k1: "try_pop_recycle (int s) k = Inr (None, k1)" "qrep k1 p" unfolding assms(3) by auto
  have s1: "same_count k k1" "insts k1 = insts k" using queue_steps_same(1) [OF k1(1)] by simp_all
  have inv: "count_inv k" "serial_inv k" using krepD(3) [OF assms(1)] by (simp_all add: kinv_def)
  have "instance_aquire env now (int s) k =
      (if READ (number_of_instances k ! s) = READ (recycle_queue_limits k ! s) then Inr (None, k1)
       else instance_create env now (int s) k1)"
    using valid_stage_id [OF assms(2)] k1(1) s1(1) inv assms(2)
    by (simp add: instance_aquire_def same_count_def count_inv_def serial_inv_def)
  then show thesis using that [OF s1 recycle_pop_kstats [OF k1(1)] krep_step [OF assms(1) s1(1) k1(2) krepD(2) [OF assms(1)]]] by blast
qed

text \<open>The state in which \<open>instance_create\<close> runs the code of the stage.\<close>

lemma create_new:
  assumes "krep k p" and "s < n_s (main_graph k)"
    and "READ (number_of_instances k ! s) \<noteq> READ (recycle_queue_limits k ! s)"
  defines "i \<equiv> next_inst k" and "d \<equiv> fresh_instance (int s) (READ (number_of_instances k ! s) + 1)"
  obtains k2 where "krep k2 p" and "insts k2 = (insts k)(i \<mapsto> d)" and "main_graph k2 = main_graph k"
    and "running k2 p i"
    and "instance_create env now (int s) k =
      (if \<not> load_ok env then Inr (None, k2)
       else rbind (stage_table_of (main_graph k) (int s)) (\<lambda>tab. case boot env tab of
         None \<Rightarrow> rbind (instance_destroy now i k2) (\<lambda>k. Inr (None, k))
       | Some (hnd, hp) \<Rightarrow> Inr (Some i, set_inst i
           (d\<lparr>i_L := \<lparr>stack = [], handler = hnd\<rparr>, i_heap := hp, i_init_time := now\<rparr>) k2)))"
proof -
  let ?ns = "(number_of_instances k)[s := ADD (number_of_instances k ! s) 1]"
  from stats_steps(1) [OF krepD(1) [OF assms(1)] assms(2)] obtain k1 where
    k1: "STATS_ACTIVE (int s) k = Inr k1" "qrep k1 p" by blast
  have s1: "same_count k k1" "insts k1 = insts k" using stats_same(1) [OF k1(1)] by simp_all
  define k2 where "k2 = set_inst i d (k1\<lparr>number_of_instances := ?ns, next_inst := Suc i\<rparr>)"
  have len: "s < length (number_of_instances k)" using krepD(4) [OF assms(1)] assms(2) by (simp add: count_inv_def)
  have g: "main_graph k2 = main_graph k" using s1(1) by (simp add: k2_def set_inst_def same_count_def)
  have f: "array_upd (number_of_instances k1) (int s) (\<lambda>n. ADD n 1) = Inr ?ns"
    "array_get ?ns (int s) = Inr (?ns ! s)" "fresh_instance (int s) (READ (?ns ! s)) = d" "next_inst k1 = i"
    using s1(1) len by (simp_all add: same_count_def d_def i_def)
  have e: "instance_create env now (int s) k =
      (if \<not> load_ok env then Inr (None, k2)
       else rbind (stage_table_of (main_graph k) (int s)) (\<lambda>tab. case boot env tab of
         None \<Rightarrow> rbind (instance_destroy now i k2) (\<lambda>k. Inr (None, k))
       | Some (hnd, hp) \<Rightarrow> Inr (Some i, set_inst i
           (d\<lparr>i_L := \<lparr>stack = [], handler = hnd\<rparr>, i_heap := hp, i_init_time := now\<rparr>) k2)))" for env
    unfolding instance_create_def k1(1) rbind_simps f Let_def k2_def [symmetric] g ..
  have i2: "insts k2 = (insts k)(i \<mapsto> d)" using s1(2) by (simp add: k2_def set_inst_def)
  have fr: "insts k i = None" "Some i \<notin> set (ready p)" "\<forall>s < n_s (main_graph k). i \<notin> set (idle p s)"
    using fresh_running [OF assms(1) i_def [THEN meta_eq_to_obj_eq]] by simp_all
  have "instance_create (wit_env\<lparr>load_ok := False\<rparr>) now (int s) k = Inr (None, k2)" using e by simp
  then have "kinv k2" by (rule create_kinv) (use assms krepD(3) in auto)
  moreover have "qrep k2 p" using k1(2) by (simp add: k2_def) (simp add: qrep_def)
  ultimately have "krep k2 p" using owned_more [OF krepD(2) [OF assms(1)] g i2 fr(1)] by (simp add: krep_def)
  moreover have "running k2 p i" using fr i2 g by (simp add: running_def)
  ultimately show thesis using that i2 g e by blast
qed

lemma set_inst_krep:
  assumes "krep k p" and "insts k i = Some d" and "i_stage d' = i_stage d"
  shows "krep (set_inst i d' k) p" and "running (set_inst i d' k) p j = running k p j"
    and "main_graph (set_inst i d' k) = main_graph k" and "insts (set_inst i d' k) = (insts k)(i \<mapsto> d')"
proof -
  have s: "same_count k (set_inst i d' k)" using set_inst_same [OF assms(2,3)] .
  show "krep (set_inst i d' k) p"
    by (rule krep_step [OF assms(1) s]) (use krepD(1,2) [OF assms(1)] in simp_all)
  show "running (set_inst i d' k) p j = running k p j" by (rule same_count_running [OF s])
  show "main_graph (set_inst i d' k) = main_graph k" "insts (set_inst i d' k) = (insts k)(i \<mapsto> d')"
    by (simp_all add: set_inst_def)
qed


section \<open>Releasing and pushing\<close>

lemma push_pending_ok:
  assumes "krep k p" and "s < n_s (main_graph k)"
  shows "\<exists>k'. instance_try_push_pending_event (int s) e k = Inr (has_room (pend_cap p s) (pending p s), k') \<and>
     krep k' (if has_room (pend_cap p s) (pending p s) then p\<lparr>pending := (pending p)(s := pending p s @ [e])\<rparr> else p) \<and>
     same_count k k' \<and> insts k' = insts k"
proof -
  let ?p = "if has_room (pend_cap p s) (pending p s) then p\<lparr>pending := (pending p)(s := pending p s @ [e])\<rparr> else p"
  from event_push [OF krepD(1) [OF assms(1)] assms(2)] obtain k' where
    k': "instance_try_push_pending_event (int s) e k = Inr (has_room (pend_cap p s) (pending p s), k')" "qrep k' ?p"
    by blast
  have s': "same_count k k'" "insts k' = insts k" using queue_steps_same(4) [OF k'(1)] by simp_all
  have "owned k ?p" using krepD(2) [OF assms(1)] by simp
  with k' s' krep_step [OF assms(1) s'(1) k'(2)] show ?thesis by blast
qed

lemma push_ready_ok:
  assumes "krep k p" and "\<And>i. x = Some i \<Longrightarrow> running k p i"
  shows "if has_room (ready_cap p) (ready p)
     then \<exists>k'. push_ready_queue x k = Inr (Returned k') \<and> krep k' (p\<lparr>ready := ready p @ [x]\<rparr>) \<and> same_count k k' \<and> insts k' = insts k
     else \<exists>k'. push_ready_queue x k = Inr (Waiting k') \<and> krep k' p \<and> same_count k k' \<and> insts k' = insts k"
proof (cases "has_room (ready_cap p) (ready p)")
  case True
  with ready_push [OF krepD(1) [OF assms(1)], of x] obtain k' where
    k': "push_ready_queue x k = Inr (Returned k')" "qrep k' (p\<lparr>ready := ready p @ [x]\<rparr>)" by auto
  have s': "same_count k k'" "insts k' = insts k" using push_ready_same [OF k'(1)] by (simp_all add: call_state_def)
  from krep_step [OF assms(1) s'(1) k'(2) add_ready [OF krepD(2) [OF assms(1)] assms(2)]] True k' s' show ?thesis by simp
next
  case False
  with ready_push [OF krepD(1) [OF assms(1)], of x] obtain k' where
    k': "push_ready_queue x k = Inr (Waiting k')" "qrep k' p" by auto
  have s': "same_count k k'" "insts k' = insts k" using push_ready_same [OF k'(1)] by (simp_all add: call_state_def)
  from krep_step [OF assms(1) s'(1) k'(2) krepD(2) [OF assms(1)]] False k' s' show ?thesis by simp
qed

text \<open>The instance as \<open>instance_release\<close> hands it to the next event.\<close>

definition cleared :: "instance_data \<Rightarrow> instance_data" where
  "cleared d = d\<lparr>i_L := (i_L d)\<lparr>stack := []\<rparr>\<rparr>"

definition reloaded :: "int \<Rightarrow> instance_data \<Rightarrow> instance_data" where
  "reloaded now d = (cleared d)\<lparr>i_L := load_handler [] (i_L d), i_init_time := now\<rparr>"

lemma release_steps:
  assumes "krep k p" and "running k p i" and "insts k i = Some d" and "i_stage d = int s"
  obtains k3 where "krep k3 (p\<lparr>pending := (pending p)(s := tl (pending p s))\<rparr>)"
    and "running k3 p i" and "insts k3 = (insts k)(i \<mapsto> cleared d)" and "main_graph k3 = main_graph k"
    and "s < n_s (main_graph k3)"
    and "instance_release env now i k = (case pending p s of
       e # _ \<Rightarrow> rbind (STATS_INACTIVE (int s) k3) (\<lambda>k. rbind (STATS_ACTIVE (int s) k) (\<lambda>k.
         rbind (restore_into (runtime env) e (reloaded now d)) (\<lambda>d.
         rbind (push_ready_queue (Some i) (set_inst i d k)) (\<lambda>c. case c of
           Waiting k \<Rightarrow> Inr (Waiting (0, k)) | Returned k \<Rightarrow> Inr (Returned (0, k))))))
     | [] \<Rightarrow> rbind (STATS_INACTIVE (int s) k3) (\<lambda>k.
         rbind (try_push_recycle (int s) i k) (\<lambda>(ok, k).
         if ok then Inr (Returned (0, k))
         else rbind (instance_destroy now i k) (\<lambda>k. Inr (Returned (-1, k))))))"
proof -
  let ?p = "p\<lparr>pending := (pending p)(s := tl (pending p s))\<rparr>"
  note c = count_inv_inst [OF krepD(4) [OF assms(1)] assms(3)]
  have s: "s < n_s (main_graph k)" using c(2) assms(4) by simp
  define k1 where "k1 = set_inst i (cleared d) k"
  have u: "upd_inst i (\<lambda>d. d\<lparr>i_L := (i_L d)\<lparr>stack := []\<rparr>\<rparr>) k = Inr k1"
    using c(3) assms(3) by (simp add: upd_inst_def get_inst_def k1_def cleared_def)
  have g: "get_inst k1 i = Inr (cleared d)" using c(3) by (simp add: get_inst_def k1_def set_inst_def)
  have cs: "i_stage (cleared d) = int s" "i_init_time (cleared d) = i_init_time d" using assms(4) by (simp_all add: cleared_def)
  note si = set_inst_krep [OF assms(1,3), of "cleared d", folded k1_def]
  have k1: "krep k1 p" "running k1 p i" "main_graph k1 = main_graph k" "insts k1 = (insts k)(i \<mapsto> cleared d)"
    using si(1) si(2) [of i] si(3,4) assms(2,4) cs(1) by simp_all
  from stats_steps(3) [OF krepD(1) [OF k1(1)], of s "now - i_init_time d"] s k1(3) obtain k2 where
    k2: "STATS_UPDATE_TIME (int s) (now - i_init_time d) k1 = Inr k2" "qrep k2 p" by auto
  have s2: "same_count k1 k2" "insts k2 = insts k1" using stats_same(3) [OF k2(1)] by simp_all
  have "s < n_s (main_graph k2)" using s k1(3) same_count_graph [OF s2(1)] by simp
  from event_pop [OF k2(2) this] obtain k3 where
    k3: "try_pop_event (int s) k2 = Inr (case pending p s of [] \<Rightarrow> None | e # _ \<Rightarrow> Some e, k3)" "qrep k3 ?p" by blast
  have s3: "same_count k2 k3" "insts k3 = insts k2" using queue_steps_same(3) [OF k3(1)] by simp_all
  have s13: "same_count k1 k3" using s2(1) s3(1) same_count_trans by blast
  have "krep k3 ?p" using krep_step [OF k1(1) s13 k3(2)] krepD(2) [OF k1(1)] by simp
  moreover have "running k3 p i" using same_count_running [OF s13] k1(2) by simp
  moreover have "insts k3 = (insts k)(i \<mapsto> cleared d)" using s2 s3 k1(4) by simp
  moreover have m: "main_graph k3 = main_graph k" using same_count_graph [OF s13] k1(3) by simp
  moreover have "s < n_s (main_graph k3)" using m s by simp
  moreover have lh: "(cleared d)\<lparr>i_L := load_handler [] (i_L (cleared d)), i_init_time := now\<rparr> = reloaded now d"
    by (simp add: cleared_def reloaded_def load_handler_def)
  have "instance_release env now i k = (case pending p s of
       e # _ \<Rightarrow> rbind (STATS_INACTIVE (int s) k3) (\<lambda>k. rbind (STATS_ACTIVE (int s) k) (\<lambda>k.
         rbind (restore_into (runtime env) e (reloaded now d)) (\<lambda>d.
         rbind (push_ready_queue (Some i) (set_inst i d k)) (\<lambda>c. case c of
           Waiting k \<Rightarrow> Inr (Waiting (0, k)) | Returned k \<Rightarrow> Inr (Returned (0, k))))))
     | [] \<Rightarrow> rbind (STATS_INACTIVE (int s) k3) (\<lambda>k.
         rbind (try_push_recycle (int s) i k) (\<lambda>(ok, k).
         if ok then Inr (Returned (0, k))
         else rbind (instance_destroy now i k) (\<lambda>k. Inr (Returned (-1, k))))))"
    unfolding instance_release_def u rbind_simps g cs k2(1) k3(1) prod.case lh
    by (cases "pending p s") simp_all
  ultimately show thesis using that by blast
qed


lemma stats_krep:
  assumes "krep k p" and "s < n_s (main_graph k)"
  shows "\<exists>k'. STATS_ACTIVE (int s) k = Inr k' \<and> krep k' p \<and> same_count k k' \<and> insts k' = insts k"
    and "\<exists>k'. STATS_INACTIVE (int s) k = Inr k' \<and> krep k' p \<and> same_count k k' \<and> insts k' = insts k"
proof -
  from stats_steps(1) [OF krepD(1) [OF assms(1)] assms(2)] obtain k' where "STATS_ACTIVE (int s) k = Inr k'" "qrep k' p" by blast
  then show "\<exists>k'. STATS_ACTIVE (int s) k = Inr k' \<and> krep k' p \<and> same_count k k' \<and> insts k' = insts k"
    using krep_step [OF assms(1)] stats_same(1) krepD(2) [OF assms(1)] by blast
  from stats_steps(2) [OF krepD(1) [OF assms(1)] assms(2)] obtain k' where "STATS_INACTIVE (int s) k = Inr k'" "qrep k' p" by blast
  then show "\<exists>k'. STATS_INACTIVE (int s) k = Inr k' \<and> krep k' p \<and> same_count k k' \<and> insts k' = insts k"
    using krep_step [OF assms(1)] stats_same(2) krepD(2) [OF assms(1)] by blast
qed

lemma release_dispatch:
  assumes "krep k p" and "running k p i" and "insts k i = Some d" and "i_stage d = int s"
    and "pending p s = e # es" and "restore_into (runtime env) e (reloaded now d) = Inr d'"
  defines "p1 \<equiv> p\<lparr>pending := (pending p)(s := es)\<rparr>"
  shows "\<exists>k'. insts k' = (insts k)(i \<mapsto> d') \<and> main_graph k' = main_graph k \<and>
     (if has_room (ready_cap p) (ready p)
      then instance_release env now i k = Inr (Returned (0, k')) \<and> krep k' (p1\<lparr>ready := ready p @ [Some i]\<rparr>)
      else instance_release env now i k = Inr (Waiting (0, k')) \<and> krep k' p1)"
proof -
  from release_steps [OF assms(1-4)] obtain k3 where k3: "krep k3 p1" "running k3 p i"
    "insts k3 = (insts k)(i \<mapsto> cleared d)" "main_graph k3 = main_graph k" "s < n_s (main_graph k3)"
    and r: "instance_release env now i k = rbind (STATS_INACTIVE (int s) k3) (\<lambda>k. rbind (STATS_ACTIVE (int s) k) (\<lambda>k.
         rbind (restore_into (runtime env) e (reloaded now d)) (\<lambda>d.
         rbind (push_ready_queue (Some i) (set_inst i d k)) (\<lambda>c. case c of
           Waiting k \<Rightarrow> Inr (Waiting (0, k)) | Returned k \<Rightarrow> Inr (Returned (0, k))))))"
    unfolding p1_def assms(5) by auto
  from stats_krep(2) [OF k3(1,5)] obtain k4 where k4: "STATS_INACTIVE (int s) k3 = Inr k4" "krep k4 p1" "same_count k3 k4"
    "insts k4 = insts k3" by blast
  have "s < n_s (main_graph k4)" using k3(5) same_count_graph [OF k4(3)] by simp
  from stats_krep(1) [OF k4(2) this] obtain k5 where k5: "STATS_ACTIVE (int s) k4 = Inr k5" "krep k5 p1" "same_count k4 k5"
    "insts k5 = insts k4" by blast
  have s35: "same_count k3 k5" using k4(3) k5(3) same_count_trans by blast
  have i5: "insts k5 i = Some (cleared d)" using k5(4) k4(4) k3(3) by simp
  have st: "i_stage d' = i_stage (cleared d)" using restore_into_stage [OF assms(6)] by (simp add: cleared_def reloaded_def)
  note k6 = set_inst_krep [OF k5(2) i5 st]
  have run: "running (set_inst i d' k5) p1 i"
    using k6(2) [of i] same_count_running [OF s35, of p i] k3(2) by (simp add: p1_def)
  have g: "main_graph (set_inst i d' k5) = main_graph k" using k6(3) same_count_graph [OF s35] k3(4) by simp
  have ii: "insts (set_inst i d' k5) = (insts k)(i \<mapsto> d')" using k6(4) k5(4) k4(4) k3(3) by simp
  have caps: "ready_cap p1 = ready_cap p" "ready p1 = ready p" by (simp_all add: p1_def)
  note r' = r [unfolded k4(1) rbind_simps k5(1) assms(6)]
  show ?thesis
  proof (cases "has_room (ready_cap p) (ready p)")
    case True
    with push_ready_ok [OF k6(1), of "Some i"] run caps obtain k7 where
      "push_ready_queue (Some i) (set_inst i d' k5) = Inr (Returned k7)" "krep k7 (p1\<lparr>ready := ready p @ [Some i]\<rparr>)"
      "same_count (set_inst i d' k5) k7" "insts k7 = insts (set_inst i d' k5)" by auto
    with True r' g ii same_count_graph show ?thesis by auto
  next
    case False
    with push_ready_ok [OF k6(1), of "Some i"] run caps obtain k7 where
      "push_ready_queue (Some i) (set_inst i d' k5) = Inr (Waiting k7)" "krep k7 p1"
      "same_count (set_inst i d' k5) k7" "insts k7 = insts (set_inst i d' k5)" by auto
    with False r' g ii same_count_graph show ?thesis by auto
  qed
qed

lemma release_idle:
  assumes "krep k p" and "running k p i" and "insts k i = Some d" and "i_stage d = int s" and "pending p s = []"
  shows "\<exists>k'. main_graph k' = main_graph k \<and>
     (if has_room (idle_cap p s) (idle p s)
      then instance_release env now i k = Inr (Returned (0, k')) \<and>
        insts k' = (insts k)(i \<mapsto> cleared d) \<and> krep k' (p\<lparr>idle := (idle p)(s := idle p s @ [i])\<rparr>)
      else instance_release env now i k = Inr (Returned (-1, k')) \<and> insts k' = (insts k)(i := None) \<and> krep k' p)"
proof -
  have pp: "p\<lparr>pending := (pending p)(s := tl (pending p s))\<rparr> = p"
    unfolding assms(5) list.sel unfolding assms(5) [symmetric] by simp
  from release_steps [OF assms(1-4)] obtain k3 where k3: "krep k3 p" "running k3 p i"
    "insts k3 = (insts k)(i \<mapsto> cleared d)" "main_graph k3 = main_graph k" "s < n_s (main_graph k3)"
    and r: "instance_release env now i k = rbind (STATS_INACTIVE (int s) k3) (\<lambda>k.
         rbind (try_push_recycle (int s) i k) (\<lambda>(ok, k).
         if ok then Inr (Returned (0, k))
         else rbind (instance_destroy now i k) (\<lambda>k. Inr (Returned (-1, k)))))"
    unfolding pp unfolding assms(5) list.case by blast
  from stats_krep(2) [OF k3(1,5)] obtain k4 where k4: "STATS_INACTIVE (int s) k3 = Inr k4" "krep k4 p" "same_count k3 k4"
    "insts k4 = insts k3" by blast
  have s4: "s < n_s (main_graph k4)" using k3(5) same_count_graph [OF k4(3)] by simp
  have run4: "running k4 p i" using same_count_running [OF k4(3)] k3(2) by simp
  have lv: "i \<in> live k4 s" using k4(4) k3(3) assms(4) by (simp add: live_def cleared_def)
  from recycle_push [OF krepD(1) [OF k4(2)] s4, of i] obtain k5 where
    k5: "try_push_recycle (int s) i k4 = Inr (has_room (idle_cap p s) (idle p s), k5)"
    and q5: "qrep k5 (if has_room (idle_cap p s) (idle p s) then p\<lparr>idle := (idle p)(s := idle p s @ [i])\<rparr> else p)" by blast
  have s5: "same_count k4 k5" "insts k5 = insts k4" using queue_steps_same(2) [OF k5] by simp_all
  have g5: "main_graph k5 = main_graph k" using same_count_graph [OF s5(1)] same_count_graph [OF k4(3)] k3(4) by simp
  note r' = r [unfolded k4(1) rbind_simps k5]
  show ?thesis
  proof (cases "has_room (idle_cap p s) (idle p s)")
    case True
    have "krep k5 (p\<lparr>idle := (idle p)(s := idle p s @ [i])\<rparr>)"
      using krep_step [OF k4(2) s5(1)] q5 True add_idle [OF krepD(2) [OF k4(2)] run4 lv s4] by simp
    with True r' g5 s5(2) k4(4) k3(3) show ?thesis by (intro exI [of _ k5]) simp
  next
    case False
    have "krep k5 p" using krep_step [OF k4(2) s5(1)] q5 False krepD(2) [OF k4(2)] by simp
    from destroy_running [OF this, of i now] same_count_running [OF s5(1)] run4 obtain k6 where
      "instance_destroy now i k5 = Inr k6" "krep k6 p" "insts k6 = (insts k5)(i := None)" "main_graph k6 = main_graph k5" by auto
    with False r' g5 s5(2) k4(4) k3(3) show ?thesis by (intro exI [of _ k6]) simp
  qed
qed


section \<open>What each operation does to the abstract state\<close>

text \<open>
  C5. Acquiring, when the code of the stage runs: the oldest idle instance is
  reused; without one, the request is refused exactly when the counter of the
  stage equals its limit, and otherwise a new instance is made from the handler
  and the heap the stage's code produced. The abstract state changes only in the
  idle list, and the instance returned is in no queue.
\<close>

theorem instance_aquire_refines:
  assumes "krep k p" and "s < n_s (main_graph k)" and "load_ok env"
    and "stage_table_of (main_graph k) (int s) = Inr tab" and "boot env tab = Some (hnd, hp)"
  shows "\<exists>r k'. instance_aquire env now (int s) k = Inr (r, k') \<and> main_graph k' = main_graph k \<and>
     krep k' (p\<lparr>idle := (idle p)(s := tl (idle p s))\<rparr>) \<and>
     (case idle p s of
        i # is \<Rightarrow> r = Some i \<and> running k' (p\<lparr>idle := (idle p)(s := is)\<rparr>) i \<and>
          insts k' = (insts k)(i \<mapsto> (the (insts k i))\<lparr>i_init_time := now\<rparr>)
      | [] \<Rightarrow> if READ (number_of_instances k ! s) = READ (recycle_queue_limits k ! s) then r = None \<and> insts k' = insts k
          else r = Some (next_inst k) \<and> running k' p (next_inst k) \<and>
            insts k' = (insts k)(next_inst k \<mapsto> (fresh_instance (int s) (READ (number_of_instances k ! s) + 1))\<lparr>
              i_L := \<lparr>stack = [], handler = hnd\<rparr>, i_heap := hp, i_init_time := now\<rparr>))"
proof (cases "idle p s")
  case (Cons i "is")
  from idle_live [OF assms(1,2), of i] Cons obtain d where "insts k i = Some d" by auto
  with aquire_idle [OF assms(1,2) Cons, of d env now] Cons show ?thesis by auto
next
  case Nil
  then have p: "p\<lparr>idle := (idle p)(s := tl (idle p s))\<rparr> = p" unfolding Nil list.sel unfolding Nil [symmetric] by simp
  from aquire_no_idle [OF assms(1,2) Nil] obtain k1 where k1: "same_count k k1" "insts k1 = insts k" "krep k1 p"
    and a: "instance_aquire env now (int s) k =
      (if READ (number_of_instances k ! s) = READ (recycle_queue_limits k ! s) then Inr (None, k1)
       else instance_create env now (int s) k1)" by blast
  show ?thesis
  proof (cases "READ (number_of_instances k ! s) = READ (recycle_queue_limits k ! s)")
    case True
    then show ?thesis unfolding p unfolding Nil using a k1 same_count_graph [OF k1(1)] by simp
  next
    case False
    have eq: "number_of_instances k1 = number_of_instances k" "recycle_queue_limits k1 = recycle_queue_limits k"
      "next_inst k1 = next_inst k" "main_graph k1 = main_graph k" using k1(1) by (simp_all add: same_count_def)
    define d where "d = fresh_instance (int s) (READ (number_of_instances k ! s) + 1)"
    from create_new [OF k1(3), of s env now] assms(2) False obtain k2 where k2: "krep k2 p"
      "insts k2 = (insts k)(next_inst k \<mapsto> d)" "main_graph k2 = main_graph k" "running k2 p (next_inst k)"
      and c: "instance_create env now (int s) k1 = Inr (Some (next_inst k), set_inst (next_inst k)
         (d\<lparr>i_L := \<lparr>stack = [], handler = hnd\<rparr>, i_heap := hp, i_init_time := now\<rparr>) k2)"
      unfolding eq k1(2) d_def using assms(3-5) by auto
    have i2: "insts k2 (next_inst k) = Some d" by (simp add: k2(2))
    note si = set_inst_krep [OF k2(1) i2, of "d\<lparr>i_L := \<lparr>stack = [], handler = hnd\<rparr>, i_heap := hp, i_init_time := now\<rparr>"]
    from False a c si k2 show ?thesis unfolding p unfolding Nil d_def by simp
  qed
qed

text \<open>
  C6. Releasing a running instance. When events of its stage are pending, the
  oldest is loaded into the instance and the instance goes to the end of the
  ready queue (or the thread blocks on a full ready queue); otherwise it becomes
  idle, or, when the recycle queue is full, it is destroyed and -1 returned.
\<close>

theorem instance_release_refines:
  assumes "krep k p" and "running k p i" and "insts k i = Some d" and "i_stage d = int s"
    and "\<And>e es. pending p s = e # es \<Longrightarrow> restore_into (runtime env) e (reloaded now d) = Inr d'"
  shows "\<exists>k'. main_graph k' = main_graph k \<and>
     (case pending p s of
        [] \<Rightarrow> if has_room (idle_cap p s) (idle p s)
          then instance_release env now i k = Inr (Returned (0, k')) \<and> insts k' = (insts k)(i \<mapsto> cleared d) \<and>
            krep k' (p\<lparr>idle := (idle p)(s := idle p s @ [i])\<rparr>)
          else instance_release env now i k = Inr (Returned (-1, k')) \<and> insts k' = (insts k)(i := None) \<and> krep k' p
      | e # es \<Rightarrow> insts k' = (insts k)(i \<mapsto> d') \<and>
          (if has_room (ready_cap p) (ready p)
           then instance_release env now i k = Inr (Returned (0, k')) \<and>
             krep k' (p\<lparr>pending := (pending p)(s := es), ready := ready p @ [Some i]\<rparr>)
           else instance_release env now i k = Inr (Waiting (0, k')) \<and> krep k' (p\<lparr>pending := (pending p)(s := es)\<rparr>)))"
proof (cases "pending p s")
  case Nil
  from release_idle [OF assms(1-4) Nil, of env now] show ?thesis unfolding Nil by simp
next
  case (Cons e es)
  from release_dispatch [OF assms(1-4) Cons assms(5) [OF Cons]] show ?thesis unfolding Cons by auto
qed


lemma destroy_active:
  assumes "instance_destroy now i k = Inr k'"
  shows "s_active (sstats (kstats k') ! s) = s_active (sstats (kstats k) ! s)"
proof -
  from assms obtain d ns k1 where "STATS_UPDATE_TIME (i_stage d) (now - i_init_time d) (k\<lparr>number_of_instances := ns\<rparr>) = Inr k1"
    "get_inst k i = Inr d" "k' = k1\<lparr>insts := (insts k1)(i := None)\<rparr>"
    by (auto simp: instance_destroy_def rbind_Inr_iff)
  then show ?thesis
    by (cases "i_stage d = int s"; cases "nat (i_stage d) = s")
      (auto simp: STATS_UPDATE_TIME_def on_stats_def stats_update_time_def upd_sstat_def array_upd_def activate_def
        rbind_Inr_iff array_get_Inr_iff array_set_Inr_iff)
qed

lemma create_active:
  assumes "instance_create env now (int s) k = Inr (r, k')"
  shows "s_active (sstats (kstats k') ! s) = ADD (s_active (sstats (kstats k) ! s)) 1"
proof -
  from assms obtain k1 ns n where k1: "STATS_ACTIVE (int s) k = Inr k1"
    and ns: "array_upd (number_of_instances k1) (int s) (\<lambda>n. ADD n 1) = Inr ns" "array_get ns (int s) = Inr n"
    by (auto simp: instance_create_def rbind_Inr_iff)
  define d where "d = fresh_instance (int s) (READ n)"
  define k2 where "k2 = set_inst (next_inst k1) d (k1\<lparr>number_of_instances := ns, next_inst := Suc (next_inst k1)\<rparr>)"
  have a: "s_active (sstats (kstats k2) ! s) = ADD (s_active (sstats (kstats k) ! s)) 1"
    using k1 by (auto simp: k2_def set_inst_def STATS_ACTIVE_def on_stats_def stats_active_instance_def upd_sstat_def
        array_upd_def rbind_Inr_iff array_get_Inr_iff array_set_Inr_iff)
  have r: "(if \<not> load_ok env then Inr (None, k2)
      else rbind (stage_table_of (main_graph k2) (int s)) (\<lambda>tab. case boot env tab of
         None \<Rightarrow> rbind (instance_destroy now (next_inst k1) k2) (\<lambda>k. Inr (None, k))
       | Some (hnd, hp) \<Rightarrow> Inr (Some (next_inst k1), set_inst (next_inst k1)
           (d\<lparr>i_L := \<lparr>stack = [], handler = hnd\<rparr>, i_heap := hp, i_init_time := now\<rparr>) k2))) = Inr (r, k')"
    using assms unfolding instance_create_def k1 rbind_simps ns Let_def d_def k2_def .
  show ?thesis
  proof (cases "load_ok env")
    case False
    with r a show ?thesis by simp
  next
    case True
    with r obtain tab where "(case boot env tab of
         None \<Rightarrow> rbind (instance_destroy now (next_inst k1) k2) (\<lambda>k. Inr (None, k))
       | Some (hnd, hp) \<Rightarrow> Inr (Some (next_inst k1), set_inst (next_inst k1)
           (d\<lparr>i_L := \<lparr>stack = [], handler = hnd\<rparr>, i_heap := hp, i_init_time := now\<rparr>) k2)) = Inr (r, k')"
      by (auto elim: rbind_InrE)
    then show ?thesis using a
      by (cases "boot env tab") (auto simp: rbind_Inr_iff destroy_active set_inst_def)
  qed
qed

text \<open>
  An instance whose stage code fails to initialise is destroyed and counted
  down again, but its stage keeps one active instance too many in the
  statistics: nothing on that path undoes \<open>STATS_ACTIVE\<close>.
\<close>

theorem failed_init_stays_active:
  assumes "krep k p" and "s < n_s (main_graph k)" and "idle p s = []" and "load_ok env"
    and "READ (number_of_instances k ! s) \<noteq> READ (recycle_queue_limits k ! s)"
    and "stage_table_of (main_graph k) (int s) = Inr tab" and "boot env tab = None"
  shows "\<exists>k'. instance_aquire env now (int s) k = Inr (None, k') \<and> insts k' = insts k \<and>
     READ (s_active (sstats (kstats k') ! s)) = READ (s_active (sstats (kstats k) ! s)) + 1"
proof -
  from aquire_no_idle [OF assms(1-3), of env now] assms(5) obtain k1 where k1: "same_count k k1" "insts k1 = insts k"
    "kstats k1 = kstats k" "krep k1 p"
    and a: "instance_aquire env now (int s) k = instance_create env now (int s) k1" by auto
  have eq: "number_of_instances k1 = number_of_instances k" "recycle_queue_limits k1 = recycle_queue_limits k"
    "next_inst k1 = next_inst k" "main_graph k1 = main_graph k" using k1(1) by (simp_all add: same_count_def)
  from create_new [OF k1(4), of s env now] assms(2,4-7) eq obtain k2 where k2: "krep k2 p"
    "insts k2 = (insts k)(next_inst k \<mapsto> fresh_instance (int s) (READ (number_of_instances k ! s) + 1))"
    "running k2 p (next_inst k)"
    and c: "instance_create env now (int s) k1 =
      rbind (instance_destroy now (next_inst k) k2) (\<lambda>k. Inr (None, k))"
    unfolding k1(2) by auto
  from destroy_running [OF k2(1,3)] obtain k3 where k3: "instance_destroy now (next_inst k) k2 = Inr k3"
    "insts k3 = (insts k2)(next_inst k := None)" by blast
  have r: "instance_create env now (int s) k1 = Inr (None, k3)" unfolding c k3(1) by simp
  have "insts k (next_inst k) = None" using krepD(4) [OF assms(1)] by (simp add: count_inv_def)
  then have "insts k3 = insts k" unfolding k3(2) k2(2) by auto
  with create_active [OF r] a r k1(3) show ?thesis by simp
qed

lemma set_limit_ok:
  assumes "krep k p" and "s < n_s (main_graph k)" and "\<not> is_serial k s"
  shows "\<exists>k'. set_limit cap (int s) k = Inr k' \<and> krep k' (p\<lparr>idle_cap := (idle_cap p)(s := cap)\<rparr>) \<and>
     main_graph k' = main_graph k \<and> insts k' = insts k \<and> number_of_instances k' = number_of_instances k \<and>
     next_inst k' = next_inst k \<and> READ (recycle_queue_limits k' ! s) = of_int cap"
proof -
  let ?q = "queue_set_capacity (recycle_queues k ! s) cap"
  have q: "rep (recycle_queues k ! s) (idle p s)" "s < length (recycle_queues k)"
    using krepD(1) [OF assms(1)] assms(2) by (simp_all add: qrep_def)
  from lfq.set_cap [OF q(1), of cap] have q': "rep ?q (idle p s)" "capacity ?q = cap" by simp_all
  from qrep_recycle [OF krepD(1) [OF assms(1)] assms(2) q'] obtain k1 where
    k1: "upd_queue recycle_queues recycle_queues_update (int s) ?q k = Inr k1"
    "qrep k1 (p\<lparr>idle := (idle p)(s := idle p s), idle_cap := (idle_cap p)(s := cap)\<rparr>)" by blast
  have s1: "same_count k k1" "insts k1 = insts k" using upd_queue_same(1) [OF k1(1)] by simp_all
  have len: "s < length (recycle_queue_limits k1)"
    using krepD(3) [OF assms(1)] s1(1) assms(2) by (simp add: kinv_def serial_inv_def same_count_def)
  define k2 where "k2 = k1\<lparr>recycle_queue_limits := (recycle_queue_limits k1)[s := STORE (recycle_queue_limits k1 ! s) (of_int cap)]\<rparr>"
  have r: "set_limit cap (int s) k = Inr k2"
    using q(2) k1(1) len by (simp add: set_limit_def k2_def)
  have g: "main_graph k2 = main_graph k" "insts k2 = insts k" "number_of_instances k2 = number_of_instances k"
    "next_inst k2 = next_inst k"
    using s1 by (simp_all add: k2_def same_count_def)
  have "qrep k2 (p\<lparr>idle_cap := (idle_cap p)(s := cap)\<rparr>)" using k1(2) by (simp add: k2_def qrep_def)
  moreover have "owned k2 (p\<lparr>idle_cap := (idle_cap p)(s := cap)\<rparr>)"
    using krepD(2) [OF assms(1)] g by (simp add: owned_def live_def)
  moreover have "kinv k2" using set_limit_kinv(1) [OF r krepD(3) [OF assms(1)] assms(3)] .
  ultimately have "krep k2 (p\<lparr>idle_cap := (idle_cap p)(s := cap)\<rparr>)" by (simp add: krep_def)
  moreover have "READ (recycle_queue_limits k2 ! s) = of_int cap" using len by (simp add: k2_def)
  ultimately show ?thesis using r g by blast
qed

text \<open>
  \<open>instance_set_maxpar\<close> with a value below the number of instances a stage
  has lifts the limit instead of enforcing it: the test is \<open>==\<close>, so the next
  request without an idle instance creates one more.
\<close>

theorem maxpar_below_count_lifts_limit:
  assumes "krep k p" and "s < n_s (main_graph k)" and "\<not> is_serial k s" and "idle p s = []"
    and "0 \<le> cap" and "cap < int (card (live k s))" and "card (live k s) < 2 ^ 63"
    and "load_ok env" and "stage_table_of (main_graph k) (int s) = Inr tab" and "boot env tab = Some (hnd, hp)"
  shows "\<exists>k1 k'. set_limit cap (int s) k = Inr k1 \<and> READ (recycle_queue_limits k1 ! s) = of_int cap \<and>
     instance_aquire env now (int s) k1 = Inr (Some (next_inst k), k') \<and>
     card (live k' s) = Suc (card (live k s))"
proof -
  from set_limit_ok [OF assms(1-3), of cap] obtain k1 where k1: "set_limit cap (int s) k = Inr k1"
    "krep k1 (p\<lparr>idle_cap := (idle_cap p)(s := cap)\<rparr>)" "main_graph k1 = main_graph k" "insts k1 = insts k"
    "number_of_instances k1 = number_of_instances k" "next_inst k1 = next_inst k"
    "READ (recycle_queue_limits k1 ! s) = of_int cap" by blast
  have "unat (of_int cap :: c_long) = nat cap" using assms(5-7) by (simp add: unsigned_of_int take_bit_int_eq_self)
  moreover have "unat (of_nat (card (live k s)) :: c_long) = card (live k s)"
    using assms(7) by (simp add: unat_of_nat)
  ultimately have "of_nat (card (live k s)) \<noteq> (of_int cap :: c_long)" using assms(5,6) by (metis less_int_code(1) nat_0_le order_less_irrefl)
  moreover have "READ (number_of_instances k ! s) = of_nat (card (live k s))"
    using krepD(4) [OF assms(1)] assms(2) by (simp add: count_inv_def)
  ultimately have ne: "READ (number_of_instances k1 ! s) \<noteq> READ (recycle_queue_limits k1 ! s)" using k1(5,7) by simp
  from instance_aquire_refines [OF k1(2), of s env tab hnd hp now] assms(2,4,8-10) k1(3,4,6) ne obtain k' d where
    a: "instance_aquire env now (int s) k1 = Inr (Some (next_inst k), k')"
    "insts k' = (insts k)(next_inst k \<mapsto> d)" "i_stage d = int s"
    by (auto simp: fresh_instance_def)
  have n: "insts k (next_inst k) = None" using krepD(4) [OF assms(1)] by (simp add: count_inv_def)
  then have "live k' s = insert (next_inst k) (live k s)" "next_inst k \<notin> live k s" using a(2,3) by (auto simp: live_def)
  then have "card (live k' s) = Suc (card (live k s))" using live_finite [OF krepD(4) [OF assms(1)]] by simp
  with k1 a show ?thesis by blast
qed


section \<open>The new subsystem\<close>

definition empty_pool :: "kernel \<Rightarrow> pool" where
  "empty_pool k = \<lparr>idle = (\<lambda>_. []), pending = (\<lambda>_. []), ready = [],
     idle_cap = (\<lambda>s. capacity (recycle_queues k ! s)), pend_cap = (\<lambda>s. capacity (event_queues k ! s)),
     ready_cap = capacity (ready_queue k)\<rparr>"

lemma rep_new_queue [simp]: "rep (new_queue c :: 'a LFQueue) []"
proof -
  obtain q :: "'a LFQueue" where q: "queue_new True = Some q" by (simp add: queue_new_def)
  have "rep q []" by (rule rep_new [OF q])
  then show ?thesis unfolding new_queue_def q option.sel by (simp add: lfq.set_cap)
qed

lemma capacity_new_queue [simp]: "capacity (new_queue c) = c"
  by (simp add: new_queue_def queue_new_def queue_set_capacity_def)

lemma init_krep:
  assumes "instance_init g st rl pl = Inr k" and "stats_wf st" and "nstages st = n_s g"
  shows "krep k (empty_pool k)"
proof -
  note a = init_arrays [OF assms(1)]
  have q: "rep (recycle_queues k ! s) [] \<and> rep (event_queues k ! s) []" if "s < n_s g" for s
    using a(10) [OF that] by auto
  have "qrep k (empty_pool k)"
    using a(1,4,5,6,7) assms(2,3) q by (simp add: qrep_def empty_pool_def)
  moreover have "owned k (empty_pool k)" by (simp add: owned_def empty_pool_def)
  ultimately show ?thesis using init_kinv [OF assms(1)] by (simp add: krep_def)
qed

text \<open>A small system: one stage without outputs, not serial, at most two instances.\<close>

definition wit_init :: kernel where
  "wit_init = projr (instance_init (wit_kgraph False) wit_kstats 2 (-1))"

lemma wit_init:
  "instance_init (wit_kgraph False) wit_kstats 2 (-1) = Inr wit_init" "main_graph wit_init = wit_kgraph False"
  "insts wit_init = Map.empty" "next_inst wit_init = 1" "READ (number_of_instances wit_init ! 0) = 0"
  "READ (recycle_queue_limits wit_init ! 0) = 2"
  by (simp_all add: wit_init_def wit_kernel_defs)

lemma wit_init_krep: "krep wit_init (empty_pool wit_init)"
  by (rule init_krep [OF wit_init(1)]) (simp_all add: wit_kstats_def wit_kgraph_def stats_wf_def stats_init_def)

lemma wit_stage: "stage_table_of (wit_kgraph ser) (int 0) = Inr \<lparr>st_name = [], st_serial = ser, st_env = [], st_output = []\<rparr>"
  "n_s (wit_kgraph ser) = 1" "\<not> is_serial wit_init 0"
  using wit_init(2) by (simp_all add: stage_table_of_def STAGE_def deref_slot_def array_get_def wit_kgraph_def c_string_def is_serial_def)

lemma wit_boot: "load_ok wit_env" "boot wit_env tab = Some (LNil, empty_heap)" "runtime wit_env = wit_rt"
  by (simp_all add: wit_env_def)

lemma empty_pool_simps [simp]:
  "idle (empty_pool k) s = []" "pending (empty_pool k) s = []" "ready (empty_pool k) = []"
  "idle_cap (empty_pool k) s = capacity (recycle_queues k ! s)" "ready_cap (empty_pool k) = capacity (ready_queue k)"
  "pend_cap (empty_pool k) s = capacity (event_queues k ! s)"
  "(empty_pool k)\<lparr>idle := (idle (empty_pool k))(s := [])\<rparr> = empty_pool k"
  by (auto simp: empty_pool_def)

theorem instance_aquire_refines_witness:
  "\<exists>k'. instance_aquire wit_env 7 (int 0) wit_init = Inr (Some 1, k') \<and> krep k' (empty_pool wit_init) \<and>
     running k' (empty_pool wit_init) 1"
  using instance_aquire_refines [OF wit_init_krep, of 0 wit_env _ LNil empty_heap 7] wit_stage wit_boot wit_init
  by (auto simp: wit_kgraph_def)

text \<open>One instance has been created and runs; one event waits.\<close>

lemma wit_running:
  obtains k d where "krep k (empty_pool wit_init)" and "running k (empty_pool wit_init) 1" and "insts k 1 = Some d"
    and "i_stage d = int 0" and "main_graph k = wit_kgraph False" and "insts k = [1 \<mapsto> d]"
    and "READ (number_of_instances k ! 0) = 1" and "next_inst k = 2" and "READ (recycle_queue_limits k ! 0) = 2"
proof -
  from instance_aquire_refines [OF wit_init_krep, of 0 wit_env _ LNil empty_heap 7] wit_stage wit_boot wit_init
  obtain k where k: "instance_aquire wit_env 7 0 wit_init = Inr (Some 1, k)" "krep k (empty_pool wit_init)"
    "running k (empty_pool wit_init) 1" "main_graph k = wit_kgraph False"
    "insts k = [1 \<mapsto> (fresh_instance 0 1)\<lparr>i_L := \<lparr>stack = [], handler = LNil\<rparr>, i_heap := empty_heap, i_init_time := 7\<rparr>]"
    by (auto simp del: One_nat_def)
  then obtain d where a: "instance_aquire wit_env 7 0 wit_init = Inr (Some 1, k)" "krep k (empty_pool wit_init)"
    "running k (empty_pool wit_init) 1" "insts k 1 = Some d" "i_stage d = int 0" "main_graph k = wit_kgraph False"
    "insts k = [1 \<mapsto> d]" by (simp add: fresh_instance_def)
  have ne: "(0 :: c_long) \<noteq> 2" by transfer simp
  have "READ (number_of_instances k ! 0) = 1 \<and> next_inst k = 2 \<and> READ (recycle_queue_limits k ! 0) = 2"
    using a(1) ne by (auto simp: wit_init_def wit_kernel_defs)
  with a show thesis using that by blast
qed


text \<open>Its queues are unbounded for events, bounded by two for idle instances.\<close>

lemma wit_caps: "idle_cap (empty_pool wit_init) 0 = 2" "has_room (pend_cap (empty_pool wit_init) 0) ([] :: event list)"
  "has_room (ready_cap (empty_pool wit_init)) ([] :: addr option list)"
proof -
  note a = init_arrays [OF wit_init(1)]
  have m: "c_int (uint (-1 :: c_long)) = -1" by code_simp
  have "is_serial wit_init 0 \<longleftrightarrow> False" using wit_stage(3) by simp
  then show "idle_cap (empty_pool wit_init) 0 = 2" "has_room (pend_cap (empty_pool wit_init) 0) ([] :: event list)"
    using a(10) [of 0] wit_stage(2) wit_init(2) m by (auto simp: is_serial_def has_room_def)
  show "has_room (ready_cap (empty_pool wit_init)) ([] :: addr option list)" using a(5) by (simp add: has_room_def)
qed

theorem instance_release_refines_witness:
  "\<exists>k1 k2 k3. instance_try_push_pending_event (int 0) (Event []) k1 = Inr (True, k2) \<and>
     instance_release wit_env 9 1 k2 = Inr (Returned (0, k3)) \<and>
     krep k3 ((empty_pool wit_init)\<lparr>pending := (\<lambda>_. []), ready := [Some 1]\<rparr>)"
proof -
  from wit_running obtain k1 d where k1: "krep k1 (empty_pool wit_init)" "running k1 (empty_pool wit_init) 1"
    "insts k1 1 = Some d" "i_stage d = int 0" "main_graph k1 = wit_kgraph False" by blast
  let ?p = "(empty_pool wit_init)\<lparr>pending := (pending (empty_pool wit_init))(0 := [Event []])\<rparr>"
  have p1: "pending (empty_pool wit_init) 0 @ [Event []] = [Event []]" by simp
  from push_pending_ok [OF k1(1), of 0 "Event []", unfolded p1] wit_caps(2) wit_stage(2) k1(5) obtain k2 where
    k2: "instance_try_push_pending_event (int 0) (Event []) k1 = Inr (True, k2)" "krep k2 ?p" "same_count k1 k2"
    "insts k2 = insts k1" by (auto simp del: empty_pool_simps(6))
  have run: "running k2 ?p 1" using same_count_running [OF k2(3)] k1(2) by simp
  obtain d' where "restore_into (runtime wit_env) (Event []) (reloaded 9 d) = Inr d'"
    by (simp add: restore_into_def restore_event_to_lua_state_def)
  then have ev: "restore_into (runtime wit_env) e (reloaded 9 d) = Inr d'" if "pending ?p 0 = e # es" for e es
    using that by simp
  have i2: "insts k2 1 = Some d" using k2(4) k1(3) by simp
  have "(\<lambda>_. []) = (pending ?p)(0 := [])" by (auto simp: empty_pool_def)
  then have eq: "?p\<lparr>pending := (pending ?p)(0 := []), ready := [Some 1]\<rparr> = (empty_pool wit_init)\<lparr>pending := (\<lambda>_. []), ready := [Some 1]\<rparr>"
    by simp
  from instance_release_refines [OF k2(2) run i2 k1(4) ev] obtain k3 where
    "instance_release wit_env 9 1 k2 = Inr (Returned (0, k3))"
    "krep k3 (?p\<lparr>pending := (pending ?p)(0 := []), ready := [Some 1]\<rparr>)"
    using wit_caps(3) by auto
  with k2(1) eq show ?thesis by auto
qed

theorem failed_init_stays_active_witness:
  "\<exists>k'. instance_aquire (wit_env\<lparr>boot := (\<lambda>_. None)\<rparr>) 7 (int 0) wit_init = Inr (None, k') \<and> insts k' = Map.empty \<and>
     READ (s_active (sstats (kstats k') ! 0)) = 1"
proof -
  have ne: "(0 :: c_long) \<noteq> 2" by transfer simp
  have "READ (s_active (sstats (kstats wit_init) ! 0)) = 0"
    by (simp add: wit_init_def wit_kernel_defs zero_s_def)
  then show ?thesis
    using failed_init_stays_active [OF wit_init_krep, of 0 "wit_env\<lparr>boot := (\<lambda>_. None)\<rparr>" _ 7]
      wit_stage wit_boot wit_init ne by simp
qed

theorem maxpar_below_count_lifts_limit_witness:
  "\<exists>k1 k2 k'. set_limit 0 (int 0) k1 = Inr k2 \<and> READ (recycle_queue_limits k2 ! 0) = 0 \<and>
     instance_aquire wit_env 8 (int 0) k2 = Inr (Some 2, k') \<and> card (live k' 0) = 2"
proof -
  from wit_running obtain k d where k: "krep k (empty_pool wit_init)" "insts k = [1 \<mapsto> d]" "i_stage d = int 0"
    "main_graph k = wit_kgraph False" "next_inst k = 2" by blast
  have "live k 0 = {1}" using k(2,3) by (auto simp: live_def)
  then have c: "card (live k 0) = 1" by simp
  have ns: "\<not> is_serial k 0" using wit_stage(3) wit_init(2) k(4) by (simp add: is_serial_def)
  from maxpar_below_count_lifts_limit [OF k(1) _ ns, of 0 wit_env "\<lparr>st_name = [], st_serial = False, st_env = [], st_output = []\<rparr>" LNil empty_heap 8]
    wit_stage(1,2) wit_boot k(4,5) c
  obtain k1 k' where "set_limit 0 (int 0) k = Inr k1" "READ (recycle_queue_limits k1 ! 0) = 0"
    "instance_aquire wit_env 8 (int 0) k1 = Inr (Some 2, k')" "card (live k' 0) = Suc 1" by auto
  then show ?thesis by (intro exI [of _ k] exI [of _ k1] exI [of _ k']) simp
qed

section \<open>The contract of the instance subsystem\<close>

text \<open>
  The view the scheduler has of the subsystem: the state represents a pool that
  conserves work and has an unbounded ready queue, and the instances of a set,
  those that threads execute or that wait for I/O, are in no queue.
\<close>

definition outside ::
  "('k \<Rightarrow> pool \<Rightarrow> bool) \<Rightarrow> ('k \<Rightarrow> nat) \<Rightarrow> ('k \<Rightarrow> pool \<Rightarrow> addr \<Rightarrow> bool) \<Rightarrow> 'k \<Rightarrow> pool \<Rightarrow> addr set \<Rightarrow> bool" where
  "outside R stages held k p S \<longleftrightarrow>
     R k p \<and> work_conserving (stages k) p \<and> ready_cap p < 0 \<and> (\<forall>i \<in> S. held k p i)"

text \<open>
  What the scheduler relies on when a call of the subsystem returns: which
  instances are handed out, where an instance or an event goes, and that the other
  instances stay where they are.
\<close>

locale instance_pool =
  fixes R :: "'k \<Rightarrow> pool \<Rightarrow> bool" and stages :: "'k \<Rightarrow> nat" and held :: "'k \<Rightarrow> pool \<Rightarrow> addr \<Rightarrow> bool"
    and stage_of :: "'k \<Rightarrow> addr \<Rightarrow> nat"
    and acquire :: "nat \<Rightarrow> 'k \<Rightarrow> (addr option \<times> 'k) result"
    and defer_event :: "nat \<Rightarrow> event \<Rightarrow> 'k \<Rightarrow> (bool \<times> 'k) result"
    and resume :: "addr \<Rightarrow> 'k \<Rightarrow> 'k call result"
    and finish :: "addr \<Rightarrow> 'k \<Rightarrow> (int \<times> 'k) call result"
  assumes acquire_law: "R k p \<Longrightarrow> s < stages k \<Longrightarrow> acquire s k = Inr (r, k') \<Longrightarrow>
      stages k' = stages k \<and> R k' (p\<lparr>idle := (idle p)(s := tl (idle p s))\<rparr>) \<and>
      (\<forall>j. held k p j \<longrightarrow> held k' (p\<lparr>idle := (idle p)(s := tl (idle p s))\<rparr>) j) \<and>
      (case r of Some i \<Rightarrow> held k' (p\<lparr>idle := (idle p)(s := tl (idle p s))\<rparr>) i \<and> \<not> held k p i | None \<Rightarrow> idle p s = [])"
    and defer_law: "R k p \<Longrightarrow> s < stages k \<Longrightarrow> defer_event s e k = Inr (b, k') \<Longrightarrow>
      stages k' = stages k \<and> b = has_room (pend_cap p s) (pending p s) \<and>
      (\<forall>j. held k p j \<longrightarrow> held k' (if b then p\<lparr>pending := (pending p)(s := pending p s @ [e])\<rparr> else p) j) \<and>
      R k' (if b then p\<lparr>pending := (pending p)(s := pending p s @ [e])\<rparr> else p)"
    and resume_law: "R k p \<Longrightarrow> held k p i \<Longrightarrow> resume i k = Inr c \<Longrightarrow> has_room (ready_cap p) (ready p) \<Longrightarrow>
      \<exists>k'. c = Returned k' \<and> stages k' = stages k \<and> R k' (p\<lparr>ready := ready p @ [Some i]\<rparr>) \<and>
      (\<forall>j. j \<noteq> i \<longrightarrow> held k p j \<longrightarrow> held k' (p\<lparr>ready := ready p @ [Some i]\<rparr>) j)"
    and finish_law: "R k p \<Longrightarrow> held k p i \<Longrightarrow> finish i k = Inr fc \<Longrightarrow>
      stage_of k i < stages k \<and> stages (snd (call_state fc)) = stages k \<and>
      (\<exists>p'. R (snd (call_state fc)) p' \<and> ready_cap p' = ready_cap p \<and>
        (\<forall>j. j \<noteq> i \<longrightarrow> held k p j \<longrightarrow> held (snd (call_state fc)) p' j) \<and>
        (case pending p (stage_of k i) of
           [] \<Rightarrow> ready p' = ready p \<and> pending p' = pending p \<and>
             (idle p' = idle p \<or> idle p' = (idle p)(stage_of k i := idle p (stage_of k i) @ [i]))
         | e # es \<Rightarrow> idle p' = idle p \<and> pending p' = (pending p)(stage_of k i := es) \<and>
             (ready p' = ready p \<or> ready p' = ready p @ [Some i])))"
begin

lemma acquire_outside:
  assumes "outside R stages held k p S" and "s < stages k" and "acquire s k = Inr (r, k')"
  shows "\<exists>p'. stages k' = stages k \<and> (case r of
       None \<Rightarrow> outside R stages held k' p' S \<and> idle p' s = []
     | Some i \<Rightarrow> outside R stages held k' p' (insert i S) \<and> i \<notin> S)"
proof -
  let ?p = "p\<lparr>idle := (idle p)(s := tl (idle p s))\<rparr>"
  from assms(1) have o: "R k p" "work_conserving (stages k) p" "ready_cap p < 0" "\<And>i. i \<in> S \<Longrightarrow> held k p i"
    by (simp_all add: outside_def)
  note l = acquire_law [OF o(1) assms(2,3)]
  have w: "work_conserving (stages k') ?p" using o(2) l by (auto simp: work_conserving_def)
  show ?thesis
  proof (cases r)
    case None
    with l w o show ?thesis by (intro exI [of _ ?p]) (auto simp: outside_def)
  next
    case (Some i)
    with l w o show ?thesis by (intro exI [of _ ?p]) (auto simp: outside_def)
  qed
qed

text \<open>An event deferred because no instance was to be had leaves no instance idle.\<close>

lemma defer_outside:
  assumes "outside R stages held k p S" and "s < stages k" and "defer_event s e k = Inr (b, k')" and "idle p s = []"
  shows "\<exists>p'. stages k' = stages k \<and> outside R stages held k' p' S \<and>
     pending p' s = (if b then pending p s @ [e] else pending p s)"
proof -
  let ?p = "if b then p\<lparr>pending := (pending p)(s := pending p s @ [e])\<rparr> else p"
  from assms(1) have o: "R k p" "work_conserving (stages k) p" "ready_cap p < 0" "\<And>i. i \<in> S \<Longrightarrow> held k p i"
    by (simp_all add: outside_def)
  from defer_law [OF o(1) assms(2,3)] have "R k' ?p" "stages k' = stages k" "\<forall>j. held k p j \<longrightarrow> held k' ?p j" by blast+
  moreover have "work_conserving (stages k) ?p" using o(2) assms(4) by (auto simp: work_conserving_def)
  ultimately show ?thesis using o(3,4) by (intro exI [of _ ?p]) (auto simp: outside_def)
qed

lemma resume_outside:
  assumes "outside R stages held k p S" and "i \<in> S" and "resume i k = Inr c"
  shows "\<exists>k' p'. c = Returned k' \<and> stages k' = stages k \<and> outside R stages held k' p' (S - {i})"
proof -
  let ?p = "p\<lparr>ready := ready p @ [Some i]\<rparr>"
  from assms(1) have o: "R k p" "work_conserving (stages k) p" "ready_cap p < 0" "\<And>i. i \<in> S \<Longrightarrow> held k p i"
    by (simp_all add: outside_def)
  have "has_room (ready_cap p) (ready p)" using o(3) by (simp add: has_room_def)
  from resume_law [OF o(1) o(4) [OF assms(2)] assms(3) this] obtain k' where k': "c = Returned k'" "stages k' = stages k"
    "R k' ?p" "\<forall>j. j \<noteq> i \<longrightarrow> held k p j \<longrightarrow> held k' ?p j" by blast
  have "outside R stages held k' ?p (S - {i})" using o k' by (simp add: outside_def work_conserving_def)
  with k'(1,2) show ?thesis by blast
qed

text \<open>A finished instance becomes idle only when no event of its stage waits.\<close>

lemma finish_outside:
  assumes "outside R stages held k p S" and "i \<in> S" and "finish i k = Inr fc"
  shows "\<exists>p'. stages (snd (call_state fc)) = stages k \<and> outside R stages held (snd (call_state fc)) p' (S - {i})"
proof -
  from assms(1) have o: "R k p" "work_conserving (stages k) p" "ready_cap p < 0" "\<And>i. i \<in> S \<Longrightarrow> held k p i"
    by (simp_all add: outside_def)
  from finish_law [OF o(1) o(4) [OF assms(2)] assms(3)] obtain p' where p': "R (snd (call_state fc)) p'"
    "stages (snd (call_state fc)) = stages k" "stage_of k i < stages k" "ready_cap p' = ready_cap p"
    "\<forall>j. j \<noteq> i \<longrightarrow> held k p j \<longrightarrow> held (snd (call_state fc)) p' j"
    and ch: "case pending p (stage_of k i) of
           [] \<Rightarrow> ready p' = ready p \<and> pending p' = pending p \<and>
             (idle p' = idle p \<or> idle p' = (idle p)(stage_of k i := idle p (stage_of k i) @ [i]))
         | e # es \<Rightarrow> idle p' = idle p \<and> pending p' = (pending p)(stage_of k i := es) \<and>
             (ready p' = ready p \<or> ready p' = ready p @ [Some i])" by blast
  have "work_conserving (stages k) p'"
    using p'(3) ch o(2) by (cases "pending p (stage_of k i)") (auto simp: work_conserving_def)
  with p' o(3,4) show ?thesis by (intro exI [of _ p']) (simp add: outside_def)
qed

end

definition stage_of :: "kernel \<Rightarrow> addr \<Rightarrow> nat" where
  "stage_of k i = nat (i_stage (the (insts k i)))"

lemma idle_tl: "idle p s = [] \<Longrightarrow> p\<lparr>idle := (idle p)(s := tl (idle p s))\<rparr> = p"
  by (metis fun_upd_triv list.sel(2) pool.surjective pool.update_convs(1))

lemma aquire_result:
  assumes "krep k p" and "s < n_s (main_graph k)" and "instance_aquire env now (int s) k = Inr (r, k')"
  shows "main_graph k' = main_graph k \<and> krep k' (p\<lparr>idle := (idle p)(s := tl (idle p s))\<rparr>) \<and>
      (\<forall>j. insts k j \<noteq> None \<longrightarrow> insts k' j \<noteq> None) \<and>
      (case r of Some i \<Rightarrow> running k' (p\<lparr>idle := (idle p)(s := tl (idle p s))\<rparr>) i \<and> stage_of k' i = s \<and> \<not> running k p i
       | None \<Rightarrow> idle p s = [])"
proof (cases "idle p s")
  case (Cons i "is")
  from idle_live [OF assms(1,2), of i] Cons obtain d where d: "insts k i = Some d" "i_stage d = int s" by auto
  have "\<not> running k p i" using Cons assms(2) by (auto simp: running_def)
  with aquire_idle [OF assms(1,2) Cons d(1), of env now] assms(3) Cons d(2) show ?thesis by (auto simp: stage_of_def)
next
  case Nil
  from aquire_no_idle [OF assms(1,2) Nil, of env now] obtain k1 where k1: "same_count k k1" "krep k1 p" "insts k1 = insts k"
    and a: "instance_aquire env now (int s) k =
      (if READ (number_of_instances k ! s) = READ (recycle_queue_limits k ! s) then Inr (None, k1)
       else instance_create env now (int s) k1)" by blast
  have eq: "number_of_instances k1 = number_of_instances k" "recycle_queue_limits k1 = recycle_queue_limits k"
    "main_graph k1 = main_graph k" using k1(1) by (simp_all add: same_count_def)
  show ?thesis
  proof (cases "READ (number_of_instances k ! s) = READ (recycle_queue_limits k ! s)")
    case True
    then show ?thesis unfolding idle_tl [OF Nil] using a assms(3) k1 eq Nil by auto
  next
    case False
    with a assms(3) have c: "instance_create env now (int s) k1 = Inr (r, k')" by simp
    have fresh: "insts k (next_inst k1) = None" "\<not> running k p (next_inst k1)"
      using krepD(4) [OF k1(2)] k1(3) by (auto simp: count_inv_def running_def)
    let ?i = "next_inst k1" and ?d = "fresh_instance (int s) (READ (number_of_instances k1 ! s) + 1)"
    have s1: "s < n_s (main_graph k1)" using assms(2) eq by simp
    from create_new [OF k1(2) s1, of env now] False eq obtain k2 where k2: "krep k2 p" "insts k2 = (insts k1)(?i \<mapsto> ?d)"
      "main_graph k2 = main_graph k1" "running k2 p ?i"
      and e: "instance_create env now (int s) k1 =
      (if \<not> load_ok env then Inr (None, k2)
       else rbind (stage_table_of (main_graph k1) (int s)) (\<lambda>tab. case boot env tab of
         None \<Rightarrow> rbind (instance_destroy now ?i k2) (\<lambda>k. Inr (None, k))
       | Some (hnd, hp) \<Rightarrow> Inr (Some ?i, set_inst ?i
           (?d\<lparr>i_L := \<lparr>stack = [], handler = hnd\<rparr>, i_heap := hp, i_init_time := now\<rparr>) k2)))" by auto
    show ?thesis
    proof (cases "load_ok env")
      case False
      with c e k2 eq k1(3) show ?thesis unfolding idle_tl [OF Nil] using Nil by auto
    next
      case True
      with c e obtain tab where t: "(case boot env tab of
         None \<Rightarrow> rbind (instance_destroy now ?i k2) (\<lambda>k. Inr (None, k))
       | Some (hnd, hp) \<Rightarrow> Inr (Some ?i, set_inst ?i
           (?d\<lparr>i_L := \<lparr>stack = [], handler = hnd\<rparr>, i_heap := hp, i_init_time := now\<rparr>) k2)) = Inr (r, k')"
        by (auto elim: rbind_InrE)
      show ?thesis
      proof (cases "boot env tab")
        case None
        from destroy_running [OF k2(1,4), of now] t None k2(2,3) eq k1(3) fresh show ?thesis
          unfolding idle_tl [OF Nil] using Nil by auto
      next
        case (Some hb)
        have i2: "insts k2 ?i = Some ?d" using k2(2) by simp
        from set_inst_krep [OF k2(1) i2] t Some k2(2,3,4) eq k1(3) fresh show ?thesis
          unfolding idle_tl [OF Nil] by (cases hb) (auto simp: stage_of_def fresh_instance_def)
      qed
    qed
  qed
qed

lemma release_result:
  assumes "krep k p" and "running k p i" and "instance_release env now i k = Inr c"
  shows "stage_of k i < n_s (main_graph k) \<and> main_graph (snd (call_state c)) = main_graph k \<and>
      (\<forall>j. j \<noteq> i \<longrightarrow> insts (snd (call_state c)) j = insts k j) \<and>
      (has_room (ready_cap p) (ready p) \<longrightarrow> (\<exists>x. c = Returned x)) \<and>
      (\<exists>p'. krep (snd (call_state c)) p' \<and> ready_cap p' = ready_cap p \<and>
        (case pending p (stage_of k i) of
           [] \<Rightarrow> ready p' = ready p \<and> pending p' = pending p \<and>
             (idle p' = idle p \<or> idle p' = (idle p)(stage_of k i := idle p (stage_of k i) @ [i]))
         | e # es \<Rightarrow> idle p' = idle p \<and> pending p' = (pending p)(stage_of k i := es) \<and>
             (ready p' = ready p \<or> ready p' = ready p @ [Some i])))"
proof -
  from assms(2) obtain d where d: "insts k i = Some d" by (auto simp: running_def)
  from live_stage [OF assms(1) d] obtain s where s: "i_stage d = int s" "s < n_s (main_graph k)" by blast
  have so: "stage_of k i = s" using d s by (simp add: stage_of_def)
  show ?thesis
  proof (cases "pending p s")
    case Nil
    from release_idle [OF assms(1,2) d s(1) Nil, of env now] obtain k' where k': "main_graph k' = main_graph k"
      "if has_room (idle_cap p s) (idle p s)
       then instance_release env now i k = Inr (Returned (0, k')) \<and>
         insts k' = (insts k)(i \<mapsto> cleared d) \<and> krep k' (p\<lparr>idle := (idle p)(s := idle p s @ [i])\<rparr>)
       else instance_release env now i k = Inr (Returned (-1, k')) \<and> insts k' = (insts k)(i := None) \<and> krep k' p"
      by blast
    show ?thesis
    proof (cases "has_room (idle_cap p s) (idle p s)")
      case True
      with k' assms(3) have "snd (call_state c) = k'" "krep k' (p\<lparr>idle := (idle p)(s := idle p s @ [i])\<rparr>)"
        "insts k' = (insts k)(i \<mapsto> cleared d)" "c = Returned (0, k')" by (auto simp: call_state_def)
      then show ?thesis unfolding so Nil using s(2) k'(1)
        by (intro conjI exI [of _ "p\<lparr>idle := (idle p)(s := idle p s @ [i])\<rparr>"]) simp_all
    next
      case False
      with k' assms(3) have "snd (call_state c) = k'" "krep k' p" "insts k' = (insts k)(i := None)" "c = Returned (-1, k')" by (auto simp: call_state_def)
      then show ?thesis unfolding so Nil using s(2) k'(1) by (intro conjI exI [of _ p]) simp_all
    qed
  next
    case (Cons e es)
    obtain k3 where "instance_release env now i k = rbind (STATS_INACTIVE (int s) k3) (\<lambda>k. rbind (STATS_ACTIVE (int s) k) (\<lambda>k.
         rbind (restore_into (runtime env) e (reloaded now d)) (\<lambda>d.
         rbind (push_ready_queue (Some i) (set_inst i d k)) (\<lambda>c. case c of
           Waiting k \<Rightarrow> Inr (Waiting (0, k)) | Returned k \<Rightarrow> Inr (Returned (0, k))))))"
      by (rule release_steps [OF assms(1,2) d s(1), of env now]) (use Cons in simp)
    with assms(3) have r: "\<exists>d'. restore_into (runtime env) e (reloaded now d) = Inr d'" by (auto simp: rbind_Inr_iff)
    then obtain d' where r: "restore_into (runtime env) e (reloaded now d) = Inr d'" ..
    let ?p = "p\<lparr>pending := (pending p)(s := es)\<rparr>"
    from release_dispatch [OF assms(1,2) d s(1) Cons r] obtain k' where k': "main_graph k' = main_graph k"
      "insts k' = (insts k)(i \<mapsto> d')" "if has_room (ready_cap p) (ready p)
       then instance_release env now i k = Inr (Returned (0, k')) \<and> krep k' (?p\<lparr>ready := ready p @ [Some i]\<rparr>)
       else instance_release env now i k = Inr (Waiting (0, k')) \<and> krep k' ?p" by blast
    show ?thesis
    proof (cases "has_room (ready_cap p) (ready p)")
      case True
      with k' assms(3) have "snd (call_state c) = k'" "krep k' (?p\<lparr>ready := ready p @ [Some i]\<rparr>)"
        "c = Returned (0, k')" by (auto simp: call_state_def)
      then show ?thesis unfolding so Cons using s(2) k'(1,2)
        by (intro conjI exI [of _ "?p\<lparr>ready := ready p @ [Some i]\<rparr>"]) simp_all
    next
      case False
      with k' assms(3) have "snd (call_state c) = k'" "krep k' ?p" by (auto simp: call_state_def)
      with False show ?thesis unfolding so Cons using s(2) k'(1,2) by (intro conjI exI [of _ ?p]) simp_all
    qed
  qed
qed

lemma push_ready_result:
  assumes "krep k p" and "running k p i" and "push_ready_queue (Some i) k = Inr c" and "has_room (ready_cap p) (ready p)"
  shows "\<exists>k'. c = Returned k' \<and> n_s (main_graph k') = n_s (main_graph k) \<and> krep k' (p\<lparr>ready := ready p @ [Some i]\<rparr>) \<and>
      (\<forall>j. j \<noteq> i \<longrightarrow> running k p j \<longrightarrow> running k' (p\<lparr>ready := ready p @ [Some i]\<rparr>) j)"
proof -
  from push_ready_ok [OF assms(1), of "Some i"] assms(2-4) obtain k' where
    k': "c = Returned k'" "krep k' (p\<lparr>ready := ready p @ [Some i]\<rparr>)" "same_count k k'" by auto
  have "running k' (p\<lparr>ready := ready p @ [Some i]\<rparr>) j" if "j \<noteq> i" "running k p j" for j
    using that same_count_running [OF k'(3), of p j] by (simp add: running_def)
  with k' same_count_graph [OF k'(3)] show ?thesis by simp
qed

lemma aquire_running:
  assumes "krep k p" and "s < n_s (main_graph k)" and "instance_aquire env now (int s) k = Inr (r, k')" and "running k p j"
  shows "running k' (p\<lparr>idle := (idle p)(s := tl (idle p s))\<rparr>) j"
proof -
  have "set (tl (idle p s)) \<subseteq> set (idle p s)" by (cases "idle p s") auto
  with aquire_result [OF assms(1-3)] assms(4) show ?thesis by (auto simp: running_def)
qed

lemma release_running:
  assumes "krep k p" and "running k p i" and "instance_release env now i k = Inr c"
    and "\<forall>j. j \<noteq> i \<longrightarrow> insts (snd (call_state c)) j = insts k j" and "main_graph (snd (call_state c)) = main_graph k"
    and "case pending p (stage_of k i) of
           [] \<Rightarrow> ready p' = ready p \<and> pending p' = pending p \<and>
             (idle p' = idle p \<or> idle p' = (idle p)(stage_of k i := idle p (stage_of k i) @ [i]))
         | e # es \<Rightarrow> idle p' = idle p \<and> pending p' = (pending p)(stage_of k i := es) \<and>
             (ready p' = ready p \<or> ready p' = ready p @ [Some i])"
    and "j \<noteq> i" and "running k p j"
  shows "running (snd (call_state c)) p' j"
  using assms(4-8) by (cases "pending p (stage_of k i)") (auto simp: running_def split: if_splits)

interpretation ip: instance_pool krep "\<lambda>k. n_s (main_graph k)" running stage_of
  "\<lambda>s. instance_aquire env now (int s)" "\<lambda>s. instance_try_push_pending_event (int s)"
  "\<lambda>i. push_ready_queue (Some i)" "instance_release env now" for env now
proof unfold_locales
  fix k p s r k' e b i c fc
  show "krep k p \<Longrightarrow> s < n_s (main_graph k) \<Longrightarrow> instance_aquire env now (int s) k = Inr (r, k') \<Longrightarrow>
      n_s (main_graph k') = n_s (main_graph k) \<and> krep k' (p\<lparr>idle := (idle p)(s := tl (idle p s))\<rparr>) \<and>
      (\<forall>j. running k p j \<longrightarrow> running k' (p\<lparr>idle := (idle p)(s := tl (idle p s))\<rparr>) j) \<and>
      (case r of Some i \<Rightarrow> running k' (p\<lparr>idle := (idle p)(s := tl (idle p s))\<rparr>) i \<and> \<not> running k p i
       | None \<Rightarrow> idle p s = [])"
    using aquire_result [of k p s env now r k'] aquire_running [of k p s env now r k'] by (auto split: option.split)
  show "krep k p \<Longrightarrow> s < n_s (main_graph k) \<Longrightarrow> instance_try_push_pending_event (int s) e k = Inr (b, k') \<Longrightarrow>
      n_s (main_graph k') = n_s (main_graph k) \<and> b = has_room (pend_cap p s) (pending p s) \<and>
      (\<forall>j. running k p j \<longrightarrow> running k' (if b then p\<lparr>pending := (pending p)(s := pending p s @ [e])\<rparr> else p) j) \<and>
      krep k' (if b then p\<lparr>pending := (pending p)(s := pending p s @ [e])\<rparr> else p)"
    using push_pending_ok [of k p s e] same_count_graph same_count_running by fastforce
  show "krep k p \<Longrightarrow> running k p i \<Longrightarrow> push_ready_queue (Some i) k = Inr c \<Longrightarrow> has_room (ready_cap p) (ready p) \<Longrightarrow>
      \<exists>k'. c = Returned k' \<and> n_s (main_graph k') = n_s (main_graph k) \<and> krep k' (p\<lparr>ready := ready p @ [Some i]\<rparr>) \<and>
      (\<forall>j. j \<noteq> i \<longrightarrow> running k p j \<longrightarrow> running k' (p\<lparr>ready := ready p @ [Some i]\<rparr>) j)"
    by (rule push_ready_result)
  show "krep k p \<Longrightarrow> running k p i \<Longrightarrow> instance_release env now i k = Inr fc \<Longrightarrow>
      stage_of k i < n_s (main_graph k) \<and> n_s (main_graph (snd (call_state fc))) = n_s (main_graph k) \<and>
      (\<exists>p'. krep (snd (call_state fc)) p' \<and> ready_cap p' = ready_cap p \<and>
        (\<forall>j. j \<noteq> i \<longrightarrow> running k p j \<longrightarrow> running (snd (call_state fc)) p' j) \<and>
        (case pending p (stage_of k i) of
           [] \<Rightarrow> ready p' = ready p \<and> pending p' = pending p \<and>
             (idle p' = idle p \<or> idle p' = (idle p)(stage_of k i := idle p (stage_of k i) @ [i]))
         | e # es \<Rightarrow> idle p' = idle p \<and> pending p' = (pending p)(stage_of k i := es) \<and>
             (ready p' = ready p \<or> ready p' = ready p @ [Some i])))"
    using release_result [of k p i env now fc] release_running [of k p i env now fc] by metis
qed

end
