(* ===== verification/Leda_Async.thy ===== *)
theory Leda_Async
  imports Leda_Pool
begin

text \<open>
  Instances that wait for I/O (\<open>src/kernel/event.c\<close>, the functions after
  \<open>do_accept\<close>): waiting for a descriptor, for a timer or for file operations, and
  what happens when libevent or the kernel's AIO interface reports completion. An
  instance handed to them is either parked, with what was registered for it, or
  goes straight back to the ready queue with an error message.
\<close>

section \<open>Replies\<close>

text \<open>
  The sequence every function here uses to resume an instance:
  \<open>lua_settop(i->L,0); GET_HANDLER(i->L);\<close> the values are pushed, \<open>i->args\<close> is set
  and \<open>push_ready_queue(i)\<close> called.
\<close>

definition reply :: "addr \<Rightarrow> lua_value list \<Rightarrow> kernel \<Rightarrow> kernel call result" where
  "reply i vs k = rbind (upd_inst i (\<lambda>d. d\<lparr>i_L := load_handler vs (i_L d), i_args := length vs\<rparr>) k)
     (push_ready_queue (Some i))"

text \<open>What an instance waits for; the instance is the argument of the callback.\<close>

datatype io_wait =
    WaitFd int int addr
  | Timer lua_Number addr
  | AioRead int int addr
  | AioWrite int "byte list" addr
  | AckWait int addr

fun waiter :: "io_wait \<Rightarrow> addr" where
  "waiter (WaitFd fd m i) = i"
| "waiter (Timer t i) = i"
| "waiter (AioRead fd n i) = i"
| "waiter (AioWrite fd s i) = i"
| "waiter (AckWait fd i) = i"

definition call_map :: "('a \<Rightarrow> 'b) \<Rightarrow> 'a call \<Rightarrow> 'b call" where
  "call_map f c = (case c of Waiting x \<Rightarrow> Waiting (f x) | Returned x \<Rightarrow> Returned (f x))"

definition replied :: "addr \<Rightarrow> lua_value list \<Rightarrow> kernel \<Rightarrow> (io_wait option \<times> kernel) call result" where
  "replied i vs k = rbind (reply i vs k) (\<lambda>c. Inr (call_map (Pair None) c))"

definition parked :: "io_wait \<Rightarrow> kernel \<Rightarrow> (io_wait option \<times> kernel) call result" where
  "parked w k = Inr (Returned (Some w, k))"

section \<open>Waiting\<close>

definition EV_READ :: int where "EV_READ = 2"
definition EV_WRITE :: int where "EV_WRITE = 4"

text \<open>\<open>io_ready\<close>, the callback of descriptors and timers.\<close>

definition io_ready :: "addr \<Rightarrow> kernel \<Rightarrow> kernel call result" where
  "io_ready i k = reply i [LBoolean True] k"

definition event_wait_io ::
  "(byte list \<Rightarrow> lua_Number option) \<Rightarrow> addr \<Rightarrow> kernel \<Rightarrow> (io_wait option \<times> kernel) call result" where
  "event_wait_io conv i k = rbind (get_inst k i) (\<lambda>d. let st = stack (i_L d) in
     if lua_type st 1 \<noteq> LUA_TNUMBER then replied i (lua_fail ''Invalid argument'') k
     else let fd = c_int (lua_tointeger conv st 1) in
       if lua_type st 2 \<noteq> LUA_TNUMBER then replied i (lua_fail ''Invalid argument'') k
       else let mode = c_int (lua_tointeger conv st 2) in
         if mode = 1 then parked (WaitFd fd EV_READ i) k
         else if mode = 2 then parked (WaitFd fd EV_WRITE i) k
         else if mode = 3 then parked (WaitFd fd (EV_READ OR EV_WRITE) i) k
         else replied i (lua_fail ''Invalid argument'') k)"

text \<open>
  \<open>event_sleep\<close>; the last argument is what \<open>event_add\<close> answers. A double is
  less than zero when its sign is set and it is neither a zero nor a NaN.
\<close>

definition num_less_zero :: "lua_Number \<Rightarrow> bool" where
  "num_less_zero w \<longleftrightarrow> num_neg w \<and> (num_exp w \<noteq> 0 \<or> num_frac w \<noteq> 0) \<and> \<not> is_nan (LNumber w)"

definition event_sleep ::
  "(byte list \<Rightarrow> lua_Number option) \<Rightarrow> bool \<Rightarrow> addr \<Rightarrow> kernel \<Rightarrow> (io_wait option \<times> kernel) call result" where
  "event_sleep conv add_ok i k = rbind (get_inst k i) (\<lambda>d. let st = stack (i_L d) in
     if lua_type st 1 \<noteq> LUA_TNUMBER then replied i (lua_fail ''Invalid argument'') k
     else let time = lua_tonumber conv st 1 in
       if num_less_zero time then replied i (lua_fail ''Invalid timer'') k
       else if \<not> add_ok then replied i (lua_fail ''Error setting timer event'') k
       else parked (Timer time i) k)"

text \<open>
  \<open>event_do_file_aio\<close>: \<open>file_fd\<close> tells the descriptor of a file userdata; for any
  other value \<open>luaL_checkudata\<close> raises an error, here outside of every protected
  call. The result of the submission is not looked at.
\<close>

definition event_do_file_aio ::
  "(byte list \<Rightarrow> lua_Number option) \<Rightarrow> (lua_value \<Rightarrow> int option) \<Rightarrow> addr \<Rightarrow> kernel \<Rightarrow>
   (io_wait option \<times> kernel) call result" where
  "event_do_file_aio conv file_fd i k = rbind (get_inst k i) (\<lambda>d. let st = stack (i_L d) in
     case (case lua_index st 1 of None \<Rightarrow> None | Some v \<Rightarrow> file_fd v) of
       None \<Rightarrow> Inl (LuaError ''bad argument #1 (FILE* expected)'')
     | Some fd \<Rightarrow>
       if lua_type st 2 \<noteq> LUA_TNUMBER then replied i (lua_fail ''Invalid argument'') k
       else let mode = c_int (lua_tointeger conv st 2) in
         if mode = 1 then
           if lua_type st 3 = LUA_TNUMBER then parked (AioRead fd (c_int (lua_tointeger conv st 3)) i) k
           else replied i (lua_fail ''Invalid argument'') k
         else if mode = 2 then
           (case lua_index st 3 of Some (LString s) \<Rightarrow> parked (AioWrite fd s i) k
            | _ \<Rightarrow> replied i (lua_fail ''Invalid argument'') k)
         else replied i (lua_fail ''Invalid argument'') k)"

text \<open>
  \<open>event_aio_op_ready\<close>: the completions that \<open>io_getevents\<close> returned, each the
  operation, its result \<open>res\<close> and, for a read, the contents of its buffer. The
  call that finds the ready queue full waits there, in the event thread.
\<close>

definition aio_done :: "io_wait \<Rightarrow> int \<Rightarrow> byte list \<Rightarrow> kernel \<Rightarrow> kernel call result" where
  "aio_done w res buf k = (case w of
     AioRead fd n i \<Rightarrow> if res > 0 then reply i [LString (take (nat res) buf)] k else reply i (lua_fail ''EOF'') k
   | AioWrite fd s i \<Rightarrow> if res > 0 then reply i [LInteger res] k else reply i (lua_fail ''Write error'') k
   | _ \<Rightarrow> Inr (Returned k))"

fun event_aio_op_ready :: "(io_wait \<times> int \<times> byte list) list \<Rightarrow> kernel \<Rightarrow> kernel call result" where
  "event_aio_op_ready [] k = Inr (Returned k)"
| "event_aio_op_ready ((w, res, buf) # es) k =
     rbind (aio_done w res buf k) (\<lambda>c. case c of
       Waiting k \<Rightarrow> Inr (Waiting k) | Returned k \<Rightarrow> event_aio_op_ready es k)"

section \<open>An instance handed over is parked or resumed\<close>

lemma reply_ok:
  assumes "krep k p" and "running k p i" and "insts k i = Some d"
  shows "\<exists>k'. main_graph k' = main_graph k \<and>
     insts k' = (insts k)(i \<mapsto> d\<lparr>i_L := load_handler vs (i_L d), i_args := length vs\<rparr>) \<and>
     (if has_room (ready_cap p) (ready p)
      then reply i vs k = Inr (Returned k') \<and> krep k' (p\<lparr>ready := ready p @ [Some i]\<rparr>)
      else reply i vs k = Inr (Waiting k') \<and> krep k' p)"
proof -
  let ?d = "d\<lparr>i_L := load_handler vs (i_L d), i_args := length vs\<rparr>"
  have i: "i \<noteq> 0" using count_inv_inst(3) [OF krepD(4) [OF assms(1)] assms(3)] .
  note s = set_inst_krep [OF assms(1,3), of ?d]
  have r: "reply i vs k = push_ready_queue (Some i) (set_inst i ?d k)"
    using i assms(3) by (simp add: reply_def upd_inst_def get_inst_def)
  have run: "running (set_inst i ?d k) p i" using s(2) assms(2) by simp
  show ?thesis
  proof (cases "has_room (ready_cap p) (ready p)")
    case True
    with push_ready_ok [OF s(1), of "Some i"] run obtain k' where k': "push_ready_queue (Some i) (set_inst i ?d k) = Inr (Returned k')"
      "krep k' (p\<lparr>ready := ready p @ [Some i]\<rparr>)" "same_count (set_inst i ?d k) k'" "insts k' = insts (set_inst i ?d k)" by auto
    then show ?thesis using True r s(3,4) same_count_graph [OF k'(3)] by (intro exI [of _ k']) simp
  next
    case False
    with push_ready_ok [OF s(1), of "Some i"] run obtain k' where k': "push_ready_queue (Some i) (set_inst i ?d k) = Inr (Waiting k')"
      "krep k' p" "same_count (set_inst i ?d k) k'" "insts k' = insts (set_inst i ?d k)" by auto
    then show ?thesis using False r s(3,4) same_count_graph [OF k'(3)] by (intro exI [of _ k']) simp
  qed
qed

text \<open>The two outcomes, for the state and its pool.\<close>

definition handed_over :: "kernel \<Rightarrow> pool \<Rightarrow> addr \<Rightarrow> (io_wait option \<times> kernel) call result \<Rightarrow> bool" where
  "handed_over k p i r \<longleftrightarrow>
     (\<exists>w. r = Inr (Returned (Some w, k)) \<and> waiter w = i) \<or>
     (\<exists>vs k'. r = Inr (Returned (None, k')) \<and> krep k' (p\<lparr>ready := ready p @ [Some i]\<rparr>) \<and>
        insts k' = (insts k)(i \<mapsto> (the (insts k i))\<lparr>i_L := load_handler vs (i_L (the (insts k i))), i_args := length vs\<rparr>)) \<or>
     (\<exists>k'. r = Inr (Waiting (None, k')) \<and> krep k' p \<and> \<not> has_room (ready_cap p) (ready p))"

lemma handed_over_parked: "waiter w = i \<Longrightarrow> handed_over k p i (parked w k)"
  by (auto simp: handed_over_def parked_def)

lemma handed_over_replied:
  assumes "krep k p" and "running k p i" and "insts k i = Some d"
  shows "handed_over k p i (replied i vs k)"
  using reply_ok [OF assms, of vs] assms(3)
  by (auto simp: handed_over_def replied_def call_map_def split: if_splits)



end
