(* ===== verification/Leda_Network.thy ===== *)
theory Leda_Network
  imports Leda_Async
begin

text \<open>
  Events sent to another process (\<open>src/kernel/event.c\<close>, the middle part): the wire
  format, the pool of connections, the choice of the destination process, and the
  asynchronous send with its acknowledgement. What the operating system answers
  to \<open>inet_aton\<close>, \<open>socket\<close>, \<open>connect\<close>, \<open>read\<close> and \<open>write\<close> is an argument.
\<close>

section \<open>State\<close>

text \<open>
  The kernel with the connection pools (idle descriptors per process), the
  round-robin position of each cluster and what is registered with libevent.
\<close>

record node =
  kern :: kernel
  sockets :: "int LFQueue list"
  cur_process :: "atomicInt list"
  armed :: "io_wait list"

text \<open>
  The answers to one connection attempt, and to successive \<open>write\<close> calls: an error
  with \<open>EAGAIN\<close>, another error, or the number of bytes taken.
\<close>

record conn_env =
  aton_ok :: "byte list \<Rightarrow> bool"
  sock_answer :: int
  connect_answer :: int

datatype io_answer = Again | Fail | Wrote nat

definition EVENT_TYPE :: byte where "EVENT_TYPE = 28"
definition INIT_TYPE :: byte where "INIT_TYPE = 27"

text \<open>\<open>%d\<close> of \<open>lua_pushfstring\<close>.\<close>

fun dec_nat :: "nat \<Rightarrow> byte list" where
  "dec_nat n = (if n < 10 then [of_nat (48 + n)] else dec_nat (n div 10) @ [of_nat (48 + n mod 10)])"

declare dec_nat.simps [simp del]

definition dec_int :: "int \<Rightarrow> byte list" where
  "dec_int z = (if z < 0 then 45 # dec_nat (nat (- z)) else dec_nat (nat z))"

definition process_text :: "graph_data \<Rightarrow> int \<Rightarrow> byte list result" where
  "process_text g p = rbind (PROCESS g p) (\<lambda>pd. Inr (c_string (pd_host pd) @ lit '':'' @ dec_int (pd_port pd)))"

section \<open>The wire format\<close>

text \<open>One type byte, the stage as a 4-byte \<open>int\<close>, the length as an 8-byte \<open>size_t\<close>, the payload.\<close>

definition wire_event :: "int \<Rightarrow> byte list \<Rightarrow> byte list" where
  "wire_event s_id payload =
     EVENT_TYPE # le_bytes 4 (nat (s_id mod 2 ^ 32)) @ le_bytes 8 (length payload) @ payload"

text \<open>The write loop: what has been written when it ends, or that it has not ended yet.\<close>

datatype write_end = AllSent "byte list" | WriteFailed "byte list" | StillWriting "byte list"

fun write_loop :: "io_answer list \<Rightarrow> byte list \<Rightarrow> byte list \<Rightarrow> write_end" where
  "write_loop as [] sent = AllSent sent"
| "write_loop [] (b # bs) sent = StillWriting sent"
| "write_loop (a # as) (b # bs) sent = (case a of
     Again \<Rightarrow> write_loop as (b # bs) sent
   | Fail \<Rightarrow> WriteFailed sent
   | Wrote n \<Rightarrow> write_loop as (drop n (b # bs)) (sent @ take n (b # bs)))"

section \<open>Connections\<close>

definition pop_socket :: "int \<Rightarrow> node \<Rightarrow> (int option \<times> node) result" where
  "pop_socket p n = rbind (array_get (sockets n) p) (\<lambda>q. rbind (queue_try_pop q) (\<lambda>(r, q).
     rbind (array_set (sockets n) p q) (\<lambda>qs. Inr (r, n\<lparr>sockets := qs\<rparr>))))"

definition push_socket :: "int \<Rightarrow> int \<Rightarrow> node \<Rightarrow> (bool \<times> node) result" where
  "push_socket p fd n = rbind (array_get (sockets n) p) (\<lambda>q. rbind (queue_try_push q fd) (\<lambda>(r, q).
     rbind (array_set (sockets n) p q) (\<lambda>qs. Inr (r, n\<lparr>sockets := qs\<rparr>))))"

definition on_kern :: "(kernel \<Rightarrow> kernel result) \<Rightarrow> node \<Rightarrow> node result" where
  "on_kern f n = rbind (f (kern n)) (\<lambda>k. Inr (n\<lparr>kern := k\<rparr>))"

definition on_kern_call :: "(kernel \<Rightarrow> kernel call result) \<Rightarrow> node \<Rightarrow> node call result" where
  "on_kern_call f n = rbind (f (kern n)) (\<lambda>c. Inr (call_map (\<lambda>k. n\<lparr>kern := k\<rparr>) c))"

text \<open>\<open>lua_pop(i->L,1)\<close>, then \<open>false\<close> and a message pushed on the stack of the instance.\<close>

definition push_failure :: "addr \<Rightarrow> byte list \<Rightarrow> node \<Rightarrow> node result" where
  "push_failure i msg = on_kern (upd_inst i (\<lambda>d. d\<lparr>i_L := (i_L d)\<lparr>stack :=
     butlast (stack (i_L d)) @ [LBoolean False, LString msg]\<rparr>\<rparr>))"

text \<open>
  \<open>event_get_process_sock\<close>: a pooled or a new descriptor; after a failure it has
  pushed two values for the instance and returns 2.
\<close>

definition event_get_process_sock :: "conn_env \<Rightarrow> addr \<Rightarrow> int \<Rightarrow> node \<Rightarrow> (int \<times> node) result" where
  "event_get_process_sock env i dst_id n = rbind (pop_socket dst_id n) (\<lambda>(r, n). case r of
     Some sockfd \<Rightarrow> Inr (sockfd, n)
   | None \<Rightarrow> rbind (PROCESS (main_graph (kern n)) dst_id) (\<lambda>pd.
       if \<not> aton_ok env (pd_host pd) then
         rbind (push_failure i (lit ''Bad address '' @ [39] @ c_string (pd_host pd) @ [39]) n) (\<lambda>n. Inr (2, n))
       else if sock_answer env < 0 then
         rbind (push_failure i (lit ''Could not create socket'') n) (\<lambda>n. Inr (2, n))
       else if connect_answer env < 0 then
         rbind (process_text (main_graph (kern n)) dst_id) (\<lambda>t.
         rbind (push_failure i (lit ''Could not establish connection with process '' @ [39] @ t @ [39]) n) (\<lambda>n. Inr (2, n)))
       else Inr (sock_answer env, n)))"

text \<open>
  The next process of the stage's cluster: \<open>STORE\<close> returns the position before the
  step. The division by the number of processes is unsigned, of 64 bits.
\<close>

definition next_process :: "int \<Rightarrow> node \<Rightarrow> (int \<times> node) result" where
  "next_process s_id n =
     rbind (STAGE (main_graph (kern n)) s_id) (\<lambda>sd. rbind (array_get (cur_process n) (sd_cluster sd)) (\<lambda>cp.
     rbind (CLUSTER (main_graph (kern n)) (sd_cluster sd)) (\<lambda>cl.
     let np = length (cl_processes cl) in
     if np = 0 then Inl DivByZero
     else let (old, cp') = atomic_fetch_and_store cp ((READ cp + 1) mod of_nat np) in
       rbind (array_set (cur_process n) (sd_cluster sd) cp') (\<lambda>cs.
       rbind (array_get (cl_processes cl) (c_int (sint old))) (\<lambda>dst. Inr (dst, n\<lparr>cur_process := cs\<rparr>))))))"

text \<open>
  \<open>send_async_event\<close>: \<open>None\<close> while the loop of writes has not ended; otherwise the
  return value. The instance is handed to libevent only at the very end.
\<close>

definition send_async_event ::
  "conn_env \<Rightarrow> io_answer list \<Rightarrow> addr \<Rightarrow> int \<Rightarrow> int \<Rightarrow> int \<Rightarrow> byte list \<Rightarrow> node \<Rightarrow> (int option \<times> node) result" where
  "send_async_event env as i s_id con_id communication_time payload n =
     rbind (next_process s_id n) (\<lambda>(dst_id, n).
     rbind (event_get_process_sock env i dst_id n) (\<lambda>(sockfd, n).
     case write_loop as (wire_event s_id payload) [] of
       StillWriting _ \<Rightarrow> Inr (None, n)
     | WriteFailed _ \<Rightarrow> Inr (Some (-1), n)
     | AllSent _ \<Rightarrow>
         rbind (on_kern (upd_inst i (\<lambda>d. d\<lparr>i_last_proc := dst_id, i_con_id := con_id,
             i_communication_time := communication_time\<rparr>)) n) (\<lambda>n.
         Inr (Some 0, n\<lparr>armed := armed n @ [AckWait sockfd i]\<rparr>))))"

text \<open>
  \<open>do_read_ack\<close>, called when the descriptor is readable: \<open>sz\<close> is what \<open>read\<close>
  returned and is compared as a \<open>size_t\<close>; \<open>strerr\<close> is the text of the error.
\<close>

definition STATS_UPDATE_EVENTS :: "int \<Rightarrow> c_long \<Rightarrow> int \<Rightarrow> int \<Rightarrow> kernel \<Rightarrow> kernel result" where
  "STATS_UPDATE_EVENTS s e con t = on_stats (stats_update_events s e con (of_int t))"

definition do_read_ack ::
  "int \<Rightarrow> byte list \<Rightarrow> int \<Rightarrow> byte list \<Rightarrow> int \<Rightarrow> addr \<Rightarrow> node \<Rightarrow> node call result" where
  "do_read_ack now strerr sz buf fd i n =
     (let n = n\<lparr>armed := remove1 (AckWait fd i) (armed n)\<rparr> in
      rbind (get_inst (kern n) i) (\<lambda>d. let dst_id = i_last_proc d in
      if size_of_int sz \<le> 0 then
        if size_of_int sz = 0 then rbind (process_text (main_graph (kern n)) dst_id) (\<lambda>t.
          on_kern_call (reply i [LBoolean False, LString (lit ''Error sending event to process: Process '' @ [39] @ t @ [39] @
            lit '' closed the connection'')]) n)
        else on_kern_call (reply i [LBoolean False, LString (lit ''Error sending event to process: '' @ strerr)]) n
      else if size_of_int sz = 1 \<and> (case buf of [] \<Rightarrow> False | b # _ \<Rightarrow> b = 1) then
        rbind (push_socket dst_id fd n) (\<lambda>(_, n).
        rbind (on_kern (upd_inst i (\<lambda>d. d\<lparr>i_L := load_handler [LBoolean True] (i_L d), i_args := 1\<rparr>)) n) (\<lambda>n.
        rbind (if i_con_id d \<ge> 0
               then on_kern (STATS_UPDATE_EVENTS (i_stage d) 1 (i_con_id d) (now - i_communication_time d)) n
               else Inr n) (\<lambda>n.
        on_kern_call (push_ready_queue (Some i)) n)))
      else rbind (process_text (main_graph (kern n)) dst_id) (\<lambda>t.
        on_kern_call (reply i [LBoolean False, LString (lit ''Error sending event to process '' @ [39] @ t @ [39] @
          lit '': Event queue is full'')]) n)))"

section \<open>Synchronous sending\<close>

text \<open>
  \<open>send_sync_event\<close> with the stage and the payload it takes from the stack of its
  caller: the number of results it returns and the values on top of the stack. The
  last argument is what reading the one-byte acknowledgement answered.
\<close>

definition sync_failure :: "byte list \<Rightarrow> int \<times> lua_value list" where
  "sync_failure msg = (2, [LBoolean False, LString msg])"

definition send_sync_event ::
  "conn_env \<Rightarrow> io_answer list \<Rightarrow> byte list \<Rightarrow> int \<times> byte \<Rightarrow> int \<Rightarrow> byte list \<Rightarrow> node \<Rightarrow>
   ((int \<times> lua_value list) option \<times> node) result" where
  "send_sync_event env as strerr ack s_id payload n =
     rbind (next_process s_id n) (\<lambda>(dst_id, n). rbind (pop_socket dst_id n) (\<lambda>(r, n).
     rbind (PROCESS (main_graph (kern n)) dst_id) (\<lambda>pd. rbind (process_text (main_graph (kern n)) dst_id) (\<lambda>t.
     let transfer = (\<lambda>sockfd n. case write_loop as (wire_event s_id payload) [] of
         StillWriting _ \<Rightarrow> Inr (None, n)
       | WriteFailed _ \<Rightarrow> Inr (Some (-1, []), n)
       | AllSent _ \<Rightarrow>
           if fst ack \<le> 0 then
             Inr (Some (sync_failure (lit ''Error sending event to process '' @ [39] @ t @ [39] @ lit '': '' @ strerr)), n)
           else if snd ack = 1 then rbind (push_socket dst_id sockfd n) (\<lambda>(_, n). Inr (Some (1, [LBoolean True]), n))
           else Inr (Some (sync_failure (lit ''Error sending event to process '' @ [39] @ t @ [39] @ lit '': '' @
             dec_int (sint (snd ack)))), n))
     in case r of Some sockfd \<Rightarrow> transfer sockfd n
      | None \<Rightarrow>
         if \<not> aton_ok env (pd_host pd) then
           Inr (Some (sync_failure (lit ''Bad address '' @ [39] @ c_string (pd_host pd) @ [39])), n)
         else if sock_answer env < 0 then Inr (Some (sync_failure (lit ''Could not create socket'')), n)
         else if connect_answer env < 0 then
           Inr (Some (sync_failure (lit ''Could not establish connection with process '' @ [39] @ t @ [39])), n)
         else transfer (sock_answer env) n))))"

end
