(* ===== verification/Leda_Scheduler.thy ===== *)
theory Leda_Scheduler
  imports Leda_Network
begin

text \<open>
  The threads that run instances (\<open>src/kernel/scheduler.c\<close>): what a thread does
  before and after the handler of an instance runs, the events a handler emits,
  and the descriptors of threads.

  The handler itself is Lua code. A thread enters an instance (\<open>thread_enter\<close>),
  the handler runs and may call \<open>emmit\<close>, and when \<open>lua_pcall\<close> comes back its
  outcome is dispatched (\<open>thread_leave\<close>).
\<close>

section \<open>Status codes\<close>

definition ENDED :: int where "ENDED = 0xF1F21AB"
definition EMMIT_COHORT :: int where "EMMIT_COHORT = ENDED + 1"
definition EMMIT_REMOTE :: int where "EMMIT_REMOTE = ENDED + 2"
definition WAIT_IO :: int where "WAIT_IO = ENDED + 3"
definition FILE_IO :: int where "FILE_IO = ENDED + 4"
definition SLEEP :: int where "SLEEP = ENDED + 5"
definition PCALL_ERROR :: int where "PCALL_ERROR = ENDED + 6"
definition DESTROY :: int where "DESTROY = ENDED + 7"
definition NICE :: int where "NICE = ENDED + 8"

lemmas status_defs = ENDED_def EMMIT_COHORT_def EMMIT_REMOTE_def WAIT_IO_def FILE_IO_def SLEEP_def
  PCALL_ERROR_def DESTROY_def NICE_def

definition get_return_status_name :: "int \<Rightarrow> string" where
  "get_return_status_name status =
     (if status = ENDED then ''ENDED'' else if status = EMMIT_COHORT then ''EMMIT_COHORT''
      else if status = PCALL_ERROR then ''PCALL_ERROR'' else if status = EMMIT_REMOTE then ''EMMIT_REMOTE''
      else if status = NICE then ''NICE'' else if status = WAIT_IO then ''WAIT_IO''
      else if status = FILE_IO then ''FILE_IO'' else if status = SLEEP then ''SLEEP''
      else if status = DESTROY then ''DESTROY'' else ''UNKNOWN'')"

text \<open>
  The functions by which a handler yields: the status code goes to the bottom of
  its stack and everything is passed to \<open>lua_yield\<close>.
\<close>

definition wait_io :: "lua_value list \<Rightarrow> lua_value list" where "wait_io st = LInteger WAIT_IO # st"
definition do_file_aio :: "lua_value list \<Rightarrow> lua_value list" where "do_file_aio st = LInteger FILE_IO # st"
definition leda_sleep :: "lua_value list \<Rightarrow> lua_value list" where "leda_sleep st = LInteger SLEEP # st"
definition leda_destroy :: "lua_value list \<Rightarrow> lua_value list" where "leda_destroy st = LInteger DESTROY # st"
definition cohort :: "lua_value list \<Rightarrow> lua_value list" where "cohort st = LInteger EMMIT_COHORT # st"

section \<open>Environment\<close>

text \<open>
  What the threads find outside: the code of the stages, the network, timers and
  files, the text of the last error, the time when the call starts and ends.
\<close>

record sched_env =
  ienv :: instance_env
  conv :: "byte list \<Rightarrow> lua_Number option"
  conn :: conn_env
  writes :: "io_answer list"
  ack :: "int \<times> byte"
  strerr :: "byte list"
  timer_ok :: bool
  file_fd :: "lua_value \<Rightarrow> int option"
  now :: int
  later :: int

text \<open>\<open>lua_pcall\<close>: an error message, or the results, with the heap the handler left.\<close>

datatype pcall_result = PcallFailed "byte list" | PcallDone "lua_value list" lua_heap

text \<open>A call from Lua returns values or raises an error that the handler's \<open>lua_pcall\<close> gets.\<close>

datatype lua_ret = LuaReturns int "lua_value list" | LuaRaises

definition name_text :: "graph_data \<Rightarrow> int \<Rightarrow> string \<Rightarrow> string \<Rightarrow> byte list result" where
  "name_text g s pre post = rbind (STAGE g s) (\<lambda>sd. Inr (lit pre @ c_string (sd_name sd) @ lit post))"

section \<open>Emitting\<close>

text \<open>
  Copying the arguments into the acquired instance with what the caller's errors
  leave behind: \<open>copy_values_directly\<close> up to the first value whose copying raises an
  error in the state of the caller (\<open>Inl\<close>), or completely (\<open>Inr\<close>).
\<close>

definition raises_in_source :: "nat \<Rightarrow> lua_heap \<Rightarrow> lua_value list \<Rightarrow> nat \<Rightarrow> bool" where
  "raises_in_source d h st i = (case lua_index st i of None \<Rightarrow> True
     | Some v \<Rightarrow> (case v of LThread _ \<Rightarrow> True
       | LTable _ \<Rightarrow> (case mar_encode d h [] False v of Inl (LuaError _) \<Rightarrow> True | _ \<Rightarrow> False)
       | LFunction _ \<Rightarrow> (case mar_encode d h [] False v of Inl (LuaError _) \<Rightarrow> True | _ \<Rightarrow> False)
       | LUserdata _ \<Rightarrow> (case mar_encode d h [] False v of Inl (LuaError _) \<Rightarrow> True | _ \<Rightarrow> False)
       | _ \<Rightarrow> False))"

fun copy_args :: "nat \<Rightarrow> lua_runtime \<Rightarrow> lua_heap \<Rightarrow> lua_value list \<Rightarrow> nat list \<Rightarrow> lua_value list \<times> lua_heap \<Rightarrow>
    ((lua_value list \<times> lua_heap) + (lua_value list \<times> lua_heap)) result" where
  "copy_args d rt h st [] dst = Inr (Inr dst)"
| "copy_args d rt h st (i # is) dst =
     (if raises_in_source d h st i then Inr (Inl dst)
      else rbind (copy_value d rt h st i dst) (copy_args d rt h st is))"

definition count_event :: "int \<Rightarrow> int \<Rightarrow> int \<Rightarrow> kernel \<Rightarrow> kernel result" where
  "count_event s con_id t k = (if con_id \<ge> 0 then STATS_UPDATE_EVENTS s 1 con_id t k else Inr k)"

definition count_connector_event :: "int \<Rightarrow> int \<Rightarrow> kernel \<Rightarrow> kernel result" where
  "count_connector_event con_id t k = (if con_id \<ge> 0
     then rbind (CONNECTOR (main_graph k) con_id) (\<lambda>c. STATS_UPDATE_EVENTS (cd_p c) 1 con_id t k) else Inr k)"

text \<open>
  The local part of \<open>emmit\<close>, from \<open>lua_remove(L,2)\<close> on: \<open>st\<close> is the stack of the
  caller, \<open>h\<close> its heap. An error raised after the instance has been acquired
  leaves that instance as it is.
\<close>

definition emmit_local ::
  "sched_env \<Rightarrow> lua_heap \<Rightarrow> lua_value list \<Rightarrow> int \<Rightarrow> int \<Rightarrow> kernel \<Rightarrow> (lua_ret \<times> kernel) call result" where
  "emmit_local e h st dst_id con_id k =
     (let st = lua_remove st 2; args = length st - 1; rt = runtime (ienv e); depth = enc_depth (ienv e) in
      rbind (instance_aquire (ienv e) (now e) dst_id k) (\<lambda>(r, k). case r of
        None \<Rightarrow> (case extract_event_from_lua_state depth h st 2 args of
            Inl (LuaError _) \<Rightarrow> Inr (Returned (LuaRaises, k))
          | Inl f \<Rightarrow> Inl f
          | Inr (Unsupported _) \<Rightarrow> Inr (Returned (LuaRaises, k))
          | Inr (Extracted ev) \<Rightarrow> rbind (instance_try_push_pending_event dst_id ev k) (\<lambda>(ok, k).
              if \<not> ok then rbind (name_text (main_graph k) dst_id ''Event queue for the stage '' '' is full.'') (\<lambda>t.
                Inr (Returned (LuaReturns 2 [LNil, LString t], k)))
              else rbind (count_connector_event con_id (later e - now e) k) (\<lambda>k.
                Inr (Returned (LuaReturns 1 [LBoolean True], k)))))
      | Some dst \<Rightarrow> rbind (get_inst k dst) (\<lambda>d.
          rbind (copy_args depth rt h st [2..<2 + args] (stack (i_L d) @ [handler (i_L d)], i_heap d)) (\<lambda>c. case c of
            Inl (vs, hp) \<Rightarrow> Inr (Returned (LuaRaises, set_inst dst (d\<lparr>i_L := (i_L d)\<lparr>stack := vs\<rparr>, i_heap := hp\<rparr>) k))
          | Inr (vs, hp) \<Rightarrow>
              rbind (push_ready_queue (Some dst)
                  (set_inst dst (d\<lparr>i_L := (i_L d)\<lparr>stack := vs\<rparr>, i_heap := hp, i_args := args\<rparr>) k)) (\<lambda>c. case c of
                Waiting k \<Rightarrow> Inr (Waiting (LuaReturns 0 [], k))
              | Returned k \<Rightarrow> rbind (count_connector_event con_id (later e - now e) k) (\<lambda>k.
                  Inr (Returned (LuaReturns 1 [LBoolean True], k))))))))"

text \<open>
  The payload of a remote event: a new table of the arguments, encoded with the
  conversion of userdata switched off.
\<close>

definition args_table :: "lua_value list \<Rightarrow> lua_heap \<Rightarrow> addr \<times> lua_heap" where
  "args_table vs h = (let (a, h) = lua_newtable h in
     (a, h\<lparr>tabs := (tabs h)(a \<mapsto> \<lparr>entries = fold (\<lambda>(i, v). rawset_entries (LInteger (int i)) v)
        (enumerate 1 vs) [], t_persist = None\<rparr>)\<rparr>))"

definition remote_payload :: "nat \<Rightarrow> lua_heap \<Rightarrow> lua_value list \<Rightarrow> byte list result" where
  "remote_payload depth h st = (let (a, h) = args_table (drop 1 st) h in mar_encode depth h [] True (LTable a))"

definition emmit_remote_sync ::
  "sched_env \<Rightarrow> lua_heap \<Rightarrow> lua_value list \<Rightarrow> node \<Rightarrow> (lua_ret \<times> node) option result" where
  "emmit_remote_sync e h st n =
     (let con_id = c_int (lua_tointeger (conv e) st 2); st = lua_remove st 2 in
      case remote_payload (enc_depth (ienv e)) h st of
        Inl (LuaError _) \<Rightarrow> Inr (Some (LuaRaises, n))
      | Inl f \<Rightarrow> Inl f
      | Inr payload \<Rightarrow>
          rbind (send_sync_event (conn e) (writes e) (strerr e) (ack e) (c_int (lua_tointeger (conv e) st 1)) payload n)
            (\<lambda>(r, n). case r of None \<Rightarrow> Inr None
             | Some (resp, vs) \<Rightarrow> rbind (on_kern (count_connector_event con_id (later e - now e)) n) (\<lambda>n.
                 Inr (Some (LuaReturns resp vs, n)))))"

definition emmit :: "sched_env \<Rightarrow> lua_heap \<Rightarrow> lua_value list \<Rightarrow> node \<Rightarrow> (lua_ret \<times> node) call option result" where
  "emmit e h st n =
     (let dst_id = c_int (lua_tointeger (conv e) st 1); con_id = c_int (lua_tointeger (conv e) st 2);
          g = main_graph (kern n) in
      rbind (STAGE g dst_id) (\<lambda>sd. rbind (CLUSTER g (sd_cluster sd)) (\<lambda>cl.
      if \<not> cl_local cl then rbind (emmit_remote_sync e h st n) (\<lambda>r. Inr (map_option Returned r))
      else rbind (emmit_local e h st dst_id con_id (kern n)) (\<lambda>c.
        Inr (Some (call_map (\<lambda>(r, k). (r, n\<lparr>kern := k\<rparr>)) c))))))"

text \<open>\<open>emmit_packed_event\<close>, for an event that has arrived from the network.\<close>

definition emmit_packed_event ::
  "instance_env \<Rightarrow> int \<Rightarrow> int \<Rightarrow> byte list \<Rightarrow> kernel \<Rightarrow> (int \<times> kernel) call result" where
  "emmit_packed_event env t dst_id data k =
     rbind (instance_aquire env t dst_id k) (\<lambda>(r, k). case r of
       None \<Rightarrow> rbind (instance_try_push_pending_event dst_id (Packed data) k) (\<lambda>(ok, k).
         Inr (Returned (if ok then 0 else -1, k)))
     | Some dst \<Rightarrow> rbind (upd_inst dst (\<lambda>d. d\<lparr>i_packed := Some (Packed data)\<rparr>) k) (\<lambda>k.
         rbind (push_ready_queue (Some dst) k) (\<lambda>c. Inr (call_map (Pair 0) c))))"

section \<open>Running instances\<close>

definition emmit_self :: "addr \<Rightarrow> kernel \<Rightarrow> kernel call result" where
  "emmit_self i k = reply i [LBoolean True] k"

text \<open>Before the handler runs: a packed event is unpacked onto the stack.\<close>

definition thread_enter :: "instance_env \<Rightarrow> addr \<Rightarrow> kernel \<Rightarrow> kernel result" where
  "thread_enter env i k = rbind (get_inst k i) (\<lambda>d. case i_packed d of
     None \<Rightarrow> Inr k
   | Some ev \<Rightarrow> rbind (restore_into (runtime env) ev
         (d\<lparr>i_L := (i_L d)\<lparr>stack := stack (i_L d) @ [handler (i_L d)]\<rparr>, i_packed := None\<rparr>)) (\<lambda>d.
       Inr (set_inst i d k)))"

text \<open>
  \<open>emmit_cohort\<close>: the destination's instance is the one the thread goes on with
  (\<open>Some callee\<close>).
\<close>

definition emmit_cohort :: "sched_env \<Rightarrow> addr \<Rightarrow> kernel \<Rightarrow> (addr option \<times> kernel) call result" where
  "emmit_cohort e caller k = rbind (get_inst k caller) (\<lambda>c.
     let st = stack (i_L c); dst_id = c_int (lua_tointeger (conv e) st 1);
         con_id = c_int (lua_tointeger (conv e) st 2); st = lua_remove st 2; args = length st - 1 in
     rbind (instance_aquire (ienv e) (now e) dst_id k) (\<lambda>(r, k). case r of
       None \<Rightarrow> rbind (name_text (main_graph k) dst_id ''Cannot get a parallel instance of the stage '' ''.'') (\<lambda>t.
         rbind (reply caller [LNil, LString t] k) (\<lambda>c. Inr (call_map (Pair None) c)))
     | Some callee \<Rightarrow> rbind (get_inst k callee) (\<lambda>d.
         rbind (copy_values_directly (enc_depth (ienv e)) (runtime (ienv e)) (i_heap c) st 2 args
             (stack (i_L d) @ [handler (i_L d)], i_heap d)) (\<lambda>(vs, hp).
         rbind (reply caller [LBoolean True]
             (set_inst callee (d\<lparr>i_L := (i_L d)\<lparr>stack := vs\<rparr>, i_heap := hp, i_args := args\<rparr>) k)) (\<lambda>r. case r of
           Waiting k \<Rightarrow> Inr (Waiting (None, k))
         | Returned k \<Rightarrow> rbind (count_event (i_stage c) con_id (later e - now e) k) (\<lambda>k.
             Inr (Returned (Some callee, k))))))))"

text \<open>\<open>emmit_remote\<close>; the error of the encoder is raised outside of a protected call.\<close>

definition emmit_remote :: "sched_env \<Rightarrow> addr \<Rightarrow> node \<Rightarrow> (int option \<times> node) result" where
  "emmit_remote e caller n = rbind (get_inst (kern n) caller) (\<lambda>c.
     let st = stack (i_L c); dst_id = c_int (lua_tointeger (conv e) st 1);
         con_id = c_int (lua_tointeger (conv e) st 2); st = lua_remove st 2 in
     rbind (remote_payload (enc_depth (ienv e)) (i_heap c) st) (\<lambda>payload.
     rbind (on_kern (upd_inst caller (\<lambda>d. d\<lparr>i_L := (i_L d)\<lparr>stack := st\<rparr>\<rparr>)) n) (\<lambda>n.
     send_async_event (conn e) (writes e) caller dst_id con_id (now e) payload n)))"

text \<open>
  After the handler: its results, or the error message, replace the function and
  the arguments on the stack; the status is the first value, or zero when it is
  no number.
\<close>

definition pcall_effect :: "pcall_result \<Rightarrow> instance_data \<Rightarrow> instance_data" where
  "pcall_effect out d = (let below = take (length (stack (i_L d)) - (i_args d + 1)) (stack (i_L d)) in case out of
     PcallFailed err \<Rightarrow> d\<lparr>i_L := (i_L d)\<lparr>stack := below @ [LString err]\<rparr>\<rparr>
   | PcallDone rs hp \<Rightarrow> d\<lparr>i_L := (i_L d)\<lparr>stack := below @ rs\<rparr>, i_heap := hp\<rparr>)"

definition pcall_status :: "(byte list \<Rightarrow> lua_Number option) \<Rightarrow> pcall_result \<Rightarrow> lua_value list \<Rightarrow> int" where
  "pcall_status cnv out st = (case out of PcallFailed _ \<Rightarrow> PCALL_ERROR
     | PcallDone _ _ \<Rightarrow> if lua_isnumber cnv st 1 then c_int (lua_tointeger cnv st 1) else 0)"

text \<open>
  What the thread does next: it goes back to its main loop, it goes on with an
  instance (the callee of a cohort), or it is blocked inside the call.
\<close>

datatype after = Loops | Continues addr | Blocked

definition park :: "node \<Rightarrow> (io_wait option \<times> kernel) call \<Rightarrow> after \<times> node" where
  "park n c = (case c of
     Waiting (_, k) \<Rightarrow> (Blocked, n\<lparr>kern := k\<rparr>)
   | Returned (None, k) \<Rightarrow> (Loops, n\<lparr>kern := k\<rparr>)
   | Returned (Some w, k) \<Rightarrow> (Loops, n\<lparr>kern := k, armed := armed n @ [w]\<rparr>))"

definition back_to_loop :: "node \<Rightarrow> 'a call \<Rightarrow> ('a \<Rightarrow> kernel) \<Rightarrow> after \<times> node" where
  "back_to_loop n c f = (case c of Waiting x \<Rightarrow> (Blocked, n\<lparr>kern := f x\<rparr>) | Returned x \<Rightarrow> (Loops, n\<lparr>kern := f x\<rparr>))"

definition continue_cohort :: "node \<Rightarrow> (addr option \<times> kernel) call \<Rightarrow> after \<times> node" where
  "continue_cohort n c = (case c of
     Waiting (_, k) \<Rightarrow> (Blocked, n\<lparr>kern := k\<rparr>)
   | Returned (None, k) \<Rightarrow> (Loops, n\<lparr>kern := k\<rparr>)
   | Returned (Some i, k) \<Rightarrow> (Continues i, n\<lparr>kern := k\<rparr>))"

definition drop_code :: "addr \<Rightarrow> kernel \<Rightarrow> kernel result" where
  "drop_code i = upd_inst i (\<lambda>d. d\<lparr>i_L := (i_L d)\<lparr>stack := lua_remove (stack (i_L d)) 1\<rparr>\<rparr>)"

definition STATS_UPDATE_ERROR :: "int \<Rightarrow> c_long \<Rightarrow> kernel \<Rightarrow> kernel result" where
  "STATS_UPDATE_ERROR s e = on_stats (stats_update_error s e)"

definition thread_leave :: "sched_env \<Rightarrow> addr \<Rightarrow> pcall_result \<Rightarrow> node \<Rightarrow> (after \<times> node) result" where
  "thread_leave e i out n =
     rbind (upd_inst i (pcall_effect out) (kern n)) (\<lambda>k. rbind (get_inst k i) (\<lambda>d.
     let status = pcall_status (conv e) out (stack (i_L d)); s = i_stage d in
     if status = ENDED then
       rbind (instance_release (ienv e) (now e) i k) (\<lambda>c. Inr (back_to_loop n c snd))
     else if status = PCALL_ERROR then
       rbind (STATS_UPDATE_ERROR s 1 k) (\<lambda>k. rbind (STATS_INACTIVE s k) (\<lambda>k.
       rbind (instance_destroy (now e) i k) (\<lambda>k. Inr (Loops, n\<lparr>kern := k\<rparr>))))
     else if status = DESTROY then
       rbind (STATS_INACTIVE s k) (\<lambda>k. rbind (instance_destroy (now e) i k) (\<lambda>k. Inr (Loops, n\<lparr>kern := k\<rparr>)))
     else if status = EMMIT_COHORT then
       rbind (drop_code i k) (\<lambda>k. rbind (emmit_cohort e i k) (\<lambda>c. Inr (continue_cohort n c)))
     else if status = EMMIT_REMOTE then
       rbind (drop_code i k) (\<lambda>k. rbind (emmit_remote e i (n\<lparr>kern := k\<rparr>)) (\<lambda>(r, n).
         Inr (case r of None \<Rightarrow> Blocked | Some _ \<Rightarrow> Loops, n)))
     else if status = WAIT_IO then
       rbind (drop_code i k) (\<lambda>k. rbind (event_wait_io (conv e) i k) (\<lambda>c. Inr (park n c)))
     else if status = FILE_IO then
       rbind (drop_code i k) (\<lambda>k. rbind (event_do_file_aio (conv e) (file_fd e) i k) (\<lambda>c. Inr (park n c)))
     else if status = SLEEP then
       rbind (drop_code i k) (\<lambda>k. rbind (event_sleep (conv e) (timer_ok e) i k) (\<lambda>c. Inr (park n c)))
     else if status = NICE then
       rbind (emmit_self i k) (\<lambda>c. Inr (back_to_loop n c (\<lambda>k. k)))
     else rbind (STAGE (main_graph k) s) (\<lambda>_. rbind (instance_destroy (now e) i k) (\<lambda>k.
       Inr (Loops, n\<lparr>kern := k\<rparr>)))))"

text \<open>\<open>leda_get_self_process\<close>: the address of the first process of the stage's cluster.\<close>

definition leda_get_self_process :: "addr \<Rightarrow> kernel \<Rightarrow> byte list result" where
  "leda_get_self_process self k = rbind (get_inst k self) (\<lambda>d.
     rbind (STAGE (main_graph k) (i_stage d)) (\<lambda>sd. rbind (CLUSTER (main_graph k) (sd_cluster sd)) (\<lambda>c.
     rbind (array_get (cl_processes c) 0) (\<lambda>p. process_text (main_graph k) p))))"

section \<open>Threads\<close>

datatype e_status = PENDING | RUNNING | WAITING | DONE | ERROR_ST | CANCELLED

record thread_data =
  t_status :: e_status
  t_destroy :: bool

record sched =
  nd :: node
  pool_size :: atomicInt
  threads :: "addr \<rightharpoonup> thread_data"
  next_thread :: addr

definition leda_thread_init :: "node \<Rightarrow> sched" where
  "leda_thread_init n = \<lparr>nd = n, pool_size = atomic_new 0, threads = Map.empty, next_thread = 1\<rparr>"

definition get_thread :: "sched \<Rightarrow> addr \<Rightarrow> thread_data result" where
  "get_thread s t = (if t = 0 then Inl NullDeref else case threads s t of None \<Rightarrow> Inl UseAfterFree | Some d \<Rightarrow> Inr d)"

definition set_status :: "addr \<Rightarrow> e_status \<Rightarrow> sched \<Rightarrow> sched result" where
  "set_status t st s = rbind (get_thread s t) (\<lambda>d. Inr (s\<lparr>threads := (threads s)(t \<mapsto> d\<lparr>t_status := st\<rparr>)\<rparr>))"

definition set_destroy :: "addr \<Rightarrow> sched \<Rightarrow> sched result" where
  "set_destroy t s = rbind (get_thread s t) (\<lambda>d. Inr (s\<lparr>threads := (threads s)(t \<mapsto> d\<lparr>t_destroy := True\<rparr>)\<rparr>))"

definition thread_new :: "sched \<Rightarrow> addr \<times> sched" where
  "thread_new s = (let t = next_thread s in
     (t, s\<lparr>threads := (threads s)(t \<mapsto> \<lparr>t_status = PENDING, t_destroy = False\<rparr>), next_thread := Suc t,
           pool_size := ADD (pool_size s) 1\<rparr>))"

text \<open>
  One turn of \<open>thread_main\<close>: it waits, it ends because \<open>NULL\<close> was on the ready
  queue, or it has entered an instance.
\<close>

datatype turn = Sleeps | Ends | Runs addr

definition thread_main :: "instance_env \<Rightarrow> addr \<Rightarrow> sched \<Rightarrow> (turn \<times> sched) result" where
  "thread_main env t s = rbind (set_status t WAITING s) (\<lambda>s.
     rbind (queue_pop (ready_queue (kern (nd s)))) (\<lambda>c. case c of
       PopWaiting q \<Rightarrow> Inr (Sleeps, s\<lparr>nd := (nd s)\<lparr>kern := (kern (nd s))\<lparr>ready_queue := q\<rparr>\<rparr>\<rparr>)
     | Popped None q \<Rightarrow>
         let s = s\<lparr>nd := (nd s)\<lparr>kern := (kern (nd s))\<lparr>ready_queue := q\<rparr>\<rparr>, pool_size := ADD (pool_size s) (-1)\<rparr> in
         rbind (set_status t DONE s) (\<lambda>s. rbind (get_thread s t) (\<lambda>d.
         Inr (Ends, if t_destroy d then s\<lparr>threads := (threads s)(t := None)\<rparr> else s)))
     | Popped (Some i) q \<Rightarrow> rbind (set_status t RUNNING s) (\<lambda>s.
         rbind (thread_enter env i ((kern (nd s))\<lparr>ready_queue := q\<rparr>)) (\<lambda>k.
         Inr (Runs i, s\<lparr>nd := (nd s)\<lparr>kern := k\<rparr>\<rparr>)))))"

definition thread_rawkill :: "addr \<Rightarrow> sched \<Rightarrow> sched result" where
  "thread_rawkill t s = (if t = 0 then Inr s else set_destroy t (s\<lparr>pool_size := ADD (pool_size s) (-1)\<rparr>))"

text \<open>\<open>thread_destroy\<close> and its caller \<open>thread_gc\<close>: the values returned.\<close>

definition thread_destroy :: "addr \<Rightarrow> sched \<Rightarrow> (lua_value list \<times> sched) result" where
  "thread_destroy t s = rbind (get_thread s t) (\<lambda>d.
     if t_status d \<noteq> DONE \<or> t_status d \<noteq> CANCELLED then Inr (lua_fail ''Tried to destroy an ongoing Thread.'', s)
     else Inr ([LBoolean True], if t_destroy d then s\<lparr>threads := (threads s)(t := None)\<rparr> else s))"

definition thread_gc :: "addr \<Rightarrow> sched \<Rightarrow> (lua_value list \<times> sched) result" where
  "thread_gc t s = rbind (get_thread s t) (\<lambda>d. rbind (set_destroy t s) (\<lambda>s.
     if t_status d = DONE then thread_destroy t s else Inr ([], s)))"

fun status_code :: "e_status \<Rightarrow> int" where
  "status_code PENDING = 0" | "status_code RUNNING = 1" | "status_code WAITING = 2"
| "status_code DONE = 3" | "status_code ERROR_ST = 4" | "status_code CANCELLED = 5"

definition thread_status :: "addr \<Rightarrow> sched \<Rightarrow> lua_value result" where
  "thread_status t s = rbind (get_thread s t) (\<lambda>d. Inr (LInteger (status_code (t_status d))))"

definition thread_kill :: "sched \<Rightarrow> sched call result" where
  "thread_kill s = rbind (push_ready_queue None (kern (nd s))) (\<lambda>c.
     Inr (call_map (\<lambda>k. s\<lparr>nd := (nd s)\<lparr>kern := k\<rparr>\<rparr>) c))"

end
