(* ===== verification/Leda_Work.thy ===== *)
theory Leda_Work
  imports Leda_Scheduler
begin

text \<open>
  The system of threads, instances and events as a transition relation, and its
  invariant: events are never kept waiting while an instance of their stage is
  idle, and no instance is in two places, queued, executed by a thread or waiting
  for I/O.

  A step is one call of the functions of the scheduler and of the I/O callbacks;
  the calls interleave in any order, but each runs to its end before the next.
\<close>

section \<open>Steps on a kernel state and the instances that are out of its queues\<close>

text \<open>The view of the subsystem the scheduler has, on the model.\<close>

abbreviation out :: "kernel \<Rightarrow> pool \<Rightarrow> addr set \<Rightarrow> bool" where
  "out \<equiv> outside krep (\<lambda>k. n_s (main_graph k)) running"

lemmas out_def = outside_def [of krep "\<lambda>k. n_s (main_graph k)" running]

definition reaches :: "kernel \<Rightarrow> addr set \<Rightarrow> bool" where
  "reaches k R \<longleftrightarrow> (\<exists>p. out k p R)"

lemma reachesI: "out k p R \<Longrightarrow> reaches k R"
  by (auto simp: reaches_def)

lemma reachesE:
  assumes "reaches k R"
  obtains p where "out k p R"
  using assms by (auto simp: reaches_def)

lemma out_mono: "out k p R \<Longrightarrow> S \<subseteq> R \<Longrightarrow> out k p S"
  by (auto simp: out_def)

lemma reaches_mono: "reaches k R \<Longrightarrow> S \<subseteq> R \<Longrightarrow> reaches k S"
  unfolding reaches_def using out_mono by blast

lemma outD:
  "out k p R \<Longrightarrow> krep k p" "out k p R \<Longrightarrow> work_conserving (n_s (main_graph k)) p"
  "out k p R \<Longrightarrow> ready_cap p < 0" "out k p R \<Longrightarrow> i \<in> R \<Longrightarrow> running k p i"
  by (simp_all add: out_def)

lemma out_frame:
  assumes "out k p R" and "krep k' p'" and "main_graph k' = main_graph k"
    and "work_conserving (n_s (main_graph k)) p'" and "ready_cap p' = ready_cap p"
    and "\<And>i. i \<in> S \<Longrightarrow> running k' p' i"
  shows "out k' p' S"
  using assms by (simp add: out_def)

text \<open>Acquiring an instance: what it returns was not out before.\<close>

lemma aquire_out:
  assumes "out k p R" and "s < n_s (main_graph k)" and "instance_aquire env t (int s) k = Inr (r, k')"
  shows "\<exists>p'. main_graph k' = main_graph k \<and>
     (case r of None \<Rightarrow> out k' p' R \<and> idle p' s = [] | Some i \<Rightarrow> out k' p' (insert i R) \<and> i \<notin> R)"
  using ip.acquire_outside [OF assms] aquire_result [OF outD(1) [OF assms(1)] assms(2,3)] by blast

lemma same_out:
  assumes "out k p R" and "same_count k k'" and "qrep k' p"
  shows "out k' p R"
proof (rule out_frame [OF assms(1)])
  show "krep k' p" using krep_step [OF outD(1) [OF assms(1)] assms(2,3)] krepD(2) outD(1) [OF assms(1)] by blast
  show "main_graph k' = main_graph k" by (rule same_count_graph [OF assms(2)])
  show "work_conserving (n_s (main_graph k)) p" by (rule outD(2) [OF assms(1)])
  show "running k' p i" if "i \<in> R" for i using outD(4) [OF assms(1) that] same_count_running [OF assms(2)] by simp
qed simp

lemma set_inst_out:
  assumes "out k p R" and "insts k i = Some d" and "i_stage d' = i_stage d"
  shows "out (set_inst i d' k) p R"
  by (rule same_out [OF assms(1) set_inst_same [OF assms(2,3)]]) (use krepD(1) outD(1) [OF assms(1)] in auto)

lemma get_inst_Some: "get_inst k i = Inr d \<Longrightarrow> insts k i = Some d"
  by (auto simp: get_inst_def split: if_splits option.splits)

lemma upd_inst_out:
  assumes "out k p R" and "upd_inst i f k = Inr k'" and "\<And>d. i_stage (f d) = i_stage d"
  shows "out k' p R"
proof -
  from assms(2) obtain d where "get_inst k i = Inr d" "k' = set_inst i (f d) k" by (auto simp: upd_inst_def rbind_Inr_iff)
  then show ?thesis using set_inst_out [OF assms(1) get_inst_Some assms(3)] by simp
qed

lemma on_stats_out:
  assumes "out k p R" and "on_stats f k = Inr k'"
    and "\<And>st'. f (kstats k) = Inr st' \<Longrightarrow> stats_wf st' \<and> nstages st' = nstages (kstats k)"
  shows "out k' p R"
proof -
  from assms(2) obtain st' where st': "f (kstats k) = Inr st'" "k' = k\<lparr>kstats := st'\<rparr>"
    by (auto simp: on_stats_def rbind_Inr_iff)
  have "qrep k' p" using krepD(1) [OF outD(1) [OF assms(1)]] assms(3) [OF st'(1)] st'(2) by (simp add: qrep_def)
  then show ?thesis using same_out [OF assms(1)] st'(2) by simp
qed


lemma stats_results:
  assumes "stats_wf st"
  shows "stats_update_events s e c t st = Inr st' \<Longrightarrow> stats_wf st' \<and> nstages st' = nstages st"
    and "stats_update_error s e st = Inr st' \<Longrightarrow> stats_wf st' \<and> nstages st' = nstages st"
    and "stats_active_instance s st = Inr st' \<Longrightarrow> stats_wf st' \<and> nstages st' = nstages st"
    and "stats_inactive_instance s st = Inr st' \<Longrightarrow> stats_wf st' \<and> nstages st' = nstages st"
proof -
  have u: "stats_wf y \<and> nstages y = nstages x" if "upd_sstat s f x = Inr y" "stats_wf x" for s f x y
    using that by (auto simp: upd_sstat_def array_upd_def rbind_Inr_iff array_set_Inr_iff stats_wf_def)
  have v: "stats_wf y \<and> nstages y = nstages x" if "upd_cstat s f x = Inr y" "stats_wf x" for s f x y
    using that by (auto simp: upd_cstat_def array_upd_def rbind_Inr_iff array_set_Inr_iff stats_wf_def)
  have a: "stats_wf (activate ev x) \<longleftrightarrow> stats_wf x" "nstages (activate ev x) = nstages x" for ev x
    by (simp_all add: activate_def stats_wf_def)
  show "stats_update_events s e c t st = Inr st' \<Longrightarrow> stats_wf st' \<and> nstages st' = nstages st"
  proof -
    assume "stats_update_events s e c t st = Inr st'"
    then obtain x y where x: "upd_sstat s (\<lambda>s. s\<lparr>s_events := ADD (s_events s) e\<rparr>) st = Inr x"
      and y: "upd_cstat c (\<lambda>c. c\<lparr>c_time := ADD (c_time c) t, c_n := ADD (c_n c) 1, c_events := ADD (c_events c) 1\<rparr>) x = Inr y"
      and z: "st' = y \<or> (\<exists>ev. st' = activate ev y)"
      by (auto simp: stats_update_events_def rbind_Inr_iff split: if_splits)
    from u [OF x assms] v [OF y] z a show ?thesis by auto
  qed
  show "stats_update_error s e st = Inr st' \<Longrightarrow> stats_wf st' \<and> nstages st' = nstages st"
  proof -
    assume "stats_update_error s e st = Inr st'"
    then obtain f x where x: "upd_sstat s f st = Inr x" and z: "st' = x \<or> (\<exists>ev. st' = activate ev x)"
      by (auto simp: stats_update_error_def rbind_Inr_iff split: if_splits)
    from u [OF x assms] z a show ?thesis by auto
  qed
  show "stats_active_instance s st = Inr st' \<Longrightarrow> stats_wf st' \<and> nstages st' = nstages st"
    using u [OF _ assms] by (simp add: stats_active_instance_def)
  show "stats_inactive_instance s st = Inr st' \<Longrightarrow> stats_wf st' \<and> nstages st' = nstages st"
    using u [OF _ assms] by (simp add: stats_inactive_instance_def)
qed

lemma stats_out:
  assumes "out k p R"
  shows "STATS_ACTIVE s k = Inr k' \<Longrightarrow> out k' p R" and "STATS_INACTIVE s k = Inr k' \<Longrightarrow> out k' p R"
    and "STATS_UPDATE_ERROR s e k = Inr k' \<Longrightarrow> out k' p R"
    and "STATS_UPDATE_EVENTS s e c t k = Inr k' \<Longrightarrow> out k' p R"
    and "count_event s c t k = Inr k' \<Longrightarrow> out k' p R" and "count_connector_event c t k = Inr k' \<Longrightarrow> out k' p R"
proof -
  have w: "stats_wf (kstats k)" using krepD(1) [OF outD(1) [OF assms]] by (simp add: qrep_def)
  note on = on_stats_out [OF assms]
  show "STATS_ACTIVE s k = Inr k' \<Longrightarrow> out k' p R" "STATS_INACTIVE s k = Inr k' \<Longrightarrow> out k' p R"
    "STATS_UPDATE_ERROR s e k = Inr k' \<Longrightarrow> out k' p R"
    unfolding STATS_ACTIVE_def STATS_INACTIVE_def STATS_UPDATE_ERROR_def using stats_results [OF w] by (auto intro: on)
  show ev: "STATS_UPDATE_EVENTS s e c t k = Inr k' \<Longrightarrow> out k' p R" for s e c t k'
    unfolding STATS_UPDATE_EVENTS_def using stats_results(1) [OF w] by (auto intro: on)
  show "count_event s c t k = Inr k' \<Longrightarrow> out k' p R" "count_connector_event c t k = Inr k' \<Longrightarrow> out k' p R"
    using ev assms by (auto simp: count_event_def count_connector_event_def rbind_Inr_iff split: if_splits)
qed

text \<open>An instance pushed on the ready queue is no longer out; the ready queue has room.\<close>

lemma push_ready_graph: "push_ready_queue x k = Inr c \<Longrightarrow> main_graph (call_state c) = main_graph k"
  using push_ready_same same_count_graph by blast

lemma push_ready_out:
  assumes "out k p R" and "i \<in> R" and "push_ready_queue (Some i) k = Inr c"
  shows "\<exists>k' p'. c = Returned k' \<and> out k' p' (R - {i}) \<and> main_graph k' = main_graph k"
  using ip.resume_outside [OF assms] push_ready_graph [OF assms(3)] by (auto simp: call_state_def)

lemma reply_out:
  assumes "out k p R" and "i \<in> R" and "reply i vs k = Inr c"
  shows "\<exists>k' p'. c = Returned k' \<and> out k' p' (R - {i}) \<and> main_graph k' = main_graph k"
proof -
  from assms(3) obtain k1 where k1: "upd_inst i (\<lambda>d. d\<lparr>i_L := load_handler vs (i_L d), i_args := length vs\<rparr>) k = Inr k1"
    and c: "push_ready_queue (Some i) k1 = Inr c" by (auto simp: reply_def elim: rbind_InrE)
  have "main_graph k1 = main_graph k" using upd_inst_same [OF k1] same_count_graph by simp
  with push_ready_out [OF upd_inst_out [OF assms(1) k1] assms(2) c] show ?thesis by simp
qed

lemma destroy_out:
  assumes "out k p R" and "i \<in> R" and "instance_destroy t i k = Inr k'"
  shows "out k' p (R - {i})" and "main_graph k' = main_graph k"
proof -
  from destroy_running [OF outD(1) [OF assms(1)] outD(4) [OF assms(1,2)], of t] assms(3) have k': "krep k' p"
    "insts k' = (insts k)(i := None)" "main_graph k' = main_graph k" by auto
  show "main_graph k' = main_graph k" by (rule k'(3))
  show "out k' p (R - {i})"
    by (rule out_frame [OF assms(1) k'(1,3)]) (use outD(2,4) [OF assms(1)] k' in \<open>auto simp: running_def\<close>)
qed

lemma release_out:
  assumes "out k p R" and "i \<in> R" and "instance_release env t i k = Inr c"
  shows "\<exists>x p'. c = Returned x \<and> out (snd x) p' (R - {i})"
proof -
  have "has_room (ready_cap p) (ready p)" using outD(3) [OF assms(1)] by (simp add: has_room_def)
  then obtain x where "c = Returned x"
    using release_result [OF outD(1) [OF assms(1)] outD(4) [OF assms(1,2)] assms(3)] by blast
  with ip.finish_outside [OF assms] show ?thesis by (auto simp: call_state_def)
qed

lemma push_pending_out:
  assumes "out k p R" and "s < n_s (main_graph k)" and "idle p s = []"
    and "instance_try_push_pending_event (int s) ev k = Inr (b, k')"
  shows "\<exists>p'. out k' p' R \<and> main_graph k' = main_graph k \<and> pending p' s = (if b then pending p s @ [ev] else pending p s)"
  using ip.defer_outside [OF assms(1,2,4,3)] queue_steps_same(4) [OF assms(4)] same_count_graph by blast


lemma out_graph_n: "out k p R \<Longrightarrow> length (recycle_queues k) = n_s (main_graph k)"
  using krepD(1) outD(1) by (fastforce simp: qrep_def)

lemma aquire_any_out:
  assumes "out k p R" and "instance_aquire env t s k = Inr (r, k')"
  shows "\<exists>p'. main_graph k' = main_graph k \<and>
     (case r of None \<Rightarrow> out k' p' R \<and> (0 \<le> s \<longrightarrow> s < int (n_s (main_graph k)) \<longrightarrow> idle p' (nat s) = [])
      | Some i \<Rightarrow> out k' p' (insert i R) \<and> i \<notin> R)"
proof (cases "0 \<le> s \<and> s < int (n_s (main_graph k))")
  case True
  then have "s = int (nat s)" "nat s < n_s (main_graph k)" by auto
  with aquire_out [OF assms(1), of "nat s" env t r k'] assms(2) show ?thesis by (cases r) auto
next
  case False
  have "r = None \<and> k' = k"
  proof (cases "size_of_int s > int (n_s (main_graph k))")
    case True
    with assms(2) show ?thesis by (simp add: instance_aquire_def)
  next
    case False
    with assms(2) have "\<exists>q. array_get (recycle_queues k) s = Inr q"
      by (auto simp: instance_aquire_def try_pop_recycle_def rbind_Inr_iff)
    then have "0 \<le> s \<and> s < int (n_s (main_graph k))"
      using out_graph_n [OF assms(1)] by (auto simp: array_get_Inr_iff)
    with \<open>\<not> (0 \<le> s \<and> s < int (n_s (main_graph k)))\<close> show ?thesis by blast
  qed
  with assms(1) False show ?thesis by auto
qed

lemma push_pending_valid:
  assumes "out k p R" and "instance_try_push_pending_event s ev k = Inr (b, k')"
  shows "0 \<le> s \<and> s < int (n_s (main_graph k))"
proof -
  have "length (event_queues k) = n_s (main_graph k)" using krepD(1) [OF outD(1) [OF assms(1)]] by (simp add: qrep_def)
  with assms(2) show ?thesis by (auto simp: instance_try_push_pending_event_def rbind_Inr_iff array_get_Inr_iff)
qed

lemma defer_out:
  assumes "out k p R" and "0 \<le> s \<longrightarrow> s < int (n_s (main_graph k)) \<longrightarrow> idle p (nat s) = []"
    and "instance_try_push_pending_event s ev k = Inr (b, k')"
  shows "\<exists>p'. out k' p' R \<and> main_graph k' = main_graph k"
proof -
  from push_pending_valid [OF assms(1,3)] have s: "s = int (nat s)" "nat s < n_s (main_graph k)" "idle p (nat s) = []"
    using assms(2) by auto
  show ?thesis using push_pending_out [OF assms(1) s(2,3), of ev b k'] assms(3) s(1) by auto
qed

section \<open>What the scheduler's functions do\<close>

lemma emmit_local_out:
  assumes o: "out k p R" and e: "emmit_local e h st dst con k = Inr c"
  shows "\<exists>r k' p'. c = Returned (r, k') \<and> out k' p' R \<and> main_graph k' = main_graph k"
proof -
  let ?st = "lua_remove st 2" let ?args = "length ?st - 1"
  from e obtain r k1 where a: "instance_aquire (ienv e) (now e) dst k = Inr (r, k1)"
    by (auto simp: emmit_local_def Let_def rbind_Inr_iff)
  from aquire_any_out [OF o a] obtain p1 where g1: "main_graph k1 = main_graph k"
    and p1: "case r of None \<Rightarrow> out k1 p1 R \<and> (0 \<le> dst \<longrightarrow> dst < int (n_s (main_graph k)) \<longrightarrow> idle p1 (nat dst) = [])
      | Some i \<Rightarrow> out k1 p1 (insert i R) \<and> i \<notin> R" by blast
  show ?thesis
  proof (cases r)
    case None
    with p1 have o1: "out k1 p1 R" and idle: "0 \<le> dst \<longrightarrow> dst < int (n_s (main_graph k1)) \<longrightarrow> idle p1 (nat dst) = []"
      using g1 by simp_all
    let ?x = "extract_event_from_lua_state (enc_depth (ienv e)) h ?st 2 ?args"
    show ?thesis
    proof (cases "c = Returned (LuaRaises, k1)")
      case True
      with o1 g1 show ?thesis by blast
    next
      case False
      with e a None obtain ev where x: "?x = Inr (Extracted ev)"
        by (cases ?x) (auto simp: emmit_local_def Let_def split: c_fault.splits extracted.splits)
      note e2 = e [unfolded emmit_local_def Let_def a rbind_simps prod.case None option.case x sum.case extracted.case]
      obtain b k2 where b: "instance_try_push_pending_event dst ev k1 = Inr (b, k2)"
        and e3: "(if \<not> b then rbind (name_text (main_graph k2) dst ''Event queue for the stage '' '' is full.'')
            (\<lambda>t. Inr (Returned (LuaReturns 2 [LNil, LString t], k2)))
          else rbind (count_connector_event con (later e - now e) k2) (\<lambda>k. Inr (Returned (LuaReturns 1 [LBoolean True], k)))) = Inr c"
        by (rule rbind_InrE [OF e2]) (auto intro: that)
      from defer_out [OF o1 idle b] obtain p2 where p2: "out k2 p2 R" "main_graph k2 = main_graph k" using g1 by auto
      show ?thesis
      proof (cases b)
        case True
        with e3 obtain k3 where k3: "count_connector_event con (later e - now e) k2 = Inr k3"
          "c = Returned (LuaReturns 1 [LBoolean True], k3)" by (auto elim: rbind_InrE)
        from k3(1) have "main_graph k3 = main_graph k2"
          by (auto simp: count_connector_event_def STATS_UPDATE_EVENTS_def rbind_Inr_iff on_stats_def split: if_splits)
        with stats_out(6) [OF p2(1) k3(1)] p2(2) k3(2) show ?thesis by auto
      next
        case False
        with e3 obtain t where "c = Returned (LuaReturns 2 [LNil, LString t], k2)" by (auto elim: rbind_InrE)
        with p2 show ?thesis by blast
      qed
    qed
  next
    case (Some j)
    with p1 have o1: "out k1 p1 (insert j R)" "j \<notin> R" by simp_all
    note e1 = e [unfolded emmit_local_def Let_def a rbind_simps prod.case Some option.case]
    obtain d x where d: "get_inst k1 j = Inr d"
      and x: "copy_args (enc_depth (ienv e)) (runtime (ienv e)) h ?st [2..<2 + ?args] (stack (i_L d) @ [handler (i_L d)], i_heap d) = Inr x"
      and rest: "(case x of
            Inl (vs, hp) \<Rightarrow> Inr (Returned (LuaRaises, set_inst j (d\<lparr>i_L := (i_L d)\<lparr>stack := vs\<rparr>, i_heap := hp\<rparr>) k1))
          | Inr (vs, hp) \<Rightarrow>
              rbind (push_ready_queue (Some j)
                  (set_inst j (d\<lparr>i_L := (i_L d)\<lparr>stack := vs\<rparr>, i_heap := hp, i_args := ?args\<rparr>) k1)) (\<lambda>c. case c of
                Waiting k \<Rightarrow> Inr (Waiting (LuaReturns 0 [], k))
              | Returned k \<Rightarrow> rbind (count_connector_event con (later e - now e) k) (\<lambda>k.
                  Inr (Returned (LuaReturns 1 [LBoolean True], k))))) = (Inr c :: (lua_ret \<times> kernel) call result)"
      by (rule rbind_InrE [OF e1], erule rbind_InrE) (rule that)
    note i1 = get_inst_Some [OF d]
    show ?thesis
    proof (cases x)
      case (Inl vh)
      let ?d = "d\<lparr>i_L := (i_L d)\<lparr>stack := fst vh\<rparr>, i_heap := snd vh\<rparr>"
      have "out (set_inst j ?d k1) p1 R" using out_mono [OF set_inst_out [OF o1(1) i1, of ?d]] by auto
      with rest Inl g1 show ?thesis by (cases vh) (auto simp: set_inst_def)
    next
      case (Inr vh)
      let ?d = "d\<lparr>i_L := (i_L d)\<lparr>stack := fst vh\<rparr>, i_heap := snd vh, i_args := ?args\<rparr>"
      have o2: "out (set_inst j ?d k1) p1 (insert j R)" using set_inst_out [OF o1(1) i1, of ?d] by simp
      from rest Inr obtain c2 where c2: "push_ready_queue (Some j) (set_inst j ?d k1) = Inr c2"
        by (cases vh) (auto elim: rbind_InrE)
      from push_ready_out [OF o2 _ c2] o1(2) g1 obtain k3 p3 where k3: "c2 = Returned k3" "out k3 p3 R"
        "main_graph k3 = main_graph k" by (auto simp: set_inst_def)
      with rest Inr c2 obtain k4 where k4: "count_connector_event con (later e - now e) k3 = Inr k4"
        "c = Returned (LuaReturns 1 [LBoolean True], k4)" by (cases vh) (auto elim: rbind_InrE)
      from k4(1) have "main_graph k4 = main_graph k3"
        by (auto simp: count_connector_event_def STATS_UPDATE_EVENTS_def rbind_Inr_iff on_stats_def split: if_splits)
      with stats_out(6) [OF k3(2) k4(1)] k4(2) k3(3) show ?thesis by auto
    qed
  qed
qed


lemma emmit_packed_out:
  assumes o: "out k p R" and e: "emmit_packed_event env t dst data k = Inr c"
  shows "\<exists>r k' p'. c = Returned (r, k') \<and> out k' p' R \<and> main_graph k' = main_graph k"
proof -
  from e obtain r k1 where a: "instance_aquire env t dst k = Inr (r, k1)"
    by (auto simp: emmit_packed_event_def elim: rbind_InrE)
  note e1 = e [unfolded emmit_packed_event_def a rbind_simps prod.case]
  from aquire_any_out [OF o a] obtain p1 where g1: "main_graph k1 = main_graph k"
    and p1: "case r of None \<Rightarrow> out k1 p1 R \<and> (0 \<le> dst \<longrightarrow> dst < int (n_s (main_graph k)) \<longrightarrow> idle p1 (nat dst) = [])
      | Some i \<Rightarrow> out k1 p1 (insert i R) \<and> i \<notin> R" by blast
  show ?thesis
  proof (cases r)
    case None
    with p1 have o1: "out k1 p1 R" "0 \<le> dst \<longrightarrow> dst < int (n_s (main_graph k1)) \<longrightarrow> idle p1 (nat dst) = []"
      using g1 by simp_all
    from e1 None obtain b k2 where b: "instance_try_push_pending_event dst (Packed data) k1 = Inr (b, k2)"
      "c = Returned (if b then 0 else -1, k2)" by (auto elim: rbind_InrE)
    from defer_out [OF o1 b(1)] b(2) g1 show ?thesis by auto
  next
    case (Some j)
    with p1 have o1: "out k1 p1 (insert j R)" "j \<notin> R" by simp_all
    from e1 Some obtain k2 c2 where k2: "upd_inst j (\<lambda>d. d\<lparr>i_packed := Some (Packed data)\<rparr>) k1 = Inr k2"
      "push_ready_queue (Some j) k2 = Inr c2" "c = call_map (Pair 0) c2" by (auto elim!: rbind_InrE)
    have "main_graph k2 = main_graph k1" using upd_inst_same [OF k2(1)] same_count_graph by simp
    with push_ready_out [OF upd_inst_out [OF o1(1) k2(1)] _ k2(2)] o1(2) k2(3) g1
    show ?thesis by (auto simp: call_map_def)
  qed
qed

lemma emmit_cohort_out:
  assumes o: "out k p R" and i: "i \<in> R" and e: "emmit_cohort e i k = Inr c"
  shows "\<exists>r k' p'. c = Returned (r, k') \<and> main_graph k' = main_graph k \<and>
     (case r of None \<Rightarrow> out k' p' (R - {i}) | Some j \<Rightarrow> out k' p' (insert j (R - {i})) \<and> j \<notin> R)"
proof -
  from e obtain ci where ci: "get_inst k i = Inr ci" by (auto simp: emmit_cohort_def elim: rbind_InrE)
  let ?full = "stack (i_L ci)"
  let ?st = "lua_remove ?full 2" let ?args = "length ?st - 1"
  let ?dst = "c_int (lua_tointeger (conv e) ?full 1)" let ?con = "c_int (lua_tointeger (conv e) ?full 2)"
  note e0 = e [unfolded emmit_cohort_def ci rbind_simps Let_def]
  obtain rk where rk: "instance_aquire (ienv e) (now e) ?dst k = Inr rk" by (rule rbind_InrE [OF e0]) (rule that)
  then obtain r k1 where a: "instance_aquire (ienv e) (now e) ?dst k = Inr (r, k1)" by (cases rk) simp
  note e1 = e0 [unfolded a rbind_simps prod.case]
  from aquire_any_out [OF o a] obtain p1 where g1: "main_graph k1 = main_graph k"
    and p1: "case r of None \<Rightarrow> out k1 p1 R \<and> (0 \<le> ?dst \<longrightarrow> ?dst < int (n_s (main_graph k)) \<longrightarrow> idle p1 (nat ?dst) = [])
      | Some i \<Rightarrow> out k1 p1 (insert i R) \<and> i \<notin> R" by blast
  show ?thesis
  proof (cases r)
    case None
    with p1 have o1: "out k1 p1 R" by simp
    note e2 = e1 [unfolded None option.case]
    obtain t where e3: "rbind (reply i [LNil, LString t] k1) (\<lambda>c. Inr (call_map (Pair None) c)) = Inr c"
      by (rule rbind_InrE [OF e2]) (rule that)
    then obtain c2 where c2: "reply i [LNil, LString t] k1 = Inr c2" "c = call_map (Pair None) c2" by (auto elim: rbind_InrE)
    from reply_out [OF o1 i c2(1)] c2(2) g1 show ?thesis by (auto simp: call_map_def)
  next
    case (Some j)
    with p1 have o1: "out k1 p1 (insert j R)" "j \<notin> R" by simp_all
    note e2 = e1 [unfolded Some option.case]
    obtain d where d: "get_inst k1 j = Inr d" by (rule rbind_InrE [OF e2]) (rule that)
    note e3 = e2 [unfolded d rbind_simps]
    obtain v where v: "copy_values_directly (enc_depth (ienv e)) (runtime (ienv e)) (i_heap ci) ?st 2 ?args
             (stack (i_L d) @ [handler (i_L d)], i_heap d) = Inr v" by (rule rbind_InrE [OF e3]) (rule that)
    note e4 = e3 [unfolded v rbind_simps]
    let ?d = "d\<lparr>i_L := (i_L d)\<lparr>stack := fst v\<rparr>, i_heap := snd v, i_args := ?args\<rparr>"
    have o2: "out (set_inst j ?d k1) p1 (insert j R)" using set_inst_out [OF o1(1) get_inst_Some [OF d], of ?d] by simp
    from e4 obtain c2 where c2: "reply i [LBoolean True] (set_inst j ?d k1) = Inr c2"
      by (cases v) (auto elim: rbind_InrE)
    from reply_out [OF o2 _ c2] i g1 obtain k3 p3 where k3: "c2 = Returned k3" "out k3 p3 (insert j R - {i})"
      "main_graph k3 = main_graph k" by (auto simp: set_inst_def)
    with e4 c2 obtain k4 where k4: "count_event (i_stage ci) ?con (later e - now e) k3 = Inr k4" "c = Returned (Some j, k4)"
      by (cases v) (auto elim: rbind_InrE)
    from k4(1) have "main_graph k4 = main_graph k3"
      by (auto simp: count_event_def STATS_UPDATE_EVENTS_def rbind_Inr_iff on_stats_def split: if_splits)
    moreover have "insert j R - {i} = insert j (R - {i})" using o1(2) i by auto
    ultimately show ?thesis using stats_out(5) [OF k3(2) k4(1)] k4(2) k3(3) o1(2) by auto
  qed
qed

lemma thread_enter_out:
  assumes "out k p R" and "thread_enter env i k = Inr k'"
  shows "out k' p R" and "main_graph k' = main_graph k"
proof -
  from assms(2) obtain d where d: "get_inst k i = Inr d" by (auto simp: thread_enter_def elim: rbind_InrE)
  note e = assms(2) [unfolded thread_enter_def d rbind_simps]
  have "out k' p R \<and> main_graph k' = main_graph k"
  proof (cases "i_packed d")
    case None
    with e assms(1) show ?thesis by simp
  next
    case (Some ev)
    with e obtain d' where d': "restore_into (runtime env) ev
         (d\<lparr>i_L := (i_L d)\<lparr>stack := stack (i_L d) @ [handler (i_L d)]\<rparr>, i_packed := None\<rparr>) = Inr d'" "k' = set_inst i d' k"
      by (auto elim: rbind_InrE)
    have "i_stage d' = i_stage d" using restore_into_stage [OF d'(1)] by simp
    with set_inst_out [OF assms(1) get_inst_Some [OF d]] d'(2) show ?thesis by (simp add: set_inst_def)
  qed
  then show "out k' p R" and "main_graph k' = main_graph k" by simp_all
qed

text \<open>Taking an instance from the ready queue.\<close>

lemma pop_ready_out:
  assumes "out k p R" and "ready p = x # xs"
  shows "\<exists>q. queue_pop (ready_queue k) = Inr (Popped x q) \<and>
     (case x of None \<Rightarrow> out (k\<lparr>ready_queue := q\<rparr>) (p\<lparr>ready := xs\<rparr>) R
      | Some i \<Rightarrow> out (k\<lparr>ready_queue := q\<rparr>) (p\<lparr>ready := xs\<rparr>) (insert i R) \<and> i \<notin> R)"
proof -
  have k: "krep k p" by (rule outD(1) [OF assms(1)])
  from krepD(1) [OF k] assms(2) have "rep (ready_queue k) (x # xs)" by (simp add: qrep_def)
  from pop_ok [OF this] obtain q where q: "queue_pop (ready_queue k) = Inr (Popped x q)" "rep q xs"
    "capacity q = capacity (ready_queue k)" by blast
  let ?k = "k\<lparr>ready_queue := q\<rparr>" and ?p = "p\<lparr>ready := xs\<rparr>"
  have own: "owned k ?p" using krepD(2) [OF k] assms(2) by (auto simp: owned_def split: if_splits)
  have "qrep ?k ?p" using krepD(1) [OF k] q by (simp add: qrep_def)
  then have k': "krep ?k ?p" using krep_step [OF k _ _ own] by simp
  have run: "running ?k ?p j" if "running k p j" for j using that assms(2) by (auto simp: running_def)
  have w: "work_conserving (n_s (main_graph k)) ?p" using outD(2) [OF assms(1)] by (simp add: work_conserving_def)
  show ?thesis
  proof (cases x)
    case None
    have "out ?k ?p R" by (rule out_frame [OF assms(1) k' _ w]) (use run outD(4) [OF assms(1)] in auto)
    with q(1) None show ?thesis by auto
  next
    case (Some i)
    have o: "owned k p" by (rule krepD(2) [OF k])
    then have "Some i \<notin> set xs" using assms(2) Some by (auto simp: owned_def)
    moreover have "insts k i \<noteq> None" "\<forall>s < n_s (main_graph k). i \<notin> set (idle p s)" using o assms(2) Some by (auto simp: owned_def)
    ultimately have ri: "running ?k ?p i" by (simp add: running_def)
    have "i \<notin> R" using outD(4) [OF assms(1), of i] assms(2) Some by (auto simp: running_def)
    moreover have "out ?k ?p (insert i R)"
      by (rule out_frame [OF assms(1) k' _ w]) (use ri run outD(4) [OF assms(1)] in auto)
    ultimately show ?thesis using q(1) Some by auto
  qed
qed


section \<open>Leaving an instance\<close>

text \<open>The instances that wait for I/O, and the invariant of a node whose threads execute \<open>act\<close>.\<close>

definition waiting :: "node \<Rightarrow> addr set" where
  "waiting n = waiter ` set (armed n)"

definition node_inv :: "node \<Rightarrow> addr set \<Rightarrow> bool" where
  "node_inv n act \<longleftrightarrow> (\<exists>p. out (kern n) p (act \<union> waiting n)) \<and> act \<inter> waiting n = {} \<and> distinct (map waiter (armed n))"

lemma node_invI:
  "out (kern n) p (act \<union> waiting n) \<Longrightarrow> act \<inter> waiting n = {} \<Longrightarrow> distinct (map waiter (armed n)) \<Longrightarrow> node_inv n act"
  by (auto simp: node_inv_def)

lemma node_invE:
  assumes "node_inv n act"
  obtains p where "out (kern n) p (act \<union> waiting n)" and "act \<inter> waiting n = {}" and "distinct (map waiter (armed n))"
  using assms by (auto simp: node_inv_def)

text \<open>The instance left goes back to a queue, or is gone.\<close>

lemma node_inv_leave:
  assumes "node_inv n act" and "i \<in> act" and "out k p (act \<union> waiting n - {i})"
  shows "node_inv (n\<lparr>kern := k\<rparr>) (act - {i})"
proof (rule node_invI)
  from assms(1) have d: "act \<inter> waiting n = {}" "distinct (map waiter (armed n))" by (auto simp: node_inv_def)
  show "out (kern (n\<lparr>kern := k\<rparr>)) p (act - {i} \<union> waiting (n\<lparr>kern := k\<rparr>))"
    using out_mono [OF assms(3), of "act - {i} \<union> waiting n"] d(1) assms(2) by (auto simp: waiting_def)
  show "(act - {i}) \<inter> waiting (n\<lparr>kern := k\<rparr>) = {}" "distinct (map waiter (armed (n\<lparr>kern := k\<rparr>)))"
    using d by (auto simp: waiting_def)
qed

text \<open>The instance left is registered for I/O.\<close>

lemma node_inv_park:
  assumes "node_inv n act" and "i \<in> act" and "out k p (act \<union> waiting n)" and "waiter w = i"
  shows "node_inv (n\<lparr>kern := k, armed := armed n @ [w]\<rparr>) (act - {i})"
proof (rule node_invI)
  from assms(1) have d: "act \<inter> waiting n = {}" "distinct (map waiter (armed n))" by (auto simp: node_inv_def)
  let ?n = "n\<lparr>kern := k, armed := armed n @ [w]\<rparr>"
  have w: "waiting ?n = insert i (waiting n)" using assms(4) by (auto simp: waiting_def)
  show "out (kern ?n) p (act - {i} \<union> waiting ?n)"
    using out_mono [OF assms(3), of "act - {i} \<union> waiting ?n"] w assms(2) by auto
  show "(act - {i}) \<inter> waiting ?n = {}" using w d(1) by auto
  show "distinct (map waiter (armed ?n))" using d assms(2,4) by (auto simp: waiting_def)
qed

definition io_end :: "kernel \<Rightarrow> addr set \<Rightarrow> addr \<Rightarrow> (io_wait option \<times> kernel) call result \<Rightarrow> bool" where
  "io_end k R i r \<longleftrightarrow> (\<forall>c. r = Inr c \<longrightarrow>
     (\<exists>w. c = Returned (Some w, k) \<and> waiter w = i) \<or> (\<exists>k' p'. c = Returned (None, k') \<and> out k' p' (R - {i})))"

lemma replied_end: "out k p R \<Longrightarrow> i \<in> R \<Longrightarrow> io_end k R i (replied i vs k)"
proof -
  assume o: "out k p R" "i \<in> R"
  have "\<exists>k' p'. c = Returned (None, k') \<and> out k' p' (R - {i})" if "replied i vs k = Inr c" for c
  proof -
    from that obtain c2 where c2: "reply i vs k = Inr c2" "c = call_map (Pair None) c2"
      by (auto simp: replied_def elim: rbind_InrE)
    from reply_out [OF o c2(1)] c2(2) show ?thesis by (auto simp: call_map_def)
  qed
  then show ?thesis by (simp add: io_end_def)
qed

lemma parked_end: "waiter w = i \<Longrightarrow> io_end k R i (parked w k)"
  by (auto simp: io_end_def parked_def)

lemma io_end_Inl: "io_end k R i (Inl f)"
  by (simp add: io_end_def)

lemma wait_functions_end:
  assumes o: "out k p R" and i: "i \<in> R"
  shows "io_end k R i (event_wait_io cnv i k)" and "io_end k R i (event_sleep cnv ok i k)"
    and "io_end k R i (event_do_file_aio cnv fd i k)"
proof -
  note r = replied_end [OF o i]
  show "io_end k R i (event_wait_io cnv i k)"
    by (cases "get_inst k i") (auto simp: event_wait_io_def Let_def r parked_end io_end_Inl)
  show "io_end k R i (event_sleep cnv ok i k)"
    by (cases "get_inst k i") (auto simp: event_sleep_def Let_def r parked_end io_end_Inl)
  show "io_end k R i (event_do_file_aio cnv fd i k)"
    by (cases "get_inst k i")
      (auto simp: event_do_file_aio_def Let_def r parked_end io_end_Inl split: option.split lua_value.split)
qed

lemma park_end:
  assumes "node_inv n act" and "i \<in> act" and "io_end k (act \<union> waiting n) i (Inr c)" and "out k p (act \<union> waiting n)"
    and "park n c = (a, n')"
  shows "a = Loops \<and> node_inv n' (act - {i})"
proof -
  from assms(3) consider w where "c = Returned (Some w, k)" "waiter w = i"
    | k' p' where "c = Returned (None, k')" "out k' p' (act \<union> waiting n - {i})" by (auto simp: io_end_def)
  then show ?thesis
  proof cases
    case 1
    with assms(5) node_inv_park [OF assms(1,2,4), of w] show ?thesis by (auto simp: park_def)
  next
    case 2
    with assms(5) node_inv_leave [OF assms(1,2)] show ?thesis by (auto simp: park_def)
  qed
qed

lemma on_kern_inst:
  assumes "on_kern (upd_inst i f) n = Inr n'" and "\<And>d. i_stage (f d) = i_stage d" and "out (kern n) p R"
  shows "out (kern n') p R" and "armed n' = armed n"
  using assms upd_inst_out [OF assms(3), of i f] by (auto simp: on_kern_def rbind_Inr_iff)

lemma pop_socket_same: "pop_socket q n = Inr (r, n') \<Longrightarrow> kern n' = kern n \<and> armed n' = armed n"
  by (auto simp: pop_socket_def rbind_Inr_iff)

lemma next_process_same: "next_process s n = Inr (r, n') \<Longrightarrow> kern n' = kern n \<and> armed n' = armed n"
  by (auto simp: next_process_def Let_def rbind_Inr_iff split: if_splits prod.splits)

lemma get_process_sock_out:
  assumes "event_get_process_sock env i dst n = Inr (fd, n')" and "out (kern n) p R"
  shows "out (kern n') p R \<and> armed n' = armed n"
proof -
  from assms(1) obtain r n1 where r: "pop_socket dst n = Inr (r, n1)" by (auto simp: event_get_process_sock_def rbind_Inr_iff)
  have n1: "out (kern n1) p R" "armed n1 = armed n" using pop_socket_same [OF r] assms(2) by simp_all
  have pf: "out (kern n2) p R \<and> armed n2 = armed n" if "push_failure i msg n1 = Inr n2" for msg n2
    using that on_kern_inst [of i _ n1 n2 p R] n1 by (auto simp: push_failure_def)
  show ?thesis
  proof (cases r)
    case (Some q)
    with assms(1) r n1 show ?thesis by (auto simp: event_get_process_sock_def)
  next
    case None
    with assms(1) r n1 pf show ?thesis
      by (auto simp: event_get_process_sock_def rbind_Inr_iff split: if_splits)
  qed
qed

lemma send_async_out:
  assumes "send_async_event env as i s con t pl n = Inr (r, n')" and "out (kern n) p R"
  shows "out (kern n') p R \<and> (armed n' = armed n \<or> (\<exists>fd. r = Some 0 \<and> armed n' = armed n @ [AckWait fd i]))"
proof -
  from assms(1) obtain dst n1 where n1: "next_process s n = Inr (dst, n1)" by (auto simp: send_async_event_def rbind_Inr_iff)
  note e1 = assms(1) [unfolded send_async_event_def n1 rbind_simps prod.case]
  from e1 obtain fd n2 where n2: "event_get_process_sock env i dst n1 = Inr (fd, n2)" by (auto simp: rbind_Inr_iff)
  note e2 = e1 [unfolded n2 rbind_simps prod.case]
  have o2: "out (kern n2) p R" "armed n2 = armed n"
    using get_process_sock_out [OF n2, of p R] next_process_same [OF n1] assms(2) by simp_all
  show ?thesis
  proof (cases "write_loop as (wire_event s pl) []")
    case (AllSent x)
    with e2 obtain n3 where n3: "on_kern (upd_inst i (\<lambda>d. d\<lparr>i_last_proc := dst, i_con_id := con, i_communication_time := t\<rparr>)) n2 = Inr n3"
      "r = Some 0" "n' = n3\<lparr>armed := armed n3 @ [AckWait fd i]\<rparr>" by (auto elim: rbind_InrE)
    from on_kern_inst [OF n3(1) _ o2(1)] n3 o2(2) show ?thesis by auto
  qed (use e2 o2 in auto)
qed


lemma emmit_remote_out:
  assumes "emmit_remote e i n = Inr (r, n')" and "out (kern n) p R"
  shows "out (kern n') p R \<and> (armed n' = armed n \<or> (\<exists>fd. r = Some 0 \<and> armed n' = armed n @ [AckWait fd i]))"
proof -
  from assms(1) obtain c pl n1 dst con where
    n1: "on_kern (upd_inst i (\<lambda>d. d\<lparr>i_L := (i_L d)\<lparr>stack := lua_remove (stack (i_L c)) 2\<rparr>\<rparr>)) n = Inr n1"
    and c: "get_inst (kern n) i = Inr c"
    and s: "send_async_event (conn e) (writes e) i dst con (now e) pl n1 = Inr (r, n')"
    unfolding emmit_remote_def Let_def by (elim rbind_InrE) (rule that)
  from on_kern_inst [OF n1 _ assms(2)] have "out (kern n1) p R" "armed n1 = armed n" by simp_all
  with send_async_out [OF s, of p R] show ?thesis by auto
qed

lemma drop_code_out: "drop_code i k = Inr k' \<Longrightarrow> out k p R \<Longrightarrow> out k' p R"
  unfolding drop_code_def using upd_inst_out [of k p R i _ k'] by simp

lemma thread_leave_inv:
  assumes inv: "node_inv n act" and i: "i \<in> act" and l: "thread_leave e i oc n = Inr (a, n')"
  shows "case a of Loops \<Rightarrow> node_inv n' (act - {i}) | Continues j \<Rightarrow> node_inv n' (insert j (act - {i})) | Blocked \<Rightarrow> node_inv n' act"
proof -
  let ?R = "act \<union> waiting n"
  from inv obtain p0 where o0: "out (kern n) p0 ?R" by (rule node_invE)
  have iR: "i \<in> ?R" using i by simp
  obtain k where k: "upd_inst i (pcall_effect oc) (kern n) = Inr k"
    by (rule rbind_InrE [OF l [unfolded thread_leave_def]]) (rule that)
  note l1 = l [unfolded thread_leave_def k rbind_simps]
  obtain d where d: "get_inst k i = Inr d" by (rule rbind_InrE [OF l1]) (rule that)
  note l2 = l1 [unfolded d rbind_simps Let_def]
  have o: "out k p0 ?R" using upd_inst_out [OF o0 k] by (simp add: pcall_effect_def Let_def split: pcall_result.split)
  let ?s = "pcall_status (conv e) oc (stack (i_L d))"
  have gone: "a = Loops \<and> node_inv n' (act - {i})"
    if "out k1 p1 ?R" "rbind (instance_destroy (now e) i k1) (\<lambda>k. Inr (Loops, n\<lparr>kern := k\<rparr>)) = Inr (a, n')" for k1 p1
  proof -
    from that(2) obtain k2 where "instance_destroy (now e) i k1 = Inr k2" "a = Loops" "n' = n\<lparr>kern := k2\<rparr>"
      by (auto elim: rbind_InrE)
    with destroy_out(1) [OF that(1) iR] node_inv_leave [OF inv i] show ?thesis by blast
  qed
  have io: "a = Loops \<and> node_inv n' (act - {i})"
    if "rbind (drop_code i k) (\<lambda>k. rbind (f k) (\<lambda>c. Inr (park n c))) = Inr (a, n')"
      "\<And>k1. out k1 p0 ?R \<Longrightarrow> io_end k1 ?R i (f k1)" for f
  proof -
    from that(1) obtain k1 c where k1: "drop_code i k = Inr k1" "f k1 = Inr c" "park n c = (a, n')" by (auto elim!: rbind_InrE)
    have o1: "out k1 p0 ?R" by (rule drop_code_out [OF k1(1) o])
    from park_end [OF inv i _ o1 k1(3)] that(2) [OF o1] k1(2) show ?thesis by simp
  qed
  consider "?s = ENDED" | "?s = PCALL_ERROR" "?s \<noteq> ENDED" | "?s = DESTROY" "?s \<notin> {ENDED, PCALL_ERROR}"
    | "?s = EMMIT_COHORT" "?s \<notin> {ENDED, PCALL_ERROR, DESTROY}"
    | "?s = EMMIT_REMOTE" "?s \<notin> {ENDED, PCALL_ERROR, DESTROY, EMMIT_COHORT}"
    | "?s = WAIT_IO" "?s \<notin> {ENDED, PCALL_ERROR, DESTROY, EMMIT_COHORT, EMMIT_REMOTE}"
    | "?s = FILE_IO" "?s \<notin> {ENDED, PCALL_ERROR, DESTROY, EMMIT_COHORT, EMMIT_REMOTE, WAIT_IO}"
    | "?s = SLEEP" "?s \<notin> {ENDED, PCALL_ERROR, DESTROY, EMMIT_COHORT, EMMIT_REMOTE, WAIT_IO, FILE_IO}"
    | "?s = NICE" "?s \<notin> {ENDED, PCALL_ERROR, DESTROY, EMMIT_COHORT, EMMIT_REMOTE, WAIT_IO, FILE_IO, SLEEP}"
    | "?s \<notin> {ENDED, PCALL_ERROR, DESTROY, EMMIT_COHORT, EMMIT_REMOTE, WAIT_IO, FILE_IO, SLEEP, NICE}" by blast
  then show ?thesis
  proof cases
    case 1
    with l2 obtain c where c: "instance_release (ienv e) (now e) i k = Inr c" "back_to_loop n c snd = (a, n')"
      by (auto elim: rbind_InrE)
    from release_out [OF o iR c(1)] obtain x p1 where "c = Returned x" "out (snd x) p1 (?R - {i})" by blast
    with node_inv_leave [OF inv i] c(2) show ?thesis by (auto simp: back_to_loop_def)
  next
    case 2
    with l2 obtain k1 k2 where k1: "STATS_UPDATE_ERROR (i_stage d) 1 k = Inr k1" "STATS_INACTIVE (i_stage d) k1 = Inr k2"
      "rbind (instance_destroy (now e) i k2) (\<lambda>k. Inr (Loops, n\<lparr>kern := k\<rparr>)) = Inr (a, n')" by (auto simp: status_defs elim!: rbind_InrE)
    from gone [OF stats_out(2) [OF stats_out(3) [OF o k1(1)] k1(2)] k1(3)] show ?thesis by simp
  next
    case 3
    with l2 obtain k2 where k2: "STATS_INACTIVE (i_stage d) k = Inr k2"
      "rbind (instance_destroy (now e) i k2) (\<lambda>k. Inr (Loops, n\<lparr>kern := k\<rparr>)) = Inr (a, n')" by (auto simp: status_defs elim!: rbind_InrE)
    from gone [OF stats_out(2) [OF o k2(1)] k2(2)] show ?thesis by simp
  next
    case 4
    with l2 obtain k1 c where k1: "drop_code i k = Inr k1" "emmit_cohort e i k1 = Inr c" "continue_cohort n c = (a, n')"
      by (auto simp: status_defs elim!: rbind_InrE)
    have o1: "out k1 p0 ?R" by (rule drop_code_out [OF k1(1) o])
    from emmit_cohort_out [OF o1 iR k1(2)] obtain r k2 p2 where r: "c = Returned (r, k2)"
      "case r of None \<Rightarrow> out k2 p2 (?R - {i}) | Some j \<Rightarrow> out k2 p2 (insert j (?R - {i})) \<and> j \<notin> ?R" by blast
    show ?thesis
    proof (cases r)
      case None
      with r node_inv_leave [OF inv i] k1(3) show ?thesis by (auto simp: continue_cohort_def)
    next
      case (Some j)
      with r have j: "out k2 p2 (insert j (?R - {i}))" "j \<notin> ?R" by simp_all
      from inv have dd: "act \<inter> waiting n = {}" "distinct (map waiter (armed n))" by (auto simp: node_inv_def)
      have "node_inv (n\<lparr>kern := k2\<rparr>) (insert j (act - {i}))"
      proof (rule node_invI)
        show "out (kern (n\<lparr>kern := k2\<rparr>)) p2 (insert j (act - {i}) \<union> waiting (n\<lparr>kern := k2\<rparr>))"
          using out_mono [OF j(1), of "insert j (act - {i}) \<union> waiting n"] dd(1) i by (auto simp: waiting_def)
        show "insert j (act - {i}) \<inter> waiting (n\<lparr>kern := k2\<rparr>) = {}" using dd(1) j(2) by (auto simp: waiting_def)
        show "distinct (map waiter (armed (n\<lparr>kern := k2\<rparr>)))" using dd(2) by simp
      qed
      with r Some k1(3) show ?thesis by (auto simp: continue_cohort_def)
    qed
  next
    case 5
    with l2 obtain k1 r where k1: "drop_code i k = Inr k1" "emmit_remote e i (n\<lparr>kern := k1\<rparr>) = Inr (r, n')"
      "a = (case r of None \<Rightarrow> Blocked | Some _ \<Rightarrow> Loops)" by (auto simp: status_defs elim!: rbind_InrE)
    have o1: "out (kern (n\<lparr>kern := k1\<rparr>)) p0 ?R" using drop_code_out [OF k1(1) o] by simp
    from emmit_remote_out [OF k1(2) o1] have o2: "out (kern n') p0 ?R"
      and ar: "armed n' = armed n \<or> (\<exists>fd. r = Some 0 \<and> armed n' = armed n @ [AckWait fd i])" by auto
    show ?thesis
    proof (cases "armed n' = armed n")
      case True
      have "node_inv n' act" "node_inv n' (act - {i})"
        using inv True o2 out_mono [OF o2, of "act - {i} \<union> waiting n"] by (auto simp: node_inv_def waiting_def)
      with k1(3) show ?thesis by (cases r) auto
    next
      case False
      with ar obtain fd where "r = Some 0" "armed n' = armed n @ [AckWait fd i]" by blast
      moreover from this inv i o2 have "node_inv n' (act - {i})"
        by (auto simp: node_inv_def waiting_def intro!: exI [of _ p0] elim!: out_mono)
      ultimately show ?thesis using k1(3) by simp
    qed
  next
    case 6
    with l2 io [of "event_wait_io (conv e) i"] wait_functions_end(1) iR show ?thesis by (auto simp: status_defs)
  next
    case 7
    with l2 io [of "event_do_file_aio (conv e) (file_fd e) i"] wait_functions_end(3) iR show ?thesis by (auto simp: status_defs)
  next
    case 8
    with l2 io [of "event_sleep (conv e) (timer_ok e) i"] wait_functions_end(2) iR show ?thesis by (auto simp: status_defs)
  next
    case 9
    with l2 obtain c where c: "reply i [LBoolean True] k = Inr c" "back_to_loop n c (\<lambda>k. k) = (a, n')"
      by (auto simp: emmit_self_def status_defs elim: rbind_InrE)
    from reply_out [OF o iR c(1)] obtain k1 p1 where "c = Returned k1" "out k1 p1 (?R - {i})" by blast
    with node_inv_leave [OF inv i] c(2) show ?thesis by (auto simp: back_to_loop_def)
  next
    case 10
    with l2 have "rbind (instance_destroy (now e) i k) (\<lambda>k. Inr (Loops, n\<lparr>kern := k\<rparr>)) = Inr (a, n')"
      by (auto elim: rbind_InrE)
    from gone [OF o this] show ?thesis by simp
  qed
qed


section \<open>The other calls\<close>

lemma node_inv_kern:
  assumes "node_inv n act" and "out k p (act \<union> waiting n)"
  shows "node_inv (n\<lparr>kern := k\<rparr>) act"
  using assms by (auto simp: node_inv_def waiting_def)

lemma send_sync_same: "send_sync_event env as se ak s pl n = Inr (r, n') \<Longrightarrow> kern n' = kern n \<and> armed n' = armed n"
proof -
  assume a: "send_sync_event env as se ak s pl n = Inr (r, n')"
  obtain x where x: "next_process s n = Inr x" by (rule rbind_InrE [OF a [unfolded send_sync_event_def]]) (rule that)
  obtain dst n1 where x': "x = (dst, n1)" by (cases x)
  note a1 = a [unfolded send_sync_event_def x x' rbind_simps prod.case]
  obtain y where y: "pop_socket dst n1 = Inr y" by (rule rbind_InrE [OF a1]) (rule that)
  obtain so n2 where y': "y = (so, n2)" by (cases y)
  note a2 = a1 [unfolded y y' rbind_simps prod.case]
  have same: "kern n2 = kern n" "armed n2 = armed n"
    using next_process_same [of s n dst n1] pop_socket_same [of dst n1 so n2] x x' y y' by simp_all
  obtain pd where pd: "PROCESS (main_graph (kern n2)) dst = Inr pd" by (rule rbind_InrE [OF a2]) (rule that)
  note a3 = a2 [unfolded pd rbind_simps]
  obtain t where t: "process_text (main_graph (kern n2)) dst = Inr t" by (rule rbind_InrE [OF a3]) (rule that)
  note a4 = a3 [unfolded t rbind_simps Let_def]
  have ps: "kern n4 = kern n3 \<and> armed n4 = armed n3" if "push_socket q fd n3 = Inr (b, n4)" for q fd n3 b n4
    using that by (auto simp: push_socket_def rbind_Inr_iff)
  show ?thesis using a4 same ps
    by (cases so; cases "write_loop as (wire_event s pl) []") (auto simp: rbind_Inr_iff split: if_splits)
qed

lemma emmit_inv:
  assumes inv: "node_inv n act" and e: "emmit e h st n = Inr (Some (Returned (r, n')))"
  shows "node_inv n' act"
proof -
  from inv obtain p where o: "out (kern n) p (act \<union> waiting n)" by (rule node_invE)
  let ?dst = "c_int (lua_tointeger (conv e) st 1)" and ?con = "c_int (lua_tointeger (conv e) st 2)"
  obtain sd where sd: "STAGE (main_graph (kern n)) ?dst = Inr sd"
    by (rule rbind_InrE [OF e [unfolded emmit_def Let_def]]) (rule that)
  note e1 = e [unfolded emmit_def Let_def sd rbind_simps]
  obtain cl where cl: "CLUSTER (main_graph (kern n)) (sd_cluster sd) = Inr cl" by (rule rbind_InrE [OF e1]) (rule that)
  note e2 = e1 [unfolded cl rbind_simps]
  show ?thesis
  proof (cases "cl_local cl")
    case True
    with e2 obtain c where c: "emmit_local e h st ?dst ?con (kern n) = Inr c"
      "call_map (\<lambda>(r, k). (r, n\<lparr>kern := k\<rparr>)) c = Returned (r, n')" by (auto elim: rbind_InrE)
    from emmit_local_out [OF o c(1)] c(2) node_inv_kern [OF inv] show ?thesis by (auto simp: call_map_def)
  next
    case False
    with e2 have es: "emmit_remote_sync e h st n = Inr (Some (r, n'))" by (auto elim: rbind_InrE)
    show ?thesis
    proof (cases "remote_payload (enc_depth (ienv e)) h (lua_remove st 2)")
      case (Inl f)
      with es inv show ?thesis by (cases f) (auto simp: emmit_remote_sync_def Let_def)
    next
      case (Inr pl)
      note es1 = es [unfolded emmit_remote_sync_def Let_def Inr sum.case]
      obtain x where x: "send_sync_event (conn e) (writes e) (strerr e) (ack e)
          (c_int (lua_tointeger (conv e) (lua_remove st 2) 1)) pl n = Inr x" by (rule rbind_InrE [OF es1]) (rule that)
      obtain q n1 where x': "x = (q, n1)" by (cases x)
      note es2 = es1 [unfolded x x' rbind_simps prod.case]
      have same: "kern n1 = kern n" "armed n1 = armed n" using send_sync_same x x' by auto
      from es2 obtain resp vs where q: "q = Some (resp, vs)" by (cases q) auto
      with es2 obtain n2 where n2: "on_kern (count_connector_event ?con (later e - now e)) n1 = Inr n2" "n' = n2"
        by (auto elim: rbind_InrE)
      then obtain k where k: "count_connector_event ?con (later e - now e) (kern n) = Inr k" "n' = n1\<lparr>kern := k\<rparr>"
        using same by (auto simp: on_kern_def rbind_Inr_iff)
      from stats_out(6) [OF o k(1)] inv k(2) same show ?thesis by (auto simp: node_inv_def waiting_def)
    qed
  qed
qed

lemma callback_inv:
  assumes inv: "node_inv n act" and w: "w \<in> set (armed n)" and o: "out k p (act \<union> waiting n - {waiter w})"
  shows "node_inv (n\<lparr>kern := k, armed := remove1 w (armed n)\<rparr>) act"
proof (rule node_invI)
  let ?n = "n\<lparr>kern := k, armed := remove1 w (armed n)\<rparr>"
  from inv have d: "act \<inter> waiting n = {}" "distinct (map waiter (armed n))" by (auto simp: node_inv_def)
  have inj: "inj_on waiter (set (armed n))" and da: "distinct (armed n)" using d(2) by (auto simp: distinct_map)
  have wt: "waiting ?n = waiting n - {waiter w}"
    using w inj da by (auto simp: waiting_def inj_on_def)
  have "waiter w \<notin> act" using d(1) w by (auto simp: waiting_def)
  then have "act \<union> waiting ?n = act \<union> waiting n - {waiter w}" using wt by auto
  with o show "out (kern ?n) p (act \<union> waiting ?n)" by simp
  show "act \<inter> waiting ?n = {}" using wt d(1) by auto
  show "distinct (map waiter (armed ?n))" using inj da by (simp add: distinct_map inj_on_def)
qed

lemma waiting_member: "w \<in> set (armed n) \<Longrightarrow> waiter w \<in> act \<union> waiting n"
  by (simp add: waiting_def)

lemma reply_callback_inv:
  assumes "node_inv n act" and "w \<in> set (armed n)" and "reply (waiter w) vs (kern n) = Inr (Returned k)"
  shows "node_inv (n\<lparr>kern := k, armed := remove1 w (armed n)\<rparr>) act"
proof -
  from assms(1) obtain p where o: "out (kern n) p (act \<union> waiting n)" by (rule node_invE)
  from reply_out [OF o waiting_member [OF assms(2)] assms(3)] obtain p' where "out k p' (act \<union> waiting n - {waiter w})" by auto
  from callback_inv [OF assms(1,2) this] show ?thesis .
qed


lemma read_ack_inv:
  assumes inv: "node_inv n act" and w: "AckWait fd i \<in> set (armed n)"
    and a: "do_read_ack t se sz buf fd i n = Inr (Returned n')"
  shows "node_inv n' act"
proof -
  let ?w = "AckWait fd i"
  define n1 where "n1 = n\<lparr>armed := remove1 ?w (armed n)\<rparr>"
  from inv obtain p where o: "out (kern n1) p (act \<union> waiting n)" unfolding n1_def by (auto elim: node_invE)
  have iR: "i \<in> act \<union> waiting n" using waiting_member [OF w] by simp
  note a0 = a [unfolded do_read_ack_def Let_def, folded n1_def]
  obtain d where d: "get_inst (kern n1) i = Inr d" by (rule rbind_InrE [OF a0]) (rule that)
  note a1 = a0 [unfolded d rbind_simps]
  have fin: "node_inv n2 act" if "out (kern n2) p2 (act \<union> waiting n - {i})" "armed n2 = armed n1" for n2 p2
  proof -
    have "node_inv (n\<lparr>kern := kern n2, armed := remove1 ?w (armed n)\<rparr>) act" using callback_inv [OF inv w] that(1) by simp
    then show ?thesis using that(2) by (simp add: node_inv_def waiting_def n1_def)
  qed
  have rep: "node_inv n' act" if "on_kern_call (reply i vs) n1 = Inr (Returned n')" for vs
  proof -
    from that obtain c where c: "reply i vs (kern n1) = Inr c" "call_map (\<lambda>k. n1\<lparr>kern := k\<rparr>) c = Returned n'"
      by (auto simp: on_kern_call_def elim: rbind_InrE)
    from reply_out [OF o iR c(1)] c(2) fin [of n'] show ?thesis by (auto simp: call_map_def)
  qed
  consider (closed) "size_of_int sz \<le> 0" | (ok) "\<not> size_of_int sz \<le> 0" "size_of_int sz = 1 \<and> (case buf of [] \<Rightarrow> False | b # _ \<Rightarrow> b = 1)"
    | (bad) "\<not> size_of_int sz \<le> 0" "\<not> (size_of_int sz = 1 \<and> (case buf of [] \<Rightarrow> False | b # _ \<Rightarrow> b = 1))" by blast
  then show ?thesis
  proof cases
    case closed
    with a1 obtain vs where "on_kern_call (reply i vs) n1 = Inr (Returned n')" by (auto split: if_splits elim: rbind_InrE)
    then show ?thesis by (rule rep)
  next
    case bad
    with a1 obtain vs where "on_kern_call (reply i vs) n1 = Inr (Returned n')" by (auto split: if_splits elim: rbind_InrE)
    then show ?thesis by (rule rep)
  next
    case ok
    with a1 have a2: "rbind (push_socket (i_last_proc d) fd n1) (\<lambda>(_, n).
        rbind (on_kern (upd_inst i (\<lambda>d. d\<lparr>i_L := load_handler [LBoolean True] (i_L d), i_args := 1\<rparr>)) n) (\<lambda>n.
        rbind (if i_con_id d \<ge> 0
               then on_kern (STATS_UPDATE_EVENTS (i_stage d) 1 (i_con_id d) (t - i_communication_time d)) n
               else Inr n) (\<lambda>n. on_kern_call (push_ready_queue (Some i)) n))) = Inr (Returned n')" by simp
    then obtain b n2 where b: "push_socket (i_last_proc d) fd n1 = Inr (b, n2)" by (auto elim: rbind_InrE)
    have same: "kern n2 = kern n1" "armed n2 = armed n1" using b by (auto simp: push_socket_def rbind_Inr_iff)
    from a2 b obtain n3 where n3: "on_kern (upd_inst i (\<lambda>d. d\<lparr>i_L := load_handler [LBoolean True] (i_L d), i_args := 1\<rparr>)) n2 = Inr n3"
      and a3: "rbind (if i_con_id d \<ge> 0
               then on_kern (STATS_UPDATE_EVENTS (i_stage d) 1 (i_con_id d) (t - i_communication_time d)) n3
               else Inr n3) (\<lambda>n. on_kern_call (push_ready_queue (Some i)) n) = Inr (Returned n')" by (auto elim!: rbind_InrE)
    from on_kern_inst [OF n3, of p "act \<union> waiting n"] o same have o3: "out (kern n3) p (act \<union> waiting n)" "armed n3 = armed n1" by simp_all
    from a3 obtain n4 where n4: "(if i_con_id d \<ge> 0
               then on_kern (STATS_UPDATE_EVENTS (i_stage d) 1 (i_con_id d) (t - i_communication_time d)) n3
               else Inr n3) = Inr n4" and a4: "on_kern_call (push_ready_queue (Some i)) n4 = Inr (Returned n')" by (rule rbind_InrE)
    have o4: "out (kern n4) p (act \<union> waiting n)" "armed n4 = armed n1"
      using n4 o3 stats_out(4) [OF o3(1)] by (auto simp: on_kern_def rbind_Inr_iff split: if_splits)
    from a4 obtain c where c: "push_ready_queue (Some i) (kern n4) = Inr c" "call_map (\<lambda>k. n4\<lparr>kern := k\<rparr>) c = Returned n'"
      by (auto simp: on_kern_call_def elim: rbind_InrE)
    from push_ready_out [OF o4(1) iR c(1)] c(2) o4(2) fin [of n'] show ?thesis by (auto simp: call_map_def)
  qed
qed

lemma set_limit_out:
  assumes "out k p R" and "s < n_s (main_graph k)" and "\<not> is_serial k s" and "set_limit cap (int s) k = Inr k'"
  shows "\<exists>p'. out k' p' R \<and> main_graph k' = main_graph k"
proof -
  let ?p = "p\<lparr>idle_cap := (idle_cap p)(s := cap)\<rparr>"
  from set_limit_ok [OF outD(1) [OF assms(1)] assms(2,3), of cap] assms(4)
  have k': "krep k' ?p" "main_graph k' = main_graph k" "insts k' = insts k" by auto
  have "out k' ?p R"
    by (rule out_frame [OF assms(1) k'(1,2)]) (use outD(2,4) [OF assms(1)] k' in \<open>auto simp: running_def work_conserving_def\<close>)
  with k'(2) show ?thesis by blast
qed

lemma set_maxpar_out:
  assumes o: "out k p R" and e: "instance_set_maxpar cnv st k = Inr (vs, k')"
  shows "\<exists>p'. out k' p' R"
proof -
  let ?i = "c_int (lua_tointeger cnv st 1)" and ?cap = "c_int (lua_tointeger cnv st 2)" and ?n = "n_s (main_graph k)"
  have all: "(\<exists>p'. out k' p' R) \<and> main_graph k' = main_graph k" if "for_each (\<lambda>j k. rbind (STAGE (main_graph k) (int j)) (\<lambda>sd.
      if sd_serial sd then Inr k else set_limit ?i (int j) k)) [0..<?n] k = Inr k'" for k'
    using that
  proof (rule for_each_inv [where P = "\<lambda>k'. (\<exists>p'. out k' p' R) \<and> main_graph k' = main_graph k"])
    show "(\<exists>p'. out k p' R) \<and> main_graph k = main_graph k" using o by blast
    fix j t t' assume j: "j \<in> set [0..<?n]" and t: "(\<exists>p'. out t p' R) \<and> main_graph t = main_graph k"
      and e: "rbind (STAGE (main_graph t) (int j)) (\<lambda>sd. if sd_serial sd then Inr t else set_limit ?i (int j) t) = Inr t'"
    then obtain sd where sd: "STAGE (main_graph t) (int j) = Inr sd"
      "(if sd_serial sd then Inr t else set_limit ?i (int j) t) = Inr t'" by (auto elim: rbind_InrE)
    from t obtain pt where pt: "out t pt R" by blast
    show "(\<exists>p'. out t' p' R) \<and> main_graph t' = main_graph k"
    proof (cases "sd_serial sd")
      case False
      then have "\<not> is_serial t j" using sd by (simp add: is_serial_def)
      with False sd t set_limit_out [OF pt, of j ?i t'] j show ?thesis by auto
    qed (use sd t in simp)
  qed
  show ?thesis
  proof (cases "lua_isnumber cnv st 2")
    case False
    note e1 = e [unfolded instance_set_maxpar_def Let_def]
    show ?thesis
    proof (cases "?i < -1")
      case True
      with e1 False o show ?thesis by auto
    next
      case ge: False
      from e1 False ge obtain k1 where "for_each (\<lambda>j k. rbind (STAGE (main_graph k) (int j)) (\<lambda>sd.
          if sd_serial sd then Inr k else set_limit ?i (int j) k)) [0..<?n] k = Inr k1" "k1 = k'"
        by (auto simp del: One_nat_def elim!: rbind_InrE)
      with all show ?thesis by blast
    qed
  next
    case True
    note e1 = e [unfolded instance_set_maxpar_def Let_def]
    show ?thesis
    proof (cases "?cap < -1 \<or> ?i < 0 \<or> ?i \<ge> int ?n")
      case bad: True
      with e1 True o show ?thesis by (auto split: if_splits)
    next
      case False
      with e1 True obtain sd where sd: "STAGE (main_graph k) ?i = Inr sd"
        "(if sd_serial sd then Inr (lua_fail ''Cannot change maxpar of a serial stage'', k)
          else rbind (set_limit ?cap ?i k) (\<lambda>k. Inr ([LBoolean True], k))) = Inr (vs, k')"
        by (auto simp del: One_nat_def elim!: rbind_InrE)
      show ?thesis
      proof (cases "sd_serial sd")
        case True
        with sd o show ?thesis by auto
      next
        case ns: False
        then have "\<not> is_serial k (nat ?i)" using sd False by (simp add: is_serial_def)
        with set_limit_out [OF o, of "nat ?i" ?cap k'] sd ns False show ?thesis by (auto elim!: rbind_InrE)
      qed
    qed
  qed
qed

lemma set_capacity_out:
  assumes o: "out k p R" and e: "leda_set_capacity cnv st k = Inr (vs, k')" and i: "0 \<le> c_int (lua_tointeger cnv st 1)"
  shows "\<exists>p'. out k' p' R"
proof -
  let ?i = "c_int (lua_tointeger cnv st 1)" and ?cap = "c_int (lua_tointeger cnv st 2)" and ?n = "n_s (main_graph k)"
  note e1 = e [unfolded leda_set_capacity_def Let_def]
  show ?thesis
  proof (cases "?i \<ge> int ?n")
    case True
    with e1 i o show ?thesis by auto
  next
    case False
    with e1 i obtain q where q: "array_get (event_queues k) ?i = Inr q"
      "upd_queue event_queues event_queues_update ?i (queue_set_capacity q ?cap) k = Inr k'"
      by (auto simp del: One_nat_def elim!: rbind_InrE)
    let ?s = "nat ?i"
    have s: "?i = int ?s" "?s < ?n" using i False by simp_all
    have "rep q (pending p ?s)" using q(1) krepD(1) [OF outD(1) [OF o]] s(2) by (auto simp: array_get_Inr_iff qrep_def)
    from lfq.set_cap [OF this, of ?cap] have q': "rep (queue_set_capacity q ?cap) (pending p ?s)" "capacity (queue_set_capacity q ?cap) = ?cap"
      by simp_all
    let ?p = "p\<lparr>pending := (pending p)(?s := pending p ?s), pend_cap := (pend_cap p)(?s := ?cap)\<rparr>"
    from qrep_event [OF krepD(1) [OF outD(1) [OF o]] s(2) q'] q(2) s(1) have qr: "qrep k' ?p" by auto
    have s': "same_count k k'" "insts k' = insts k" using upd_queue_same(2) [OF q(2)] by simp_all
    have kr: "krep k' ?p" using krep_step [OF outD(1) [OF o] s'(1) qr] krepD(2) [OF outD(1) [OF o]] by (simp add: owned_def)
    have "out k' ?p R"
      by (rule out_frame [OF o kr same_count_graph [OF s'(1)]])
        (use outD(2,4) [OF o] s' same_count_graph [OF s'(1)] in \<open>auto simp: running_def work_conserving_def\<close>)
    then show ?thesis by blast
  qed
qed

lemma peek_out:
  assumes o: "out k p R" and e: "instance_peek_for_event env i k = Inr (c, k')"
  shows "\<exists>p'. out k' p' R"
proof -
  obtain d where d: "get_inst k i = Inr d" by (rule rbind_InrE [OF e [unfolded instance_peek_for_event_def]]) (rule that)
  note e1 = e [unfolded instance_peek_for_event_def d rbind_simps]
  obtain x where x: "try_pop_event (i_stage d) k = Inr x" by (rule rbind_InrE [OF e1]) (rule that)
  obtain r k1 where x': "x = (r, k1)" by (cases x)
  note e2 = e1 [unfolded x x' rbind_simps prod.case]
  have s1: "same_count k k1" "insts k1 = insts k" using queue_steps_same(3) x x' by auto
  from live_stage [OF outD(1) [OF o] get_inst_Some [OF d]] obtain s where s: "i_stage d = int s" "s < n_s (main_graph k)" by blast
  let ?p = "p\<lparr>pending := (pending p)(s := tl (pending p s))\<rparr>"
  from event_pop [OF krepD(1) [OF outD(1) [OF o]] s(2)] x x' s(1) have "qrep k1 ?p" by auto
  then have kr: "krep k1 ?p" using krep_step [OF outD(1) [OF o] s1(1)] krepD(2) [OF outD(1) [OF o]] by simp
  have w: "work_conserving (n_s (main_graph k)) ?p" using outD(2) [OF o] by (auto simp: work_conserving_def)
  have o1: "out k1 ?p R"
    by (rule out_frame [OF o kr same_count_graph [OF s1(1)] w])
      (use outD(4) [OF o] s1 same_count_graph [OF s1(1)] in \<open>auto simp: running_def\<close>)
  have i1: "insts k1 i = Some d" using s1(2) get_inst_Some [OF d] by simp
  show ?thesis
  proof (cases r)
    case None
    with e2 set_inst_out [OF o1 i1] show ?thesis by (auto intro!: exI [of _ ?p])
  next
    case (Some ev)
    with e2 obtain d' where d': "restore_into (runtime env) ev d = Inr d'" "k' = set_inst i (d'\<lparr>i_args := i_args d\<rparr>) k1"
      by (auto elim: rbind_InrE)
    with restore_into_stage [OF d'(1)] set_inst_out [OF o1 i1, of "d'\<lparr>i_args := i_args d\<rparr>"] show ?thesis by auto
  qed
qed

section \<open>The transition relation\<close>

text \<open>
  The state is the node with the instances that threads are executing. A thread
  takes an instance, its handler emits and looks for more events, and it leaves
  the instance or goes on with the callee of a cohort; the event thread resumes
  the instances that wait and delivers events from the network; the main program
  changes the limits. The environment, which decides what Lua code computes and
  the operating system answers, may differ in every step. Left out are the calls
  that make the ready queue bounded (\<open>leda_set_capacity\<close> with a negative index).
\<close>

inductive node_step :: "node \<times> addr set \<Rightarrow> node \<times> addr set \<Rightarrow> bool" where
  Take: "queue_pop (ready_queue (kern n)) = Inr (Popped (Some i) q) \<Longrightarrow>
    thread_enter env i ((kern n)\<lparr>ready_queue := q\<rparr>) = Inr k \<Longrightarrow>
    node_step (n, act) (n\<lparr>kern := k\<rparr>, insert i act)"
| Stop: "queue_pop (ready_queue (kern n)) = Inr (Popped None q) \<Longrightarrow>
    node_step (n, act) (n\<lparr>kern := (kern n)\<lparr>ready_queue := q\<rparr>\<rparr>, act)"
| Kill: "push_ready_queue None (kern n) = Inr (Returned k) \<Longrightarrow> node_step (n, act) (n\<lparr>kern := k\<rparr>, act)"
| Emmit: "i \<in> act \<Longrightarrow> emmit e h st n = Inr (Some (Returned (r, n'))) \<Longrightarrow> node_step (n, act) (n', act)"
| Peek: "i \<in> act \<Longrightarrow> instance_peek_for_event env i (kern n) = Inr (c, k) \<Longrightarrow>
    node_step (n, act) (n\<lparr>kern := k\<rparr>, act)"
| Leave: "i \<in> act \<Longrightarrow> thread_leave e i oc n = Inr (Loops, n') \<Longrightarrow> node_step (n, act) (n', act - {i})"
| Cohort: "i \<in> act \<Longrightarrow> thread_leave e i oc n = Inr (Continues j, n') \<Longrightarrow>
    thread_enter env j (kern n') = Inr k \<Longrightarrow>
    node_step (n, act) (n'\<lparr>kern := k\<rparr>, insert j (act - {i}))"
| Ready: "w \<in> set (armed n) \<Longrightarrow> w = WaitFd fd m i \<or> w = Timer tm i \<Longrightarrow>
    io_ready i (kern n) = Inr (Returned k) \<Longrightarrow>
    node_step (n, act) (n\<lparr>kern := k, armed := remove1 w (armed n)\<rparr>, act)"
| File: "w \<in> set (armed n) \<Longrightarrow> w = AioRead fd sz i \<or> w = AioWrite fd bs i \<Longrightarrow>
    aio_done w res buf (kern n) = Inr (Returned k) \<Longrightarrow>
    node_step (n, act) (n\<lparr>kern := k, armed := remove1 w (armed n)\<rparr>, act)"
| Ack: "AckWait fd i \<in> set (armed n) \<Longrightarrow> do_read_ack t se sz buf fd i n = Inr (Returned n') \<Longrightarrow>
    node_step (n, act) (n', act)"
| Arrive: "emmit_packed_event env t s data (kern n) = Inr (Returned (r, k)) \<Longrightarrow>
    node_step (n, act) (n\<lparr>kern := k\<rparr>, act)"
| Maxpar: "instance_set_maxpar cnv st (kern n) = Inr (vs, k) \<Longrightarrow> node_step (n, act) (n\<lparr>kern := k\<rparr>, act)"
| Capacity: "0 \<le> c_int (lua_tointeger cnv st 1) \<Longrightarrow> leda_set_capacity cnv st (kern n) = Inr (vs, k) \<Longrightarrow>
    node_step (n, act) (n\<lparr>kern := k\<rparr>, act)"

lemma take_inv:
  assumes inv: "node_inv n act" and q: "queue_pop (ready_queue (kern n)) = Inr (Popped x q)"
  shows "case x of None \<Rightarrow> node_inv (n\<lparr>kern := (kern n)\<lparr>ready_queue := q\<rparr>\<rparr>) act
    | Some i \<Rightarrow> node_inv (n\<lparr>kern := (kern n)\<lparr>ready_queue := q\<rparr>\<rparr>) (insert i act)"
proof -
  from inv obtain p where o: "out (kern n) p (act \<union> waiting n)" and d: "act \<inter> waiting n = {}"
    "distinct (map waiter (armed n))" by (rule node_invE)
  have r: "rep (ready_queue (kern n)) (ready p)" using krepD(1) [OF outD(1) [OF o]] by (simp add: qrep_def)
  have "ready p \<noteq> []"
    using q rep_head [of "sync_call Lock (ready_queue (kern n))" "ready p"] r
    by (auto simp: queue_pop_def queue_pop_wait_def Let_def)
  then obtain y ys where "ready p = y # ys" by (cases "ready p") auto
  with pop_ready_out [OF o this] q d show ?thesis
    by (cases x) (auto simp: node_inv_def waiting_def)
qed

lemma kill_inv:
  assumes inv: "node_inv n act" and e: "push_ready_queue None (kern n) = Inr c"
  shows "\<exists>k. c = Returned k \<and> node_inv (n\<lparr>kern := k\<rparr>) act"
proof -
  from inv obtain p where o: "out (kern n) p (act \<union> waiting n)" by (rule node_invE)
  let ?p = "p\<lparr>ready := ready p @ [None]\<rparr>"
  have "has_room (ready_cap p) (ready p)" using outD(3) [OF o] by (simp add: has_room_def)
  with push_ready_ok [OF outD(1) [OF o], of None] e obtain k where
    k: "c = Returned k" "krep k ?p" "same_count (kern n) k" by auto
  have run: "running k ?p i = running k p i" for i by (simp add: running_def)
  have "out k ?p (act \<union> waiting n)"
    by (rule out_frame [OF o k(2) same_count_graph [OF k(3)]])
      (use outD(2) [OF o] outD(4) [OF o] same_count_running [OF k(3), of p] in \<open>simp_all add: work_conserving_def run\<close>)
  with k(1) node_inv_kern [OF inv] show ?thesis by blast
qed

lemma enter_inv:
  assumes inv: "node_inv n act" and e: "thread_enter env i (kern n) = Inr k"
  shows "node_inv (n\<lparr>kern := k\<rparr>) act"
proof -
  from inv obtain p where "out (kern n) p (act \<union> waiting n)" by (rule node_invE)
  from thread_enter_out(1) [OF this e] node_inv_kern [OF inv] show ?thesis by blast
qed

lemma kern_step_inv:
  assumes "node_inv n act" and "\<And>p. out (kern n) p (act \<union> waiting n) \<Longrightarrow> \<exists>p'. out k p' (act \<union> waiting n)"
  shows "node_inv (n\<lparr>kern := k\<rparr>) act"
  using assms node_inv_kern by (metis node_invE)

lemma node_step_inv: "node_step x y \<Longrightarrow> node_inv (fst x) (snd x) \<Longrightarrow> node_inv (fst y) (snd y)"
proof (induction rule: node_step.induct)
  case (Take n i q env k act)
  from take_inv [OF Take(3) [simplified] Take(1)]
  have t: "node_inv (n\<lparr>kern := (kern n)\<lparr>ready_queue := q\<rparr>\<rparr>) (insert i act)" by simp
  with enter_inv [OF t, of env i k] Take(2) show ?case by simp
next
  case (Stop n q act)
  with take_inv [of n act None q] show ?case by simp
next
  case (Kill n k act)
  with kill_inv [of n act "Returned k"] show ?case by auto
next
  case (Emmit i act e h st n r n')
  with emmit_inv [of n act] show ?case by simp
next
  case (Peek i act env n c k)
  then show ?case using kern_step_inv [of n act k] peek_out by auto
next
  case (Leave i act e oc n n')
  with thread_leave_inv [of n act i e oc Loops n'] show ?case by simp
next
  case (Cohort i act e oc n j n' env k)
  with thread_leave_inv [of n act i e oc "Continues j" n'] enter_inv [of n' "insert j (act - {i})" env j k] show ?case by simp
next
  case (Ready w n fd m i tm k act)
  then have "reply (waiter w) [LBoolean True] (kern n) = Inr (Returned k)" by (auto simp: io_ready_def)
  with reply_callback_inv [of n act w] Ready show ?case by simp
next
  case (File w n fd sz i bs res buf k act)
  then obtain vs where "reply (waiter w) vs (kern n) = Inr (Returned k)"
    by (auto simp: aio_done_def split: if_splits)
  with reply_callback_inv [of n act w] File show ?case by simp
next
  case (Ack fd i n t se sz buf n' act)
  with read_ack_inv [of n act] show ?case by simp
next
  case (Arrive env t s data n r k act)
  then show ?case using kern_step_inv [of n act k] emmit_packed_out by fastforce
next
  case (Maxpar cnv st n vs k act)
  then show ?case using kern_step_inv [of n act k] set_maxpar_out by auto
next
  case (Capacity cnv st n vs k act)
  then show ?case using kern_step_inv [of n act k] set_capacity_out by auto
qed

lemma node_steps_inv: "node_step\<^sup>*\<^sup>* x y \<Longrightarrow> node_inv (fst x) (snd x) \<Longrightarrow> node_inv (fst y) (snd y)"
  by (induction rule: rtranclp_induct) (auto dest: node_step_inv)

section \<open>Work conservation\<close>

definition boot_node :: "kernel \<Rightarrow> int LFQueue list \<Rightarrow> atomicInt list \<Rightarrow> node" where
  "boot_node k socks cur = \<lparr>kern = k, sockets = socks, cur_process = cur, armed = []\<rparr>"

lemma init_node_inv:
  assumes "instance_init g st rl pl = Inr k" and "stats_wf st" and "nstages st = n_s g"
  shows "node_inv (boot_node k socks cur) {}"
proof -
  have "out k (empty_pool k) {}"
    using init_krep [OF assms] init_arrays(5) [OF assms(1)] by (simp add: out_def work_conserving_def)
  then show ?thesis by (auto simp: node_inv_def boot_node_def waiting_def)
qed


text \<open>An event arrives for a stage without instances; the instance made for it is queued.\<close>

lemma wit_arrive:
  obtains k where "emmit_packed_event wit_env 7 0 [1] wit_init = Inr (Returned (0, k))" and "insts k 1 \<noteq> None"
proof -
  have "\<exists>k. emmit_packed_event wit_env 7 0 [1] wit_init = Inr (Returned (0, k)) \<and> insts k 1 \<noteq> None"
    using wit_init by (simp add: emmit_packed_event_def wit_init_def wit_kernel_defs upd_inst_def get_inst_def
      push_ready_queue_def queue_push_def call_map_def)
  with that show thesis by blast
qed


end
