(* ===== verification/Leda_Receive.thy ===== *)
theory Leda_Receive
  imports Leda_Work
begin

text \<open>
  Events that arrive from other processes (\<open>read_event\<close> and \<open>do_read\<close> of
  \<open>src/kernel/event.c\<close>), and the two ends of the wire together: what the sender's
  loop of writes puts on the connection is what the receiver delivers, and what
  the receiver makes of other messages.
\<close>

section \<open>Receiving\<close>

text \<open>
  The answers to successive \<open>read\<close> calls: an error with \<open>EAGAIN\<close>, another error, or
  bytes, none at the end of the stream. A single call transfers at most
  \<open>0x7ffff000\<close> bytes.
\<close>

datatype read_answer = ReadAgain | ReadFail | Got "byte list"

definition MAX_RW :: nat where "MAX_RW = 0x7ffff000"

text \<open>
  The loop that reads the payload: \<open>readed\<close> is an \<open>int\<close> and compared as a \<open>size_t\<close>
  with the length.
\<close>

datatype read_end = StillReading | ReadError | ReadEnded int "byte list"

definition goes_on :: "int \<Rightarrow> nat \<Rightarrow> bool" where
  "goes_on readed len \<longleftrightarrow> size_of_int readed < int len"

primrec read_loop :: "read_answer list \<Rightarrow> nat \<Rightarrow> int \<Rightarrow> byte list \<Rightarrow> read_end" where
  "read_loop [] len readed buf = (if goes_on readed len then StillReading else ReadEnded readed buf)"
| "read_loop (a # as) len readed buf =
     (if goes_on readed len
      then case a of
          ReadAgain \<Rightarrow> read_loop as len readed buf
        | ReadFail \<Rightarrow> ReadError
        | Got bs \<Rightarrow> let bs = take (min (len - nat readed) MAX_RW) bs in
            if bs = [] then ReadEnded readed buf
            else read_loop as len (c_int (readed + int (length bs))) (buf @ bs)
      else ReadEnded readed buf)"

text \<open>
  The header: \<open>read\<close> fills the first bytes of a buffer on the C stack, whose
  other bytes are what the stack held (\<open>junk\<close>).
\<close>

definition header_size :: nat where "header_size = 13"

definition header :: "byte list \<Rightarrow> byte list \<Rightarrow> byte list" where
  "header junk bs = take header_size (bs @ drop (length bs) junk)"

definition header_stage :: "byte list \<Rightarrow> int" where
  "header_stage h = c_int (int (le_val (take 4 (drop 1 h))))"

definition header_len :: "byte list \<Rightarrow> nat" where
  "header_len h = le_val (take 8 (drop 5 h))"

text \<open>
  \<open>read_event\<close>: the value it returns with the bytes it has written to the
  descriptor, unless it is still reading. \<open>wr\<close> is what \<open>write\<close> answers. A header
  that cannot be read at once is an error, \<open>EAGAIN\<close> included.
\<close>

datatype receipt = Reading | Received int "byte list"

definition read_event ::
  "instance_env \<Rightarrow> int \<Rightarrow> byte list \<Rightarrow> bool \<Rightarrow> read_answer list \<Rightarrow> int \<Rightarrow> kernel \<Rightarrow> (receipt \<times> kernel) call result" where
  "read_event env t junk malloc_ok as wr k =
     (let refused = (\<lambda>v. Inr (Returned (Received v [], k))) in
      case as of
        [] \<Rightarrow> Inr (Returned (Reading, k))
      | ReadAgain # as \<Rightarrow> refused (-1)
      | ReadFail # as \<Rightarrow> refused (-1)
      | Got bs # as \<Rightarrow>
        let bs = take header_size bs; h = header junk bs in
        if bs = [] then refused (-1)
        else if h ! 0 = INIT_TYPE then
          Inr (Returned (Received (if wr \<noteq> 1 then 1 else -1) [4], k))
        else if h ! 0 \<noteq> EVENT_TYPE then
          Inr (Returned (Received (if wr \<le> 0 then -2 else -1) [3], k))
        else let s_id = header_stage h; len = header_len h in
        if c_int (int len) \<le> 0 then refused (-1)
        else if \<not> malloc_ok then refused (-1)
        else (case read_loop as len 0 [] of
          StillReading \<Rightarrow> Inr (Returned (Reading, k))
        | ReadError \<Rightarrow> refused (-1)
        | ReadEnded readed buf \<Rightarrow>
          if size_of_int readed \<noteq> int len then refused 1
          else rbind (emmit_packed_event env t s_id buf k) (\<lambda>c. Inr (call_map (\<lambda>(res, k).
            (Received (if wr \<noteq> 1 then 1 else 0) [if res = 0 then 1 else 2], k)) c))))"

text \<open>\<open>do_read\<close> closes the descriptor when \<open>read_event\<close> returns another value than zero.\<close>

definition do_read ::
  "instance_env \<Rightarrow> int \<Rightarrow> byte list \<Rightarrow> bool \<Rightarrow> read_answer list \<Rightarrow> int \<Rightarrow> kernel \<Rightarrow> (bool \<times> kernel) call result" where
  "do_read env t junk malloc_ok as wr k = rbind (read_event env t junk malloc_ok as wr k) (\<lambda>c.
     Inr (call_map (\<lambda>(r, k). (case r of Reading \<Rightarrow> False | Received v _ \<Rightarrow> v \<noteq> 0, k)) c))"

text \<open>
  \<open>do_accept\<close>: the descriptor \<open>accept\<close> gives is closed when it is too large to be waited
  for, otherwise \<open>do_read\<close> is registered for it. The results are the descriptors closed and those
  with a read event.
\<close>

definition FD_SETSIZE :: int where
  "FD_SETSIZE = 1024"

definition do_accept :: "int \<Rightarrow> int list \<Rightarrow> int list \<times> int list" where
  "do_accept fd watched =
     (if fd < 0 then ([], watched) else if fd > FD_SETSIZE then ([fd], watched) else ([], watched @ [fd]))"

section \<open>Both ends of the wire\<close>

text \<open>The loop of writes sends a prefix of the message at every moment, and all of it when it ends.\<close>

lemma write_loop_prefix:
  "case write_loop as bs sent of
     AllSent snt \<Rightarrow> snt = sent @ bs
   | WriteFailed snt \<Rightarrow> \<exists>n. snt = sent @ take n bs
   | StillWriting snt \<Rightarrow> \<exists>n. snt = sent @ take n bs"
proof (induction as bs sent rule: write_loop.induct)
  case (3 a as b bs sent)
  show ?case
  proof (cases a)
    case Again
    with 3(1) show ?thesis by simp
  next
    case Fail
    then show ?thesis by (auto intro: exI [of _ 0])
  next
    case (Wrote n)
    have "\<exists>m. (sent @ take n (b # bs)) @ take j (drop n (b # bs)) = sent @ take m (b # bs)" for j
      by (rule exI [of _ "n + j"]) (simp add: take_add)
    with 3(2) [OF Wrote] Wrote show ?thesis by (auto split: write_end.splits)
  qed
qed (auto intro: exI [of _ 0])

text \<open>The stream hands the bytes over in some chunks, the reader being told to try again in between.\<close>

fun delivers :: "read_answer list \<Rightarrow> byte list \<Rightarrow> bool" where
  "delivers [] bs \<longleftrightarrow> bs = []"
| "delivers (ReadAgain # as) bs \<longleftrightarrow> delivers as bs"
| "delivers (ReadFail # as) bs \<longleftrightarrow> False"
| "delivers (Got c # as) bs \<longleftrightarrow>
     c \<noteq> [] \<and> length c \<le> MAX_RW \<and> take (length c) bs = c \<and> delivers as (drop (length c) bs)"

lemma read_loop_delivers:
  "delivers as bs \<Longrightarrow> length buf + length bs < 2 ^ 31 \<Longrightarrow>
   read_loop as (length buf + length bs) (int (length buf)) buf = ReadEnded (int (length buf + length bs)) (buf @ bs)"
proof (induction as bs arbitrary: buf rule: delivers.induct)
  case (1 bs)
  then show ?case by (simp add: goes_on_def size_of_int_def)
next
  case (2 as bs)
  have "read_loop as (length buf) (int (length buf)) buf = ReadEnded (int (length buf)) buf" if "bs = []"
    using 2 that by simp
  with 2 show ?case by (auto simp: goes_on_def size_of_int_def)
next
  case (4 c as bs)
  then have c: "c \<noteq> []" "length c \<le> MAX_RW" "take (length c) bs = c" "delivers as (drop (length c) bs)" by simp_all
  have l: "length c \<le> length bs" by (metis c(3) length_take min.cobounded1)
  have b0: "bs \<noteq> []" using c(1) l by auto
  have bs: "bs = c @ drop (length c) bs" by (metis c(3) append_take_drop_id)
  have t: "take (min (length buf + length bs - nat (int (length buf))) MAX_RW) c = c" using l c(2) by simp
  have n: "length (buf @ c) + length (drop (length c) bs) = length buf + length bs" using l by simp
  have "read_loop (Got c # as) (length buf + length bs) (int (length buf)) buf
      = read_loop as (length (buf @ c) + length (drop (length c) bs)) (int (length (buf @ c))) (buf @ c)"
    using 4(3) c(1) l t n b0 by (simp add: goes_on_def size_of_int_def Let_def)
  also have "\<dots> = ReadEnded (int (length buf + length bs)) ((buf @ c) @ drop (length c) bs)"
    using 4(1) [OF c(4), of "buf @ c"] 4(3) n by simp
  also have "(buf @ c) @ drop (length c) bs = buf @ bs" using bs by simp
  finally show ?case .
qed simp

lemma c_int_mod: "- (2 ^ 31) \<le> s \<Longrightarrow> s < 2 ^ 31 \<Longrightarrow> c_int (s mod 2 ^ 32) = s"
proof -
  assume s: "- (2 ^ 31) \<le> s" "s < 2 ^ 31"
  have "s mod 2 ^ 32 = take_bit (Suc 31) s" by (simp add: take_bit_eq_mod)
  then have "c_int (s mod 2 ^ 32) = signed_take_bit 31 s" by (simp add: c_int_def signed_take_bit_take_bit)
  with s show ?thesis by (simp add: signed_take_bit_int_eq_self)
qed

definition wire_header :: "int \<Rightarrow> byte list \<Rightarrow> byte list" where
  "wire_header s_id payload = EVENT_TYPE # le_bytes 4 (nat (s_id mod 2 ^ 32)) @ le_bytes 8 (length payload)"

lemma wire_split: "wire_event s_id payload = wire_header s_id payload @ payload"
  by (simp add: wire_event_def wire_header_def)

lemma wire_header_length [simp]: "length (wire_header s_id payload) = header_size"
  by (simp add: wire_header_def header_size_def del: le_bytes.simps)

lemma wire_header_fields:
  assumes "- (2 ^ 31) \<le> s_id" and "s_id < 2 ^ 31" and "length payload < 2 ^ 31"
  shows "header_stage (wire_header s_id payload) = s_id" and "header_len (wire_header s_id payload) = length payload"
    and "wire_header s_id payload ! 0 = EVENT_TYPE"
proof -
  have "int (nat (s_id mod 2 ^ 32)) = s_id mod 2 ^ 32" by simp
  moreover have "nat (s_id mod 2 ^ 32) < 256 ^ 4" by (simp add: nat_less_iff)
  ultimately show "header_stage (wire_header s_id payload) = s_id"
    using c_int_mod [OF assms(1,2)]
    by (simp add: header_stage_def wire_header_def le_val_le_bytes del: le_bytes.simps)
  show "header_len (wire_header s_id payload) = length payload"
    using assms(3) by (simp add: header_len_def wire_header_def le_val_le_bytes del: le_bytes.simps)
qed (simp add: wire_header_def)

text \<open>What the receiver does with a complete header of an event.\<close>

lemma read_event_header:
  assumes "length h = header_size" and "h ! 0 = EVENT_TYPE" and "header_len h = length data" and "data \<noteq> []"
    and "length data < 2 ^ 31" and "delivers as data" and "header junk (take header_size bs) = h" and "bs \<noteq> []"
  shows "read_event env t junk True (Got bs # as) wr k =
     rbind (emmit_packed_event env t (header_stage h) data k) (\<lambda>c. Inr (call_map (\<lambda>(res, k).
       (Received (if wr \<noteq> 1 then 1 else 0) [if res = 0 then 1 else 2], k)) c))"
proof -
  have r: "read_loop as (length data) 0 [] = ReadEnded (int (length data)) data"
    using read_loop_delivers [OF assms(6), of "[]"] assms(5) by simp
  have "take header_size bs \<noteq> []" using assms(8) by (simp add: header_size_def)
  moreover have "\<not> c_int (int (length data)) \<le> 0" using assms(4,5) by simp
  moreover have "size_of_int (int (length data)) = int (length data)" using assms(5) by (simp add: size_of_int_def)
  moreover have "h ! 0 \<noteq> INIT_TYPE" using assms(2) by (simp add: EVENT_TYPE_def INIT_TYPE_def)
  ultimately show ?thesis
    using assms(2,3,7) r by (simp add: read_event_def Let_def)
qed

text \<open>
  C18. An event crosses the network unchanged: when the sender's loop of writes
  ends, whatever part each \<open>write\<close> took, and the receiver gets the header in one
  piece and the rest in any pieces, the receiver emits exactly the sender's payload
  to the stage the sender named and acknowledges it with 1, or with 2 when the
  event was refused.
\<close>

theorem event_crosses_wire:
  assumes "write_loop ws (wire_event s_id payload) [] = AllSent sent"
    and "- (2 ^ 31) \<le> s_id" and "s_id < 2 ^ 31" and "payload \<noteq> []" and "length payload < 2 ^ 31"
    and "delivers rs (drop header_size sent)"
  shows "read_event env t junk True (Got (take header_size sent) # rs) wr k =
     rbind (emmit_packed_event env t s_id payload k) (\<lambda>c. Inr (call_map (\<lambda>(res, k).
       (Received (if wr \<noteq> 1 then 1 else 0) [if res = 0 then 1 else 2], k)) c))"
proof -
  have "sent = wire_event s_id payload"
    using write_loop_prefix [where as = ws and bs = "wire_event s_id payload" and sent = "[]"] assms(1) by simp
  then have s: "take header_size sent = wire_header s_id payload" "drop header_size sent = payload"
    by (simp_all add: wire_split)
  note f = wire_header_fields [OF assms(2,3,5)]
  have "header junk (take header_size (wire_header s_id payload)) = wire_header s_id payload"
    by (simp add: header_def)
  moreover have "wire_header s_id payload \<noteq> []" by (simp add: wire_header_def)
  ultimately show ?thesis
    unfolding s(1) using read_event_header [of "wire_header s_id payload" payload rs junk] f assms(4,5,6) s(2) by simp
qed

text \<open>
  The header is read by a single call that need not return all of it. When the
  first byte of a message arrives alone, the stage and the length are taken from
  the uninitialised rest of the buffer on the C stack: whatever stage \<open>s'\<close> one likes,
  there are stack contents with which the rest of the message, its own header
  included, is emitted to \<open>s'\<close>.
\<close>

theorem short_header_misdelivers:
  assumes "- (2 ^ 31) \<le> s'" and "s' < 2 ^ 31" and "length payload + header_size < 2 ^ 31"
    and "delivers rs (drop 1 (wire_event s_id payload))"
  shows "\<exists>junk. read_event env t junk True (Got [EVENT_TYPE] # rs) wr k =
     rbind (emmit_packed_event env t s' (drop 1 (wire_event s_id payload)) k) (\<lambda>c. Inr (call_map (\<lambda>(res, k).
       (Received (if wr \<noteq> 1 then 1 else 0) [if res = 0 then 1 else 2], k)) c))"
proof -
  define data where "data = drop 1 (wire_event s_id payload)"
  let ?h = "wire_header s' data"
  have "length (wire_event s_id payload) = header_size + length payload" by (simp add: wire_split)
  then have l: "length data = header_size - 1 + length payload" by (simp add: data_def header_size_def)
  then have "data \<noteq> []" "length data < 2 ^ 31" using assms(3) by (auto simp: header_size_def)
  moreover have "header ?h (take header_size [EVENT_TYPE]) = ?h"
    by (simp add: header_def header_size_def wire_header_def del: le_bytes.simps)
  moreover have "delivers rs data" using assms(4) by (simp add: data_def)
  ultimately have "read_event env t ?h True (Got [EVENT_TYPE] # rs) wr k =
     rbind (emmit_packed_event env t s' data k) (\<lambda>c. Inr (call_map (\<lambda>(res, k).
       (Received (if wr \<noteq> 1 then 1 else 0) [if res = 0 then 1 else 2], k)) c))"
    using read_event_header [of ?h data rs ?h "[EVENT_TYPE]"] wire_header_fields [OF assms(1,2), of data] by simp
  then show ?thesis unfolding data_def by (rule exI)
qed

lemma invalid_stage_faults:
  assumes "krep k p" and "\<not> (0 \<le> s \<and> s < int (n_s (main_graph k)))"
  shows "emmit_packed_event env t s data k = Inl OutOfBounds"
proof -
  have l: "length (recycle_queues k) = n_s (main_graph k)" "length (event_queues k) = n_s (main_graph k)"
    using krepD(1) [OF assms(1)] by (simp_all add: qrep_def)
  show ?thesis
  proof (cases "size_of_int s > int (n_s (main_graph k))")
    case True
    then show ?thesis using assms(2) l
      by (auto simp: emmit_packed_event_def instance_aquire_def instance_try_push_pending_event_def array_get_def)
  next
    case False
    then show ?thesis using assms(2) l
      by (auto simp: emmit_packed_event_def instance_aquire_def try_pop_recycle_def array_get_def)
  qed
qed

text \<open>
  C38. The stage named by a message is not checked against the graph: a well-formed
  message for a stage that does not exist makes the receiving process access its
  queues outside their bounds.
\<close>

theorem remote_stage_unchecked:
  assumes "krep k p" and "\<not> (0 \<le> s_id \<and> s_id < int (n_s (main_graph k)))"
    and "- (2 ^ 31) \<le> s_id" and "s_id < 2 ^ 31" and "payload \<noteq> []" and "length payload < 2 ^ 31"
    and "delivers rs payload"
  shows "read_event env t junk True (Got (take header_size (wire_event s_id payload)) # rs) wr k = Inl OutOfBounds"
proof -
  have "wire_header s_id payload \<noteq> []" by (simp add: wire_header_def)
  then show ?thesis
    using read_event_header [of "wire_header s_id payload" payload rs junk "wire_header s_id payload"]
      wire_header_fields [OF assms(3,4,6)] assms(5,6,7) invalid_stage_faults [OF assms(1,2)]
    by (simp add: wire_split header_def)
qed

section \<open>Witnesses\<close>

lemma wit_wire: "wire_event 0 [7, 8] = [28, 0, 0, 0, 0, 2, 0, 0, 0, 0, 0, 0, 0, 7, 8]"
  by (simp add: wire_event_def EVENT_TYPE_def le_bytes_numeral)

theorem event_crosses_wire_witness:
  "\<exists>k. read_event wit_env 7 [] True [Got [28, 0, 0, 0, 0, 2, 0, 0, 0, 0, 0, 0, 0], ReadAgain, Got [7], Got [8]] 1 wit_init =
     Inr (Returned (Received 0 [1], k)) \<and> emmit_packed_event wit_env 7 0 [7, 8] wit_init = Inr (Returned (0, k))"
proof -
  have w: "write_loop [Wrote 3, Again, Wrote 12] (wire_event 0 [7, 8]) [] = AllSent [28, 0, 0, 0, 0, 2, 0, 0, 0, 0, 0, 0, 0, 7, 8]"
    by (simp add: wit_wire)
  have e: "\<exists>k. emmit_packed_event wit_env 7 0 [7, 8] wit_init = Inr (Returned (0, k))"
    using wit_init by (simp add: emmit_packed_event_def wit_init_def wit_kernel_defs upd_inst_def get_inst_def
      push_ready_queue_def queue_push_def call_map_def)
  show ?thesis
    using event_crosses_wire [OF w, of "[ReadAgain, Got [7], Got [8]]" wit_env 7 "[]" 1 wit_init] e
    by (auto simp: header_size_def MAX_RW_def call_map_def)
qed

theorem short_header_misdelivers_witness:
  "\<exists>junk. read_event wit_env 7 junk True [Got [28], Got [0, 0, 0, 0, 2, 0, 0, 0, 0, 0, 0, 0, 7, 8]] 1 wit_init = Inl OutOfBounds"
  using short_header_misdelivers [of 5 "[7, 8]" "[Got [0, 0, 0, 0, 2, 0, 0, 0, 0, 0, 0, 0, 7, 8]]" 0 wit_env 7 1 wit_init]
    invalid_stage_faults [OF wit_init_krep, of 5 wit_env 7] wit_init(2)
  by (simp add: wit_wire header_size_def MAX_RW_def wit_kgraph_def EVENT_TYPE_def)

theorem remote_stage_unchecked_witness:
  "read_event wit_env 7 [] True (Got (take header_size (wire_event 1 [7, 8])) # [Got [7, 8]]) 1 wit_init = Inl OutOfBounds"
  by (rule remote_stage_unchecked [OF wit_init_krep]) (simp_all add: wit_init(2) wit_kgraph_def MAX_RW_def)

end
