(* ===== verification/Leda_Emit.thy ===== *)
theory Leda_Emit
  imports Leda_Receive
begin

text \<open>
  What becomes of an event that a handler emits to a stage of its own process
  (\<open>emmit\<close> of \<open>src/kernel/scheduler.c\<close>): exactly one of the outcomes below, with
  the effect of each on the queues.
\<close>

lemma count_connector_same:
  assumes "krep k p" and "count_connector_event con t k = Inr k'"
  shows "krep k' p" and "insts k' = insts k" and "main_graph k' = main_graph k" and "running k' p j = running k p j"
proof -
  have "krep k' p \<and> insts k' = insts k \<and> same_count k k'"
  proof (cases "con \<ge> 0")
    case True
    note u = assms(2) [unfolded count_connector_event_def]
    obtain q where c: "STATS_UPDATE_EVENTS q 1 con t k = Inr k'"
      by (rule rbind_InrE [OF u [unfolded if_P [OF True]]]) (rule that)
    then obtain st' where st': "stats_update_events q 1 con (of_int t) (kstats k) = Inr st'" "k' = k\<lparr>kstats := st'\<rparr>"
      by (auto simp: STATS_UPDATE_EVENTS_def on_stats_def rbind_Inr_iff)
    have s: "same_count k k'" using st'(2) by (simp add: same_count_def)
    have "stats_wf (kstats k)" using krepD(1) [OF assms(1)] by (simp add: qrep_def)
    from stats_results(1) [OF this st'(1)] have "qrep k' p"
      using krepD(1) [OF assms(1)] st'(2) by (simp add: qrep_def)
    moreover have "owned k' p" "owned k p" using krepD(2) [OF assms(1)] st'(2) by (simp_all add: owned_def live_def)
    ultimately show ?thesis using krep_step [OF assms(1) s] st'(2) s by simp
  qed (use assms in \<open>simp add: count_connector_event_def\<close>)
  then show "krep k' p" "insts k' = insts k" "main_graph k' = main_graph k" "running k' p j = running k p j"
    using same_count_graph same_count_running by blast+
qed

text \<open>
  The instance acquired for stage \<open>s\<close>, as the callers find it: the oldest idle one
  with its heap, or a new one with an empty stack.
\<close>

definition acquired :: "kernel \<Rightarrow> pool \<Rightarrow> nat \<Rightarrow> addr \<Rightarrow> instance_data \<Rightarrow> bool" where
  "acquired k p s j d \<longleftrightarrow> i_stage d = int s \<and>
     (case idle p s of i # is \<Rightarrow> j = i \<and> i_L d = i_L (the (insts k i)) \<and> i_heap d = i_heap (the (insts k i))
      | [] \<Rightarrow> insts k j = None \<and> stack (i_L d) = [])"

lemma aquire_acquired:
  assumes "krep k p" and "s < n_s (main_graph k)" and "instance_aquire env t (int s) k = Inr (Some j, k1)"
  shows "\<exists>d. insts k1 j = Some d \<and> acquired k p s j d"
proof (cases "idle p s")
  case (Cons i "is")
  from idle_live [OF assms(1,2), of i] Cons obtain d where d: "insts k i = Some d" "i_stage d = int s" by auto
  from aquire_idle [OF assms(1,2) Cons d(1), of env t] assms(3) d Cons show ?thesis by (auto simp: acquired_def)
next
  case Nil
  from aquire_no_idle [OF assms(1,2) Nil, of env t] obtain k0 where k0: "same_count k k0" "insts k0 = insts k" "krep k0 p"
    and a: "instance_aquire env t (int s) k =
      (if READ (number_of_instances k ! s) = READ (recycle_queue_limits k ! s) then Inr (None, k0)
       else instance_create env t (int s) k0)" by blast
  have ne: "READ (number_of_instances k0 ! s) \<noteq> READ (recycle_queue_limits k0 ! s)"
    using a assms(3) k0(1) by (auto simp: same_count_def split: if_splits)
  have s0: "s < n_s (main_graph k0)" using assms(2) same_count_graph [OF k0(1)] by simp
  let ?i = "next_inst k0" and ?d = "fresh_instance (int s) (READ (number_of_instances k0 ! s) + 1)"
  from create_new [OF k0(3) s0 ne, of env t] obtain k2 where c: "instance_create env t (int s) k0 =
      (if \<not> load_ok env then Inr (None, k2)
       else rbind (stage_table_of (main_graph k0) (int s)) (\<lambda>tab. case boot env tab of
         None \<Rightarrow> rbind (instance_destroy t ?i k2) (\<lambda>k. Inr (None, k))
       | Some (hnd, hp) \<Rightarrow> Inr (Some ?i, set_inst ?i
           (?d\<lparr>i_L := \<lparr>stack = [], handler = hnd\<rparr>, i_heap := hp, i_init_time := t\<rparr>) k2)))" by blast
  have cr: "instance_create env t (int s) k0 = Inr (Some j, k1)"
    using a assms(3) ne k0(1) by (simp add: same_count_def split: if_splits)
  from trans [OF c [symmetric] cr] have "\<exists>hnd hp. j = ?i \<and> k1 = set_inst ?i (?d\<lparr>i_L := \<lparr>stack = [], handler = hnd\<rparr>, i_heap := hp, i_init_time := t\<rparr>) k2"
    by (auto simp: rbind_Inr_iff split: if_splits option.splits)
  moreover have "insts k ?i = None"
    using fresh_running(1) [OF assms(1), of "next_inst k"] k0(1) by (auto simp: same_count_def)
  moreover have "?i = next_inst k" using k0(1) by (simp add: same_count_def)
  ultimately show ?thesis using Nil by (auto simp: acquired_def set_inst_def fresh_instance_def)
qed

text \<open>The outcomes of \<open>emmit\<close> for a stage \<open>s\<close>, by the kernel state and pool before the call.\<close>

definition delivered ::
  "sched_env \<Rightarrow> lua_heap \<Rightarrow> lua_value list \<Rightarrow> nat \<Rightarrow> kernel \<Rightarrow> pool \<Rightarrow> lua_ret \<Rightarrow> kernel \<Rightarrow> bool" where
  "delivered e h st s k p r k' \<longleftrightarrow> r = LuaReturns 1 [LBoolean True] \<and>
     (\<exists>j d d'. acquired k p s j d \<and> insts k' j = Some d' \<and> i_stage d' = int s \<and> i_args d' = length st - 1 \<and>
        copy_args (enc_depth (ienv e)) (runtime (ienv e)) h st [2..<2 + (length st - 1)]
          (stack (i_L d) @ [handler (i_L d)], i_heap d) = Inr (Inr (stack (i_L d'), i_heap d')) \<and>
        krep k' (p\<lparr>idle := (idle p)(s := tl (idle p s)), ready := ready p @ [Some j]\<rparr>))"

definition deferred ::
  "sched_env \<Rightarrow> lua_heap \<Rightarrow> lua_value list \<Rightarrow> nat \<Rightarrow> pool \<Rightarrow> lua_ret \<Rightarrow> kernel \<Rightarrow> bool" where
  "deferred e h st s p r k' \<longleftrightarrow> r = LuaReturns 1 [LBoolean True] \<and> idle p s = [] \<and>
     (\<exists>ev. extract_event_from_lua_state (enc_depth (ienv e)) h st 2 (length st - 1) = Inr (Extracted ev) \<and>
        krep k' (p\<lparr>pending := (pending p)(s := pending p s @ [ev])\<rparr>))"

definition queue_full :: "nat \<Rightarrow> pool \<Rightarrow> lua_ret \<Rightarrow> kernel \<Rightarrow> bool" where
  "queue_full s p r k' \<longleftrightarrow> (\<exists>t. r = LuaReturns 2 [LNil, LString t]) \<and> idle p s = [] \<and>
     \<not> has_room (pend_cap p s) (pending p s) \<and> krep k' p"

definition raised :: "nat \<Rightarrow> kernel \<Rightarrow> pool \<Rightarrow> lua_ret \<Rightarrow> kernel \<Rightarrow> bool" where
  "raised s k p r k' \<longleftrightarrow> r = LuaRaises \<and>
     (idle p s = [] \<and> krep k' p \<or> (\<exists>j d. acquired k p s j d \<and>
        krep k' (p\<lparr>idle := (idle p)(s := tl (idle p s))\<rparr>) \<and> running k' (p\<lparr>idle := (idle p)(s := tl (idle p s))\<rparr>) j))"

lemma emmit_no_instance:
  assumes k: "krep k p" and s: "s < n_s (main_graph k)" and e: "emmit_local e h st (int s) con k = Inr c"
    and a: "instance_aquire (ienv e) (now e) (int s) k = Inr (None, k1)"
  shows "\<exists>r k'. c = Returned (r, k') \<and> (deferred e h (lua_remove st 2) s p r k' \<or> queue_full s p r k' \<or> raised s k p r k')"
proof -
  let ?st = "lua_remove st 2"
  let ?x = "extract_event_from_lua_state (enc_depth (ienv e)) h ?st 2 (length ?st - 1)"
  from aquire_result [OF k s a] have g1: "main_graph k1 = main_graph k" and i: "idle p s = []" and k1: "krep k1 p"
    using idle_tl [of p s] by auto
  show ?thesis
  proof (cases "c = Returned (LuaRaises, k1)")
    case True
    with i k1 show ?thesis by (auto simp: raised_def)
  next
    case False
    with e a obtain ev where x: "?x = Inr (Extracted ev)"
      by (cases ?x) (auto simp: emmit_local_def Let_def split: c_fault.splits extracted.splits)
    note e2 = e [unfolded emmit_local_def Let_def a rbind_simps prod.case option.case x sum.case extracted.case]
    let ?p = "p\<lparr>pending := (pending p)(s := pending p s @ [ev])\<rparr>"
    obtain k2 where b: "instance_try_push_pending_event (int s) ev k1 = Inr (has_room (pend_cap p s) (pending p s), k2)"
      and k2: "krep k2 (if has_room (pend_cap p s) (pending p s) then ?p else p)"
      using push_pending_ok [OF k1, of s ev] s g1 by auto
    note e3 = e2 [unfolded b rbind_simps prod.case]
    show ?thesis
    proof (cases "has_room (pend_cap p s) (pending p s)")
      case True
      with e3 obtain k3 where k3: "count_connector_event con (later e - now e) k2 = Inr k3"
        "c = Returned (LuaReturns 1 [LBoolean True], k3)" by (auto elim: rbind_InrE)
      from True k2 count_connector_same(1) [OF _ k3(1)] have "krep k3 ?p" by simp
      with x i k3(2) show ?thesis by (auto simp: deferred_def)
    next
      case False
      with e3 obtain t where "c = Returned (LuaReturns 2 [LNil, LString t], k2)" by (auto elim: rbind_InrE)
      with False k2 i show ?thesis by (auto simp: queue_full_def)
    qed
  qed
qed

lemma emmit_instance:
  assumes k: "krep k p" and s: "s < n_s (main_graph k)" and room: "has_room (ready_cap p) (ready p)"
    and e: "emmit_local e h st (int s) con k = Inr c"
    and a: "instance_aquire (ienv e) (now e) (int s) k = Inr (Some j, k1)"
  shows "\<exists>r k'. c = Returned (r, k') \<and> (delivered e h (lua_remove st 2) s k p r k' \<or> raised s k p r k')"
proof -
  let ?st = "lua_remove st 2" let ?args = "length ?st - 1"
  let ?p = "p\<lparr>idle := (idle p)(s := tl (idle p s))\<rparr>"
  from aquire_result [OF k s a] have k1: "main_graph k1 = main_graph k" "krep k1 ?p" "running k1 ?p j" by auto
  from aquire_acquired [OF k s a] obtain d where d: "insts k1 j = Some d" "acquired k p s j d" by blast
  note e1 = e [unfolded emmit_local_def Let_def a rbind_simps prod.case option.case]
  obtain d0 x where d0: "get_inst k1 j = Inr d0"
    and x: "copy_args (enc_depth (ienv e)) (runtime (ienv e)) h ?st [2..<2 + ?args] (stack (i_L d0) @ [handler (i_L d0)], i_heap d0) = Inr x"
    and rest: "(case x of
          Inl (vs, hp) \<Rightarrow> Inr (Returned (LuaRaises, set_inst j (d0\<lparr>i_L := (i_L d0)\<lparr>stack := vs\<rparr>, i_heap := hp\<rparr>) k1))
        | Inr (vs, hp) \<Rightarrow>
            rbind (push_ready_queue (Some j)
                (set_inst j (d0\<lparr>i_L := (i_L d0)\<lparr>stack := vs\<rparr>, i_heap := hp, i_args := ?args\<rparr>) k1)) (\<lambda>c. case c of
              Waiting k \<Rightarrow> Inr (Waiting (LuaReturns 0 [], k))
            | Returned k \<Rightarrow> rbind (count_connector_event con (later e - now e) k) (\<lambda>k.
                Inr (Returned (LuaReturns 1 [LBoolean True], k))))) = (Inr c :: (lua_ret \<times> kernel) call result)"
    by (rule rbind_InrE [OF e1], erule rbind_InrE) (rule that)
  have dd: "d0 = d" using get_inst_Some [OF d0] d(1) by simp
  show ?thesis
  proof (cases x)
    case (Inl vh)
    let ?d = "d\<lparr>i_L := (i_L d)\<lparr>stack := fst vh\<rparr>, i_heap := snd vh\<rparr>"
    have "raised s k p LuaRaises (set_inst j ?d k1)"
      using set_inst_krep(1,2) [OF k1(2) d(1), of ?d] k1(3) d(2) by (auto simp: raised_def)
    with rest Inl dd show ?thesis by (cases vh) auto
  next
    case (Inr vh)
    let ?d = "d\<lparr>i_L := (i_L d)\<lparr>stack := fst vh\<rparr>, i_heap := snd vh, i_args := ?args\<rparr>"
    note si = set_inst_krep [OF k1(2) d(1), of ?d, simplified]
    from rest Inr dd obtain c2 where c2: "push_ready_queue (Some j) (set_inst j ?d k1) = Inr c2"
      by (cases vh) (auto elim: rbind_InrE)
    from push_ready_ok [OF si(1), of "Some j"] si(2) k1(3) room c2 obtain k3 where k3: "c2 = Returned k3"
      "krep k3 (?p\<lparr>ready := ready p @ [Some j]\<rparr>)" "insts k3 = insts (set_inst j ?d k1)" by auto
    with rest Inr c2 dd obtain k4 where k4: "count_connector_event con (later e - now e) k3 = Inr k4"
      "c = Returned (LuaReturns 1 [LBoolean True], k4)" by (cases vh) (auto elim: rbind_InrE)
    from count_connector_same(1,2) [OF k3(2) k4(1)] k3(3) have
      "krep k4 (?p\<lparr>ready := ready p @ [Some j]\<rparr>)" "insts k4 j = Some ?d" by (simp_all add: set_inst_def)
    moreover have "i_stage ?d = int s" using d(2) by (simp add: acquired_def)
    ultimately have "delivered e h ?st s k p (LuaReturns 1 [LBoolean True]) k4"
      unfolding delivered_def using d(2) x Inr dd by (intro conjI exI [of _ j] exI [of _ d] exI [of _ ?d]) simp_all
    with k4(2) show ?thesis by blast
  qed
qed



section \<open>Witnesses\<close>

definition wit_sched :: sched_env where
  "wit_sched = \<lparr>ienv = wit_env, conv = (\<lambda>_. None), conn = \<lparr>aton_ok = (\<lambda>_. True), sock_answer = 5, connect_answer = 0\<rparr>,
     writes = [], ack = (1, 1), strerr = [], timer_ok = True, file_fd = (\<lambda>_. None), now = 7, later = 9\<rparr>"

lemma wit_emmit:
  "\<exists>k'. emmit_local wit_sched empty_heap [LInteger 0, LInteger (-1), LNil] 0 (-1) wit_init =
     Inr (Returned (LuaReturns 1 [LBoolean True], k')) \<and> insts k' 1 \<noteq> None"
  using wit_init by (simp add: emmit_local_def wit_sched_def wit_init_def wit_kernel_defs get_inst_def lua_remove_def
    raises_in_source_def copy_value_def push_ready_queue_def queue_push_def count_connector_event_def)



end
