(* ===== verification/Leda_Api.thy ===== *)
theory Leda_Api
  imports Leda_Lua
begin

text \<open>
  The environment the kernel sets up in a Lua state: the libraries and the \<open>leda\<close> table of a
  stage (\<open>src/kernel/instance.c\<close>), the module of the controller (kernel.c), the metatables of
  threads and graphs (scheduler.c, graph.c) and of memory arrays (extra/memarray.c). The code is
  a sequence of calls of the Lua interface on the stack, which is modelled here with its tables.
\<close>

section \<open>The stack, the tables\<close>

text \<open>A C function is known by its name; other values are those of \<open>lua_value\<close>.\<close>

datatype lobj = CFun string | Tab addr | Str string | Val lua_value

text \<open>
  The stack has its top first, so that the index \<open>-i\<close> is position \<open>i - 1\<close>. \<open>registry\<close> and
  \<open>globals\<close> are tables; \<open>typed_meta\<close> is the metatable all light userdata share.
\<close>

record lua_api =
  lstack :: "lobj list"
  ltabs :: "addr \<rightharpoonup> (string \<rightharpoonup> lobj)"
  metas :: "addr \<rightharpoonup> lobj"
  light_meta :: "lobj option"
  lnext :: addr
  registry :: addr
  globals :: addr

definition at_top :: "nat \<Rightarrow> lua_api \<Rightarrow> lobj result" where
  "at_top i L = (if i < List.length (lstack L) then Inr (lstack L ! i) else Inl OutOfBounds)"

definition push_obj :: "lobj \<Rightarrow> lua_api \<Rightarrow> lua_api result" where
  "push_obj v L = Inr (L\<lparr>lstack := v # lstack L\<rparr>)"

definition lua_pop :: "nat \<Rightarrow> lua_api \<Rightarrow> lua_api result" where
  "lua_pop n L = (if n \<le> List.length (lstack L) then Inr (L\<lparr>lstack := drop n (lstack L)\<rparr>) else Inl OutOfBounds)"

definition lua_pushvalue :: "nat \<Rightarrow> lua_api \<Rightarrow> lua_api result" where
  "lua_pushvalue i L = rbind (at_top (i - 1) L) (\<lambda>v. push_obj v L)"

definition lua_newtable :: "lua_api \<Rightarrow> lua_api result" where
  "lua_newtable L = Inr (L\<lparr>lstack := Tab (lnext L) # lstack L, ltabs := (ltabs L)(lnext L \<mapsto> Map.empty), lnext := Suc (lnext L)\<rparr>)"

definition table_of :: "lobj \<Rightarrow> lua_api \<Rightarrow> (addr \<times> (string \<rightharpoonup> lobj)) result" where
  "table_of v L = (case v of
     Tab t \<Rightarrow> (case ltabs L t of Some m \<Rightarrow> Inr (t, m) | None \<Rightarrow> Inl UseAfterFree)
   | _ \<Rightarrow> Inl (LuaError ''attempt to index a value that is not a table''))"

definition set_in :: "addr \<Rightarrow> string \<Rightarrow> lua_api \<Rightarrow> lua_api result" where
  "set_in t k L = rbind (table_of (Tab t) L) (\<lambda>(t, m). rbind (at_top 0 L) (\<lambda>v.
     Inr (L\<lparr>lstack := tl (lstack L), ltabs := (ltabs L)(t \<mapsto> m(k \<mapsto> v))\<rparr>)))"

text \<open>\<open>lua_setfield(L,-i,k)\<close>, into the registry, \<open>lua_setglobal\<close>, and reading fields.\<close>

definition lua_setfield :: "nat \<Rightarrow> string \<Rightarrow> lua_api \<Rightarrow> lua_api result" where
  "lua_setfield i k L = rbind (at_top (i - 1) L) (\<lambda>v. rbind (table_of v L) (\<lambda>(t, _). set_in t k L))"

definition lua_setregistry :: "string \<Rightarrow> lua_api \<Rightarrow> lua_api result" where
  "lua_setregistry k L = set_in (registry L) k L"

definition lua_setglobal :: "string \<Rightarrow> lua_api \<Rightarrow> lua_api result" where
  "lua_setglobal k L = set_in (globals L) k L"

definition obj_field :: "(string \<rightharpoonup> lobj) \<Rightarrow> string \<Rightarrow> lobj" where
  "obj_field m k = (case m k of None \<Rightarrow> Val LNil | Some v \<Rightarrow> v)"

definition lua_getfield :: "nat \<Rightarrow> string \<Rightarrow> lua_api \<Rightarrow> lua_api result" where
  "lua_getfield i k L = rbind (at_top (i - 1) L) (\<lambda>v. rbind (table_of v L) (\<lambda>(_, m). push_obj (obj_field m k) L))"

definition lua_getglobal :: "string \<Rightarrow> lua_api \<Rightarrow> lua_api result" where
  "lua_getglobal k L = rbind (table_of (Tab (globals L)) L) (\<lambda>(_, m). push_obj (obj_field m k) L)"

text \<open>\<open>lua_settable(L,-3)\<close> and \<open>lua_rawset(L,-3)\<close>: key and value are on the stack.\<close>

definition lua_settable3 :: "lua_api \<Rightarrow> lua_api result" where
  "lua_settable3 L = (case lstack L of
     v # Str k # t # st \<Rightarrow> rbind (table_of t L) (\<lambda>(t', m). Inr (L\<lparr>lstack := t # st, ltabs := (ltabs L)(t' \<mapsto> m(k \<mapsto> v))\<rparr>))
   | _ \<Rightarrow> Inl OutOfBounds)"

text \<open>\<open>luaL_register(L,NULL,funcs)\<close>: the functions become fields of the table on the top.\<close>

definition luaL_register :: "(string \<times> string) list \<Rightarrow> lua_api \<Rightarrow> lua_api result" where
  "luaL_register fs L = rbind (at_top 0 L) (\<lambda>v. rbind (table_of v L) (\<lambda>(t, m).
     Inr (L\<lparr>ltabs := (ltabs L)(t \<mapsto> foldl (\<lambda>m (k, f). m(k \<mapsto> CFun f)) m fs)\<rparr>)))"

text \<open>\<open>luaL_newmetatable\<close>: it creates a metatable once, and pushes it.\<close>

definition luaL_newmetatable :: "string \<Rightarrow> lua_api \<Rightarrow> (bool \<times> lua_api) result" where
  "luaL_newmetatable k L = rbind (table_of (Tab (registry L)) L) (\<lambda>(_, m). case m k of
     Some v \<Rightarrow> rbind (push_obj v L) (\<lambda>L. Inr (False, L))
   | None \<Rightarrow> rbind (lua_newtable L) (\<lambda>L. rbind (lua_pushvalue 1 L) (\<lambda>L.
       rbind (lua_setregistry k L) (\<lambda>L. Inr (True, L)))))"

definition lua_setmetatable2 :: "lua_api \<Rightarrow> lua_api result" where
  "lua_setmetatable2 L = (case lstack L of
     m # Tab t # st \<Rightarrow> Inr (L\<lparr>lstack := Tab t # st, metas := (metas L)(t \<mapsto> m)\<rparr>)
   | m # Val (LLightUserdata p) # st \<Rightarrow> Inr (L\<lparr>lstack := Val (LLightUserdata p) # st, light_meta := Some m\<rparr>)
   | _ \<Rightarrow> Inl OutOfBounds)"

abbreviation pushcfunction :: "string \<Rightarrow> lua_api \<Rightarrow> lua_api result" where
  "pushcfunction f \<equiv> push_obj (CFun f)"

abbreviation pushliteral :: "string \<Rightarrow> lua_api \<Rightarrow> lua_api result" where
  "pushliteral s \<equiv> push_obj (Str s)"

text \<open>A sequence of statements.\<close>

fun run :: "(lua_api \<Rightarrow> lua_api result) list \<Rightarrow> lua_api \<Rightarrow> lua_api result" where
  "run [] L = Inr L"
| "run (c # cs) L = rbind (c L) (run cs)"

section \<open>The API of a stage (instance.c)\<close>

definition register_io_api :: "lua_api \<Rightarrow> lua_api result" where
  "register_io_api = run [lua_newtable,
     pushcfunction ''leda_wrap_io'', lua_setfield 2 ''wrap'',
     pushcfunction ''leda_unwrap_io'', lua_setfield 2 ''unwrap'',
     lua_setfield 2 ''io'']"

definition register_marshal_api :: "lua_api \<Rightarrow> lua_api result" where
  "register_marshal_api = run [
     pushcfunction ''mar_encode'', lua_setfield 2 ''encode'',
     pushcfunction ''mar_decode'', lua_setfield 2 ''decode'',
     pushcfunction ''mar_clone'', lua_setfield 2 ''clone'']"

definition register_aio_api :: "lua_api \<Rightarrow> lua_api result" where
  "register_aio_api = run [lua_newtable,
     pushcfunction ''wait_io'', lua_setfield 2 ''wait_io'',
     pushcfunction ''do_file_aio'', lua_setfield 2 ''do_file_aio'',
     pushcfunction ''socket_flush'', lua_setfield 2 ''flush'',
     lua_setfield 2 ''aio'']"

definition register_debug_api :: "lua_api \<Rightarrow> lua_api result" where
  "register_debug_api = run [
     pushcfunction ''leda_sleep'', lua_setfield 2 ''sleep'',
     pushcfunction ''leda_destroy'', lua_setfield 2 ''destroy'',
     pushcfunction ''leda_setmetatable'', lua_setfield 2 ''setmetatable'',
     pushcfunction ''leda_getmetatable'', lua_setfield 2 ''getmetatable'',
     pushcfunction ''leda_gettime'', lua_setfield 2 ''gettime'',
     pushcfunction ''instance_loadlibs'', lua_setfield 2 ''loadlibs'',
     pushcfunction ''leda_raise_yield_event'', lua_setfield 2 ''quit'',
     lua_newtable,
     pushcfunction ''instance_wait_for_event'', lua_setfield 2 ''wait_event'',
     pushcfunction ''instance_peek_for_event'', lua_setfield 2 ''get_event'',
     lua_setfield 2 ''debug'']"

definition register_connector_api :: "lua_api \<Rightarrow> lua_api result" where
  "register_connector_api = run [
     pushcfunction ''emmit'', lua_setglobal ''__emmit'',
     pushcfunction ''cohort'', lua_setglobal ''__cohort'',
     lua_newtable, lua_setfield 2 ''output'']"

text \<open>
  The statements of \<open>instance_create\<close> about the \<open>leda\<close> table. The table of the stage, built
  between the first two of them, is the argument.
\<close>

definition stage_api :: "lobj \<Rightarrow> lobj \<Rightarrow> lobj \<Rightarrow> string \<Rightarrow> lua_api \<Rightarrow> lua_api result" where
  "stage_api stage_tab ended nice version = run [lua_newtable,
     push_obj stage_tab, pushcfunction ''leda_get_self_process'', lua_setfield 2 ''process'', lua_setfield 2 ''stage'',
     register_connector_api,
     push_obj ended, lua_setfield 2 ''__end_code'',
     push_obj nice, lua_setfield 2 ''__yield_code'',
     pushliteral version, lua_setfield 2 ''_VERSION'',
     register_debug_api, register_io_api, register_aio_api, register_marshal_api,
     lua_pushvalue 1, lua_setregistry ''leda'', lua_setglobal ''leda'']"

section \<open>The libraries of a stage (instance.c)\<close>

text \<open>
  The functions that open the libraries of Lua are an argument: called without arguments they
  return values and a state, or an error message and a state. \<open>lua_pcall(L,0,n,0)\<close> adjusts the
  results to \<open>n\<close> values, and leaves the message when the call fails; no caller asks.
\<close>

type_synonym openers = "string \<Rightarrow> lua_api \<Rightarrow> lobj \<times> lua_api + lobj list \<times> lua_api"

definition adjust :: "nat \<Rightarrow> lobj list \<Rightarrow> lobj list" where
  "adjust n vs = take n (vs @ replicate n (Val LNil))"

definition lua_pcall0 :: "openers \<Rightarrow> nat \<Rightarrow> lua_api \<Rightarrow> lua_api result" where
  "lua_pcall0 call n L = (case lstack L of
     CFun f # st \<Rightarrow> (case call f (L\<lparr>lstack := []\<rparr>) of
       Inl (msg, L') \<Rightarrow> Inr (L'\<lparr>lstack := msg # st\<rparr>)
     | Inr (vs, L') \<Rightarrow> Inr (L'\<lparr>lstack := rev (adjust n vs) @ st\<rparr>))
   | _ \<Rightarrow> Inl OutOfBounds)"

definition registerlib :: "string \<Rightarrow> string \<Rightarrow> lua_api \<Rightarrow> lua_api result" where
  "registerlib name f = run [lua_getglobal ''package'', lua_getfield 1 ''preload'',
     pushcfunction f, lua_setfield 2 name, lua_pop 2]"

definition ledaopen :: "openers \<Rightarrow> string \<Rightarrow> string \<Rightarrow> lua_api \<Rightarrow> lua_api result" where
  "ledaopen call f name = run [pushcfunction f, lua_pcall0 call 1, lua_pushvalue 1, lua_setglobal name]"

definition ledaopen_os :: "openers \<Rightarrow> lua_api \<Rightarrow> lua_api result" where
  "ledaopen_os call = ledaopen call ''luaopen_os'' ''os''"

definition ledaopen_table :: "openers \<Rightarrow> lua_api \<Rightarrow> lua_api result" where
  "ledaopen_table call = ledaopen call ''luaopen_table'' ''table''"

definition ledaopen_string :: "openers \<Rightarrow> lua_api \<Rightarrow> lua_api result" where
  "ledaopen_string call = ledaopen call ''luaopen_string'' ''string''"

definition ledaopen_math :: "openers \<Rightarrow> lua_api \<Rightarrow> lua_api result" where
  "ledaopen_math call = ledaopen call ''luaopen_math'' ''math''"

definition ledaopen_debug :: "openers \<Rightarrow> lua_api \<Rightarrow> lua_api result" where
  "ledaopen_debug call = ledaopen call ''luaopen_debug'' ''debug''"

text \<open>The module of the coroutines is a library of its own after Lua 5.1.\<close>

definition openlibs :: "openers \<Rightarrow> bool \<Rightarrow> lua_api \<Rightarrow> lua_api result" where
  "openlibs call after51 = run (
     [pushcfunction ''luaopen_base'', lua_pcall0 call 0,
      pushcfunction ''luaopen_package'', lua_pcall0 call 1, lua_setglobal ''package''] @
     (if after51 then [pushcfunction ''luaopen_coroutine'', lua_pcall0 call 1, lua_setglobal ''coroutine''] else []) @
     [registerlib ''io'' ''luaopen_leda_io'', registerlib ''iolua'' ''luaopen_io'', registerlib ''os'' ''ledaopen_os'',
      registerlib ''table'' ''ledaopen_table'', registerlib ''string'' ''ledaopen_string'', registerlib ''math'' ''ledaopen_math'',
      registerlib ''debug'' ''ledaopen_debug'', registerlib ''lmemarray'' ''luaopen_leda_lmemarray''])"

text \<open>\<open>luaL_newstate\<close> is the last argument; the collector, stopped meanwhile, is not part of the state.\<close>

definition new_lua_state :: "openers \<Rightarrow> bool \<Rightarrow> bool \<Rightarrow> lua_api \<Rightarrow> lua_api result" where
  "new_lua_state call after51 libs L =
     (if libs then openlibs call after51 L
      else run [pushcfunction ''luaopen_base'', lua_pcall0 call 0] L)"

section \<open>Modules and metatables\<close>

definition THREAD_METATABLE :: string where "THREAD_METATABLE = ''leda thread''"
definition GRAPH_METATABLE :: string where "GRAPH_METATABLE = ''leda read-only graph''"
definition MYTYPE :: string where "MYTYPE = ''leda_memarray*''"

definition thread_createmetatable :: "lua_api \<Rightarrow> lua_api result" where
  "thread_createmetatable L = rbind (luaL_newmetatable THREAD_METATABLE L) (\<lambda>(created, L).
     if \<not> created then lua_pop 1 L
     else run [pushliteral ''status'', pushcfunction ''thread_status'', lua_settable3,
       pushliteral ''kill'', pushcfunction ''thread_kill'', lua_settable3,
       pushliteral ''join'', pushcfunction ''thread_join'', lua_settable3,
       pushliteral ''set_affinity'', pushcfunction ''leda_thread_set_affinity'', lua_settable3,
       pushliteral ''__index'', lua_pushvalue 2, lua_settable3,
       pushliteral ''__tostring'', pushcfunction ''thread_tostring'', lua_settable3,
       pushliteral ''__metatable'', pushliteral ''You're not allowed to get the metatable of a Thread'', lua_settable3,
       lua_pop 1] L)"

definition graph_createmetatable :: "lua_api \<Rightarrow> lua_api result" where
  "graph_createmetatable L = rbind (luaL_newmetatable GRAPH_METATABLE L) (\<lambda>(created, L).
     if \<not> created then lua_pop 1 L
     else run [pushliteral ''dump'', pushcfunction ''graph_dump'', lua_settable3,
       pushliteral ''__index'', lua_pushvalue 2, lua_settable3,
       pushliteral ''__gc'', pushcfunction ''graph_destroy'', lua_settable3,
       pushliteral ''__metatable'', pushliteral ''You're not allowed to get the metatable of a Graph'', lua_settable3,
       lua_pop 1] L)"

definition leda_funcs :: "(string \<times> string) list" where
  "leda_funcs = [(''run'', ''leda_run''), (''to_pointer'', ''leda_to_pointer''), (''encode'', ''mar_encode''),
     (''decode'', ''mar_decode''), (''clone'', ''mar_clone''), (''gettime'', ''leda_gettime''), (''send'', ''leda_send''),
     (''build_graph'', ''graph_build''), (''getmetatable'', ''leda_getmetatable''), (''setmetatable'', ''leda_setmetatable''),
     (''cpu'', ''leda_number_of_cpus''), (''add_timer'', ''add_timer''), (''thread_new'', ''thread_new''),
     (''thread_rawkill'', ''thread_rawkill''), (''thread_kill'', ''thread_kill''), (''stats'', ''leda_get_stats''),
     (''reset_stats'', ''stats_reset''), (''stats_latency_reset'', ''stats_latency_reset''), (''maxpar'', ''instance_set_maxpar''),
     (''ready_queue_size'', ''leda_ready_queue_size''), (''sleep'', ''leda_sleep_''), (''set_capacity'', ''leda_set_capacity''),
     (''ready_queue_capacity'', ''leda_ready_queue_capacity''), (''thread_pool_size'', ''leda_get_thread_pool_size''),
     (''ready_queue_isempty'', ''leda_ready_queue_isempty''), (''hostname'', ''leda_default_hostname''),
     (''smaps'', ''leda_get_smaps''), (''memory'', ''leda_get_system_memory''), (''trim'', ''leda_trim_memory'')]"

definition set_leda_info :: "string \<Rightarrow> lua_api \<Rightarrow> lua_api result" where
  "set_leda_info version = run [pushliteral ''_VERSION'', pushliteral version, lua_settable3]"

definition luaopen_leda_kernel :: "string \<Rightarrow> lua_api \<Rightarrow> lua_api result" where
  "luaopen_leda_kernel version = run [lua_newtable, luaL_register leda_funcs, set_leda_info version,
     thread_createmetatable, graph_createmetatable]"

definition reg_memarray :: "(string \<times> string) list" where
  "reg_memarray = [(''__call'', ''L__call''), (''sizeof'', ''Lsizeof''), (''memcpy'', ''Lmemcpy''), (''from_ptr'', ''Lfrom_ptr'')]"

definition reg_memarray_ptr :: "(string \<times> string) list" where
  "reg_memarray_ptr = [(''__index'', ''L__index''), (''__newindex'', ''L__newindex''), (''__tostring'', ''L__tostring''),
     (''__gc'', ''L__gc''), (''__len'', ''Llength''), (''size'', ''Lsize''), (''length'', ''Llength''), (''ptr'', ''Lptr''),
     (''to_ptr'', ''Lto_ptr''), (''to_str'', ''Lto_str''), (''from_str'', ''Lfrom_str''), (''to_netstr'', ''Lto_netstr''),
     (''type'', ''Ltype''), (''from_netstr'', ''Lfrom_netstr''), (''realloc'', ''Lrealloc'')]"

definition luaopen_leda_lmemarray :: "lua_api \<Rightarrow> lua_api result" where
  "luaopen_leda_lmemarray L = rbind (luaL_newmetatable MYTYPE L) (\<lambda>(_, L).
     run [luaL_register reg_memarray_ptr, lua_newtable, lua_pushvalue 1, luaL_register reg_memarray, lua_setmetatable2] L)"

text \<open>
  What \<open>thread_new\<close> returns: the address of a descriptor as a light userdata, which is given the
  metatable of threads; and the test \<open>luaL_checkudata\<close> of an argument against a metatable.
\<close>

definition luaL_getmetatable :: "string \<Rightarrow> lua_api \<Rightarrow> lua_api result" where
  "luaL_getmetatable k L = rbind (table_of (Tab (registry L)) L) (\<lambda>(_, m). push_obj (obj_field m k) L)"

definition thread_value :: "c_long \<Rightarrow> lua_api \<Rightarrow> lua_api result" where
  "thread_value t = run [push_obj (Val (LLightUserdata t)), luaL_getmetatable THREAD_METATABLE, lua_setmetatable2]"

definition luaL_checkudata :: "lobj \<Rightarrow> string \<Rightarrow> lua_api \<Rightarrow> c_long result" where
  "luaL_checkudata v k L = rbind (table_of (Tab (registry L)) L) (\<lambda>(_, m). case v of
     Val (LLightUserdata p) \<Rightarrow>
       if light_meta L \<noteq> None \<and> light_meta L = m k then Inr p else Inl (LuaError ''bad argument'')
   | _ \<Rightarrow> Inl (LuaError ''bad argument''))"

section \<open>What the statements do\<close>

lemma push_run: "run (push_obj v # cs) L = run cs (L\<lparr>lstack := v # lstack L\<rparr>)"
  by (simp add: push_obj_def)

lemma newtable_run:
  "run (lua_newtable # cs) L = run cs (L\<lparr>lstack := Tab (lnext L) # lstack L, ltabs := (ltabs L)(lnext L \<mapsto> Map.empty), lnext := Suc (lnext L)\<rparr>)"
  by (simp add: lua_newtable_def)

lemma setfield_run:
  "lstack L = v # Tab t # st \<Longrightarrow> ltabs L t = Some m \<Longrightarrow>
     run (lua_setfield 2 k # cs) L = run cs (L\<lparr>lstack := Tab t # st, ltabs := (ltabs L)(t \<mapsto> m(k \<mapsto> v))\<rparr>)"
  by (simp add: lua_setfield_def at_top_def table_of_def set_in_def)

lemma setglobal_run:
  "lstack L = v # st \<Longrightarrow> ltabs L (globals L) = Some m \<Longrightarrow>
     run (lua_setglobal k # cs) L = run cs (L\<lparr>lstack := st, ltabs := (ltabs L)(globals L \<mapsto> m(k \<mapsto> v))\<rparr>)"
  by (simp add: lua_setglobal_def at_top_def table_of_def set_in_def)

lemma setregistry_run:
  "lstack L = v # st \<Longrightarrow> ltabs L (registry L) = Some m \<Longrightarrow>
     run (lua_setregistry k # cs) L = run cs (L\<lparr>lstack := st, ltabs := (ltabs L)(registry L \<mapsto> m(k \<mapsto> v))\<rparr>)"
  by (simp add: lua_setregistry_def at_top_def table_of_def set_in_def)

lemma pushvalue_run: "lstack L = v # st \<Longrightarrow> run (lua_pushvalue 1 # cs) L = run cs (L\<lparr>lstack := v # v # st\<rparr>)"
  by (simp add: lua_pushvalue_def at_top_def push_obj_def)

lemma run_append: "run (cs @ ds) L = rbind (run cs L) (run ds)"
  by (induction cs arbitrary: L) (auto simp: rbind_def split: sum.splits)

lemma run_Nil_fun: "run [] = Inr"
  by (rule ext) simp

lemma run_one: "run [c] = c"
  by (rule ext) (simp add: run_Nil_fun)

lemma run_run: "run (run cs # ds) L = run (cs @ ds) L"
  by (simp add: run_append)

lemma settable_run:
  "lstack L = v # Str k # Tab t # st \<Longrightarrow> ltabs L t = Some m \<Longrightarrow>
     run (lua_settable3 # cs) L = run cs (L\<lparr>lstack := Tab t # st, ltabs := (ltabs L)(t \<mapsto> m(k \<mapsto> v))\<rparr>)"
  by (simp add: lua_settable3_def table_of_def)

lemma pop_run: "lstack L = v # st \<Longrightarrow> run (lua_pop 1 # cs) L = run cs (L\<lparr>lstack := st\<rparr>)"
  by (simp add: lua_pop_def)

lemmas run_steps = push_run newtable_run setfield_run setglobal_run setregistry_run settable_run
  pushvalue_run [unfolded One_nat_def] pop_run [unfolded One_nat_def]

declare run.simps(2) [simp del]

text \<open>A state whose tables are below \<open>lnext\<close>, the registry and the globals among them.\<close>

definition api_ok :: "lua_api \<Rightarrow> bool" where
  "api_ok L \<longleftrightarrow> registry L \<noteq> globals L \<and> {registry L, globals L} \<subseteq> dom (ltabs L) \<and> dom (ltabs L) \<subseteq> {..< lnext L}"

text \<open>Addresses above one.\<close>

lemma fresh_neq:
  fixes x n :: nat
  assumes "x < n"
  shows "x \<noteq> n" and "x \<noteq> Suc n" and "x \<noteq> Suc (Suc n)" and "x \<noteq> Suc (Suc (Suc n))" and "x \<noteq> Suc (Suc (Suc (Suc n)))"
  using assms by simp_all

text \<open>
  C28. The environment of a stage. After the statements of \<open>instance_create\<close> the stack is as
  before, the global and the registry entry \<open>leda\<close> are the same new table, whose fields are the
  functions of the kernel; the connector functions are globals; and no other table has changed.
\<close>

theorem stage_environment:
  assumes "api_ok L" and "ltabs L s = Some stage" and "ltabs L (globals L) = Some g" and "ltabs L (registry L) = Some r"
    and "s \<notin> {registry L, globals L}"
  shows "\<exists>L'. stage_api (Tab s) ended nice version L = Inr L' \<and> lstack L' = lstack L \<and>
     ltabs L' = (ltabs L)(
       s \<mapsto> stage(''process'' \<mapsto> CFun ''leda_get_self_process''),
       globals L \<mapsto> g(''__emmit'' \<mapsto> CFun ''emmit'', ''__cohort'' \<mapsto> CFun ''cohort'', ''leda'' \<mapsto> Tab (lnext L)),
       registry L \<mapsto> r(''leda'' \<mapsto> Tab (lnext L)),
       lnext L \<mapsto> [''stage'' \<mapsto> Tab s, ''output'' \<mapsto> Tab (lnext L + 1), ''__end_code'' \<mapsto> ended, ''__yield_code'' \<mapsto> nice,
         ''_VERSION'' \<mapsto> Str version, ''sleep'' \<mapsto> CFun ''leda_sleep'', ''destroy'' \<mapsto> CFun ''leda_destroy'',
         ''setmetatable'' \<mapsto> CFun ''leda_setmetatable'', ''getmetatable'' \<mapsto> CFun ''leda_getmetatable'',
         ''gettime'' \<mapsto> CFun ''leda_gettime'', ''loadlibs'' \<mapsto> CFun ''instance_loadlibs'', ''quit'' \<mapsto> CFun ''leda_raise_yield_event'',
         ''debug'' \<mapsto> Tab (lnext L + 2), ''io'' \<mapsto> Tab (lnext L + 3), ''aio'' \<mapsto> Tab (lnext L + 4),
         ''encode'' \<mapsto> CFun ''mar_encode'', ''decode'' \<mapsto> CFun ''mar_decode'', ''clone'' \<mapsto> CFun ''mar_clone''],
       lnext L + 1 \<mapsto> Map.empty,
       lnext L + 2 \<mapsto> [''wait_event'' \<mapsto> CFun ''instance_wait_for_event'', ''get_event'' \<mapsto> CFun ''instance_peek_for_event''],
       lnext L + 3 \<mapsto> [''wrap'' \<mapsto> CFun ''leda_wrap_io'', ''unwrap'' \<mapsto> CFun ''leda_unwrap_io''],
       lnext L + 4 \<mapsto> [''wait_io'' \<mapsto> CFun ''wait_io'', ''do_file_aio'' \<mapsto> CFun ''do_file_aio'', ''flush'' \<mapsto> CFun ''socket_flush''])"
proof -
  have lt: "s < lnext L" "globals L < lnext L" "registry L < lnext L" and ne: "registry L \<noteq> globals L" "s \<noteq> registry L" "s \<noteq> globals L"
    using assms by (auto simp: api_ok_def)
  have n34: "n + 3 = Suc (Suc (Suc n))" "n + 4 = Suc (Suc (Suc (Suc n)))" for n :: nat by simp_all
  note fresh = fresh_neq [OF lt(1)] fresh_neq [OF lt(2)] fresh_neq [OF lt(3)]
  show ?thesis
    unfolding stage_api_def register_io_api_def register_aio_api_def register_debug_api_def register_marshal_api_def register_connector_api_def

    apply (simp add: run_steps run_run assms(2-4) fresh fresh [symmetric] ne ne [symmetric] n34)
    apply (rule ext)
    apply (simp add: fun_upd_apply fresh fresh [symmetric] ne ne [symmetric])
    done
qed

text \<open>The libraries are preloaded: each becomes a function of \<open>package.preload\<close>.\<close>

lemma getglobal_run:
  "ltabs L (globals L) = Some g \<Longrightarrow> run (lua_getglobal k # cs) L = run cs (L\<lparr>lstack := obj_field g k # lstack L\<rparr>)"
  by (simp add: lua_getglobal_def table_of_def push_obj_def run.simps)

lemma getfield_run:
  "lstack L = Tab t # st \<Longrightarrow> ltabs L t = Some m \<Longrightarrow>
     run (lua_getfield (Suc 0) k # cs) L = run cs (L\<lparr>lstack := obj_field m k # Tab t # st\<rparr>)"
  by (simp add: lua_getfield_def at_top_def table_of_def push_obj_def run.simps)

lemma pop2_run: "lstack L = v # w # st \<Longrightarrow> run (lua_pop 2 # cs) L = run cs (L\<lparr>lstack := st\<rparr>)"
  by (simp add: lua_pop_def run.simps)

lemma registerlib_run:
  assumes "ltabs L (globals L) = Some g" and "g ''package'' = Some (Tab p)" and "ltabs L p = Some pk"
    and "pk ''preload'' = Some (Tab q)" and "ltabs L q = Some pre"
  shows "run (registerlib name f # cs) L = run cs (L\<lparr>ltabs := (ltabs L)(q \<mapsto> pre(name \<mapsto> CFun f))\<rparr>)"
  using assms by (simp add: registerlib_def run_run run_steps getglobal_run getfield_run pop2_run obj_field_def)

lemma openlibs_preload:
  assumes base: "call ''luaopen_base'' (L\<lparr>lstack := []\<rparr>) = Inr (vs, L1)"
    and pack: "call ''luaopen_package'' (L1\<lparr>lstack := []\<rparr>) = Inr ([Tab p], L2)"
    and "ltabs L2 (globals L2) = Some g" and "ltabs L2 p = Some pk" and "pk ''preload'' = Some (Tab q)" and "ltabs L2 q = Some pre"
    and "p \<noteq> globals L2" and "q \<noteq> globals L2" and "p \<noteq> q"
  shows "new_lua_state call False True L = Inr (L2\<lparr>lstack := lstack L, ltabs := (ltabs L2)(globals L2 \<mapsto> g(''package'' \<mapsto> Tab p),
     q \<mapsto> pre(''io'' \<mapsto> CFun ''luaopen_leda_io'', ''iolua'' \<mapsto> CFun ''luaopen_io'', ''os'' \<mapsto> CFun ''ledaopen_os'',
       ''table'' \<mapsto> CFun ''ledaopen_table'', ''string'' \<mapsto> CFun ''ledaopen_string'', ''math'' \<mapsto> CFun ''ledaopen_math'',
       ''debug'' \<mapsto> CFun ''ledaopen_debug'', ''lmemarray'' \<mapsto> CFun ''luaopen_leda_lmemarray''))\<rparr>)"
proof -
  have b: "lua_pcall0 call 0 (L\<lparr>lstack := CFun ''luaopen_base'' # lstack L\<rparr>) = Inr (L1\<lparr>lstack := lstack L\<rparr>)"
    using base by (simp add: lua_pcall0_def adjust_def)
  have p: "lua_pcall0 call (Suc 0) (L1\<lparr>lstack := CFun ''luaopen_package'' # lstack L\<rparr>) = Inr (L2\<lparr>lstack := Tab p # lstack L\<rparr>)"
    using pack by (simp add: lua_pcall0_def adjust_def)
  show ?thesis
    unfolding new_lua_state_def openlibs_def
    apply (simp add: run_steps run.simps(2) [of "lua_pcall0 call 0"] run.simps(2) [of "lua_pcall0 call (Suc 0)"] b p assms(3-6))
    apply (simp add: registerlib_run [where g = "g(''package'' \<mapsto> Tab p)" and p = p and pk = pk and q = q] assms assms(7-9) [symmetric])
    done
qed

section \<open>The module of the controller\<close>

lemma pushvalue2_run: "lstack L = v # w # st \<Longrightarrow> run (lua_pushvalue 2 # cs) L = run cs (L\<lparr>lstack := w # v # w # st\<rparr>)"
  by (simp add: lua_pushvalue_def at_top_def push_obj_def run.simps)

lemma register_run:
  "lstack L = Tab t # st \<Longrightarrow> ltabs L t = Some m \<Longrightarrow> run (luaL_register fs # cs) L =
     run cs (L\<lparr>ltabs := (ltabs L)(t \<mapsto> foldl (\<lambda>m (k, f). m(k \<mapsto> CFun f)) m fs)\<rparr>)"
  by (simp add: luaL_register_def at_top_def table_of_def run.simps)

lemma newmetatable_new:
  assumes "ltabs L (registry L) = Some r" and "r k = None" and "registry L < lnext L"
  shows "luaL_newmetatable k L = Inr (True, L\<lparr>lstack := Tab (lnext L) # lstack L,
     ltabs := (ltabs L)(lnext L \<mapsto> Map.empty, registry L \<mapsto> r(k \<mapsto> Tab (lnext L))), lnext := Suc (lnext L)\<rparr>)"
  using assms by (simp add: luaL_newmetatable_def table_of_def lua_newtable_def lua_pushvalue_def at_top_def push_obj_def
      lua_setregistry_def set_in_def)

lemma newmetatable_old:
  assumes "ltabs L (registry L) = Some r" and "r k = Some v"
  shows "luaL_newmetatable k L = Inr (False, L\<lparr>lstack := v # lstack L\<rparr>)"
  using assms by (simp add: luaL_newmetatable_def table_of_def push_obj_def)

definition thread_methods :: "addr \<Rightarrow> string \<rightharpoonup> lobj" where
  "thread_methods t = [''status'' \<mapsto> CFun ''thread_status'', ''kill'' \<mapsto> CFun ''thread_kill'', ''join'' \<mapsto> CFun ''thread_join'',
     ''set_affinity'' \<mapsto> CFun ''leda_thread_set_affinity'', ''__index'' \<mapsto> Tab t, ''__tostring'' \<mapsto> CFun ''thread_tostring'',
     ''__metatable'' \<mapsto> Str ''You're not allowed to get the metatable of a Thread'']"

definition graph_methods :: "addr \<Rightarrow> string \<rightharpoonup> lobj" where
  "graph_methods t = [''dump'' \<mapsto> CFun ''graph_dump'', ''__index'' \<mapsto> Tab t, ''__gc'' \<mapsto> CFun ''graph_destroy'',
     ''__metatable'' \<mapsto> Str ''You're not allowed to get the metatable of a Graph'']"

lemma thread_metatable_created:
  assumes "ltabs L (registry L) = Some r" and "r THREAD_METATABLE = None" and "registry L < lnext L"
  shows "thread_createmetatable L = Inr (L\<lparr>ltabs := (ltabs L)(lnext L \<mapsto> thread_methods (lnext L),
     registry L \<mapsto> r(THREAD_METATABLE \<mapsto> Tab (lnext L))), lnext := Suc (lnext L)\<rparr>)"
  unfolding thread_createmetatable_def newmetatable_new [OF assms]
  using assms(3) by (simp add: run_steps pushvalue2_run thread_methods_def fun_upd_twist)

lemma graph_metatable_created:
  assumes "ltabs L (registry L) = Some r" and "r GRAPH_METATABLE = None" and "registry L < lnext L"
  shows "graph_createmetatable L = Inr (L\<lparr>ltabs := (ltabs L)(lnext L \<mapsto> graph_methods (lnext L),
     registry L \<mapsto> r(GRAPH_METATABLE \<mapsto> Tab (lnext L))), lnext := Suc (lnext L)\<rparr>)"
  unfolding graph_createmetatable_def newmetatable_new [OF assms]
  using assms(3) by (simp add: run_steps pushvalue2_run graph_methods_def fun_upd_twist)

lemma metatables_once:
  assumes "ltabs L (registry L) = Some r"
  shows "r THREAD_METATABLE \<noteq> None \<Longrightarrow> thread_createmetatable L = Inr L"
    and "r GRAPH_METATABLE \<noteq> None \<Longrightarrow> graph_createmetatable L = Inr L"
  using newmetatable_old [OF assms] by (auto simp: thread_createmetatable_def graph_createmetatable_def lua_pop_def)

definition funs :: "(string \<times> string) list \<Rightarrow> (string \<times> lobj) list" where
  "funs fs = map (\<lambda>(k, f). (k, CFun f)) fs"

lemma register_map:
  "distinct (map fst fs) \<Longrightarrow> foldl (\<lambda>m (k, f). m(k \<mapsto> CFun f)) m fs = m ++ map_of (funs fs)"
proof (induction fs arbitrary: m)
  case (Cons a fs)
  obtain k f where a: "a = (k, f)" by fastforce
  have "map_of (funs fs) k = None" using Cons.prems by (force simp: a funs_def map_of_eq_None_iff)
  then show ?case using Cons by (auto simp: a funs_def map_add_def fun_eq_iff split: option.splits)
qed (simp add: funs_def)

lemma distinct_leda_funcs: "distinct (map fst leda_funcs)"
  by (simp add: leda_funcs_def)

text \<open>
  Opening the module of the controller leaves one new table on the stack, with the functions
  of the kernel under their names and the version; the metatables of threads and graphs are
  created and known to the registry; and opening it again creates neither of them a second time.
\<close>

theorem kernel_module_opened:
  assumes "api_ok L" and "ltabs L (registry L) = Some r" and "r THREAD_METATABLE = None" and "r GRAPH_METATABLE = None"
  shows "\<exists>L' L''. luaopen_leda_kernel version L = Inr L' \<and> lstack L' = Tab (lnext L) # lstack L \<and> registry L' = registry L \<and>
     ltabs L' = (ltabs L)(
       lnext L \<mapsto> (map_of (funs leda_funcs))(''_VERSION'' \<mapsto> Str version),
       lnext L + 1 \<mapsto> thread_methods (lnext L + 1), lnext L + 2 \<mapsto> graph_methods (lnext L + 2),
       registry L \<mapsto> r(THREAD_METATABLE \<mapsto> Tab (lnext L + 1), GRAPH_METATABLE \<mapsto> Tab (lnext L + 2))) \<and>
     luaopen_leda_kernel version L' = Inr L'' \<and> lstack L'' = Tab (lnext L + 3) # lstack L' \<and>
     ltabs L'' = (ltabs L')(lnext L + 3 \<mapsto> (map_of (funs leda_funcs))(''_VERSION'' \<mapsto> Str version))"
proof -
  let ?m = "(map_of (funs leda_funcs))(''_VERSION'' \<mapsto> Str version)"
  define n where "n = lnext L"
  have lt: "registry L < n" using assms(1) by (auto simp: api_ok_def n_def)
  note ne = fresh_neq [OF lt]
  have start: "luaopen_leda_kernel version K = rbind (thread_createmetatable (K\<lparr>lnext := Suc (lnext K),
      lstack := Tab (lnext K) # lstack K, ltabs := (ltabs K)(lnext K \<mapsto> ?m)\<rparr>)) graph_createmetatable" for K :: lua_api
    unfolding luaopen_leda_kernel_def set_leda_info_def
    by (simp add: run_steps run_run register_run register_map [OF distinct_leda_funcs] run.simps(2) [of thread_createmetatable] run_one)
  define L1 where "L1 = L\<lparr>lnext := Suc n, lstack := Tab n # lstack L, ltabs := (ltabs L)(n \<mapsto> ?m)\<rparr>"
  have L1: "ltabs L1 (registry L1) = Some r" "registry L1 < lnext L1" using assms(2) ne lt by (simp_all add: L1_def)
  define L2 where "L2 = L1\<lparr>ltabs := (ltabs L1)(Suc n \<mapsto> thread_methods (Suc n), registry L \<mapsto> r(THREAD_METATABLE \<mapsto> Tab (Suc n))),
     lnext := Suc (Suc n)\<rparr>"
  have t: "thread_createmetatable L1 = Inr L2"
    using thread_metatable_created [OF L1(1) assms(3) L1(2)] by (simp add: L2_def L1_def)
  have L2: "ltabs L2 (registry L2) = Some (r(THREAD_METATABLE \<mapsto> Tab (Suc n)))" "registry L2 < lnext L2"
    using ne lt by (simp_all add: L1_def L2_def)
  define L3 where "L3 = L2\<lparr>ltabs := (ltabs L2)(Suc (Suc n) \<mapsto> graph_methods (Suc (Suc n)),
     registry L \<mapsto> r(THREAD_METATABLE \<mapsto> Tab (Suc n), GRAPH_METATABLE \<mapsto> Tab (Suc (Suc n)))), lnext := Suc (Suc (Suc n))\<rparr>"
  have g: "graph_createmetatable L2 = Inr L3"
    using graph_metatable_created [OF L2(1) _ L2(2)] assms(4)
    by (simp add: L3_def L2_def L1_def THREAD_METATABLE_def GRAPH_METATABLE_def)
  have one: "luaopen_leda_kernel version L = Inr L3" using start [of L] t g by (simp add: L1_def n_def)
  define L4 where "L4 = L3\<lparr>lnext := Suc (lnext L3), lstack := Tab (lnext L3) # lstack L3, ltabs := (ltabs L3)(lnext L3 \<mapsto> ?m)\<rparr>"
  have reg: "ltabs L4 (registry L4) = Some (r(THREAD_METATABLE \<mapsto> Tab (Suc n), GRAPH_METATABLE \<mapsto> Tab (Suc (Suc n))))"
    using ne by (simp add: L4_def L3_def L2_def L1_def)
  have two: "luaopen_leda_kernel version L3 = Inr L4"
    unfolding start [of L3] using metatables_once [OF reg] unfolding L4_def [symmetric] by simp
  have "ltabs L3 = (ltabs L)(n \<mapsto> ?m, n + 1 \<mapsto> thread_methods (n + 1), n + 2 \<mapsto> graph_methods (n + 2),
       registry L \<mapsto> r(THREAD_METATABLE \<mapsto> Tab (n + 1), GRAPH_METATABLE \<mapsto> Tab (n + 2)))"
    using ne by (intro ext) (simp add: L3_def L2_def L1_def)
  moreover have "lnext L3 = n + 3" "lstack L3 = Tab n # lstack L" "registry L3 = registry L" by (simp_all add: L3_def L2_def L1_def)
  moreover have "lstack L4 = Tab (lnext L3) # lstack L3" "ltabs L4 = (ltabs L3)(lnext L3 \<mapsto> ?m)" by (simp_all add: L4_def)
  ultimately show ?thesis using one two unfolding n_def by metis
qed

text \<open>
  Light userdata share one metatable, and \<open>thread_new\<close> sets it. Once the controller has
  created a thread, every address passes the test \<open>luaL_checkudata\<close> by which
  \<open>leda_thread_set_affinity\<close> and \<open>thread_tostring\<close> recognise a thread.
\<close>

theorem any_pointer_passes_for_thread:
  assumes "ltabs L (registry L) = Some r" and "r THREAD_METATABLE = Some (Tab mt)"
  shows "\<exists>L'. thread_value t L = Inr L' \<and> lstack L' = Val (LLightUserdata t) # lstack L \<and>
     (\<forall>p. luaL_checkudata (Val (LLightUserdata p)) THREAD_METATABLE L' = Inr p)"
  using assms
  by (simp add: thread_value_def run_steps run.simps(2) [of "luaL_getmetatable THREAD_METATABLE"] luaL_getmetatable_def run_one
      table_of_def obj_field_def push_obj_def lua_setmetatable2_def luaL_checkudata_def)

text \<open>The table of the memory arrays is its own metatable: calling it makes an array.\<close>

lemma memarray_opened:
  assumes "ltabs L (registry L) = Some r" and "r MYTYPE = None" and "registry L < lnext L"
  shows "\<exists>L'. luaopen_leda_lmemarray L = Inr L' \<and> lstack L' = Tab (lnext L + 1) # Tab (lnext L) # lstack L \<and>
     ltabs L' (lnext L + 1) = Some (map_of (funs reg_memarray)) \<and> metas L' (lnext L + 1) = Some (Tab (lnext L + 1)) \<and>
     ltabs L' (lnext L) = Some (map_of (funs reg_memarray_ptr))"
proof -
  have d: "distinct (map fst reg_memarray)" "distinct (map fst reg_memarray_ptr)"
    by (simp_all add: reg_memarray_def reg_memarray_ptr_def)
  show ?thesis using assms(3)
    by (simp add: luaopen_leda_lmemarray_def newmetatable_new [OF assms] run_steps register_run register_map [OF d(1)]
        register_map [OF d(2)] run_one lua_setmetatable2_def)
qed

section \<open>Witnesses\<close>

definition wit_api :: lua_api where
  "wit_api = \<lparr>lstack = [], ltabs = [1 \<mapsto> Map.empty, 2 \<mapsto> Map.empty, 3 \<mapsto> Map.empty], metas = Map.empty, light_meta = None,
     lnext = 4, registry = 1, globals = 2\<rparr>"

lemma wit_api: "api_ok wit_api" "ltabs wit_api 1 = Some Map.empty" "ltabs wit_api 2 = Some Map.empty" "ltabs wit_api 3 = Some Map.empty"
  by (auto simp: wit_api_def api_ok_def)

theorem stage_environment_witness:
  "\<exists>L'. stage_api (Tab 3) (Val LNil) (Val LNil) ''0.3.10'' wit_api = Inr L' \<and> lstack L' = [] \<and>
     ltabs L' 2 = Some [''__emmit'' \<mapsto> CFun ''emmit'', ''__cohort'' \<mapsto> CFun ''cohort'', ''leda'' \<mapsto> Tab 4] \<and>
     ltabs L' 7 = Some [''wrap'' \<mapsto> CFun ''leda_wrap_io'', ''unwrap'' \<mapsto> CFun ''leda_unwrap_io'']"
proof -
  have f: "globals wit_api = 2" "registry wit_api = 1" "lnext wit_api = 4" "lstack wit_api = []" by (simp_all add: wit_api_def)
  from stage_environment [OF wit_api(1,4), of Map.empty Map.empty "Val LNil" "Val LNil" "''0.3.10''"] wit_api(2,3)
  show ?thesis unfolding f by auto
qed

theorem kernel_module_opened_witness:
  "\<exists>L' m. luaopen_leda_kernel ''0.3.10'' wit_api = Inr L' \<and> lstack L' = [Tab 4] \<and> ltabs L' 4 = Some m \<and> m ''send'' = Some (CFun ''leda_send'') \<and>
     ltabs L' 6 = Some (graph_methods 6)"
proof -
  have f: "registry wit_api = 1" "lnext wit_api = 4" "lstack wit_api = []" by (simp_all add: wit_api_def)
  have "map_of (funs leda_funcs) ''send'' = Some (CFun ''leda_send'')" by (simp add: funs_def leda_funcs_def)
  with kernel_module_opened [OF wit_api(1), of Map.empty "''0.3.10''"] wit_api(2) show ?thesis unfolding f by auto
qed

theorem any_pointer_passes_for_thread_witness:
  "\<exists>L L'. luaopen_leda_kernel ''0.3.10'' wit_api = Inr L \<and> thread_value 4096 L = Inr L' \<and>
     luaL_checkudata (Val (LLightUserdata 1)) THREAD_METATABLE L' = Inr 1"
proof -
  have f: "registry wit_api = 1" "lnext wit_api = 4" by (simp_all add: wit_api_def)
  from kernel_module_opened [OF wit_api(1), of Map.empty "''0.3.10''"] wit_api(2)
  obtain L where L: "luaopen_leda_kernel ''0.3.10'' wit_api = Inr L" "registry L = 1"
    "ltabs L 1 = Some [THREAD_METATABLE \<mapsto> Tab 5, GRAPH_METATABLE \<mapsto> Tab 6]" unfolding f by auto
  have "[THREAD_METATABLE \<mapsto> Tab 5, GRAPH_METATABLE \<mapsto> Tab 6] THREAD_METATABLE = Some (Tab 5)"
    by (simp add: THREAD_METATABLE_def GRAPH_METATABLE_def)
  from any_pointer_passes_for_thread [of L "[THREAD_METATABLE \<mapsto> Tab 5, GRAPH_METATABLE \<mapsto> Tab 6]" 5 4096, OF _ this] L(2,3)
  obtain L' where "thread_value 4096 L = Inr L'" "luaL_checkudata (Val (LLightUserdata 1)) THREAD_METATABLE L' = Inr 1" by auto
  then show ?thesis using L(1) by blast
qed

end
