(* ===== verification/Leda_Double.thy ===== *)
theory Leda_Double
  imports Complex_Main Leda_Lua
begin

text \<open>
  The arithmetic of C doubles the time computations use: a finite double is its value, a rational
  number; every operation rounds its exact result to the nearest double, ties to an even fraction.
  Values the sources compute with are far below the overflow threshold, so that the exponent is
  bounded below only.
\<close>

section \<open>Rounding\<close>

text \<open>The exponent of a positive number.\<close>

definition flog2 :: "rat \<Rightarrow> int" where
  "flog2 q = (let (n, d) = quotient_of q; k = int (ilog2 (nat n)) - int (ilog2 (nat d))
     in if 2 powi k \<le> q then k else k - 1)"

definition round_even :: "rat \<Rightarrow> int" where
  "round_even x = (let f = \<lfloor>x\<rfloor>; r = x - of_int f in if r < 1 / 2 \<or> (r = 1 / 2 \<and> even f) then f else f + 1)"

definition ulp_exp :: "rat \<Rightarrow> int" where
  "ulp_exp q = max (- 1074) (flog2 \<bar>q\<bar> - 52)"

definition rnd :: "rat \<Rightarrow> rat" where
  "rnd q = (if q = 0 then 0 else of_int (round_even (q / 2 powi ulp_exp q)) * 2 powi ulp_exp q)"

text \<open>The value of a finite \<open>lua_Number\<close>; the numbers that are doubles.\<close>

definition num_val :: "lua_Number \<Rightarrow> rat" where
  "num_val w = (let m = (if num_exp w = 0 then num_frac w else 2 ^ 52 + num_frac w);
                    e = (if num_exp w = 0 then 1 else num_exp w)
     in (if num_neg w then - 1 else 1) * rat_of_nat m * 2 powi (int e - 1075))"

definition is_double :: "rat \<Rightarrow> bool" where
  "is_double q \<longleftrightarrow> (\<exists>m e. q = of_int m * 2 powi e \<and> \<bar>m\<bar> < 2 ^ 53 \<and> - 1074 \<le> e)"

text \<open>Conversions to integers: towards zero, and the least integer when the result does not fit.\<close>

definition trunc :: "rat \<Rightarrow> int" where
  "trunc q = (if q < 0 then \<lceil>q\<rceil> else \<lfloor>q\<rfloor>)"

definition to_long :: "rat \<Rightarrow> int" where
  "to_long q = (if - (2 ^ 63) \<le> trunc q \<and> trunc q < 2 ^ 63 then trunc q else - (2 ^ 63))"

definition to_int :: "rat \<Rightarrow> int" where
  "to_int q = (if - (2 ^ 31) \<le> trunc q \<and> trunc q < 2 ^ 31 then trunc q else - (2 ^ 31))"

definition to_unsigned :: "rat \<Rightarrow> int" where
  "to_unsigned q = to_long q mod 2 ^ 32"

section \<open>Laws of rounding\<close>

lemma flog2_bounds:
  assumes "0 < q"
  shows "2 powi flog2 q \<le> q" and "q < 2 powi (flog2 q + 1)"
proof -
  obtain n d where nd: "quotient_of q = (n, d)" by fastforce
  have d: "0 < d" and q: "q = of_int n / of_int d" using quotient_of_denom_pos [OF nd] quotient_of_div [OF nd] by auto
  have n: "0 < n" using assms d unfolding q by (simp add: zero_less_divide_iff)
  define a b where "a = ilog2 (nat n)" and "b = ilog2 (nat d)"
  have nb: "2 ^ a \<le> nat n" "nat n < 2 ^ Suc a" and db: "2 ^ b \<le> nat d" "nat d < 2 ^ Suc b"
    using ilog2_bounds [of "nat n"] ilog2_bounds [of "nat d"] n d by (auto simp: a_def b_def)
  have b: "2 ^ a \<le> n" "n < 2 ^ Suc a" "2 ^ b \<le> d" "d < 2 ^ Suc b" using nb db n d by (simp_all add: nat_less_iff le_nat_iff)
  have rn: "2 ^ a \<le> (of_int n :: rat)" "of_int n < (2 ^ Suc a :: rat)" and rd: "2 ^ b \<le> (of_int d :: rat)" "of_int d < (2 ^ Suc b :: rat)"
    using b by (metis of_int_le_iff of_int_less_iff of_int_numeral of_int_power)+
  have "q < 2 ^ Suc a / 2 ^ b" unfolding q using rn rd n by (intro frac_less) auto
  then have up: "q < 2 powi (int a - int b + 1)" by (simp add: power_int_diff power_int_add mult.commute)
  have "2 ^ a / 2 ^ Suc b < q" unfolding q using rn rd d by (intro frac_less2) auto
  then have lo: "2 powi (int a - int b - 1) < q" by (simp add: power_int_diff)
  show "2 powi flog2 q \<le> q" "q < 2 powi (flog2 q + 1)"
    using up lo by (auto simp: flog2_def nd a_def b_def not_le Let_def)
qed

lemma powi_less: "(2 :: rat) powi a < 2 powi b \<Longrightarrow> a < b"
  by (metis not_less one_le_numeral order_less_irrefl order_less_le_trans power_int_increasing)

lemma powi_mono: "a \<le> b \<Longrightarrow> (2 :: rat) powi a \<le> 2 powi b"
  by (rule power_int_increasing) simp_all

lemma flog2_unique:
  assumes "2 powi k \<le> q" and "q < 2 powi (k + 1)"
  shows "flog2 q = k"
proof -
  have "(0 :: rat) < 2 powi k" by simp
  then have q: "0 < q" using assms(1) by linarith
  note b = flog2_bounds [OF q]
  have "2 powi k < (2 :: rat) powi (flog2 q + 1)" "2 powi flog2 q < (2 :: rat) powi (k + 1)" using assms b by linarith+
  then have "k < flog2 q + 1" "flog2 q < k + 1" by (auto dest: powi_less)
  then show ?thesis by simp
qed

lemma flog2_mono:
  assumes "0 < q" and "q \<le> r"
  shows "flog2 q \<le> flog2 r"
proof -
  have "2 powi flog2 q < (2 :: rat) powi (flog2 r + 1)"
    using flog2_bounds(1) [OF assms(1)] flog2_bounds(2) [of r] assms by simp
  then show ?thesis using powi_less by fastforce
qed

lemma round_even_int [simp]: "round_even (of_int z) = z"
  by (simp add: round_even_def)

lemma round_even_error: "\<bar>of_int (round_even x) - x\<bar> \<le> 1 / 2"
proof -
  have "of_int \<lfloor>x\<rfloor> \<le> x" "x < of_int \<lfloor>x\<rfloor> + 1" by linarith+
  then show ?thesis unfolding round_even_def Let_def by auto
qed

lemma round_even_mono:
  assumes "x \<le> y"
  shows "round_even x \<le> round_even y"
proof (cases "\<lfloor>x\<rfloor> = \<lfloor>y\<rfloor>")
  case True
  then show ?thesis using assms by (auto simp: round_even_def Let_def)
next
  case False
  then have "\<lfloor>x\<rfloor> + 1 \<le> \<lfloor>y\<rfloor>" using floor_mono [OF assms] by linarith
  then show ?thesis by (auto simp: round_even_def Let_def)
qed

lemma round_even_le: "x \<le> of_int z \<Longrightarrow> round_even x \<le> z"
  using round_even_mono [of x "of_int z"] by simp

lemma le_round_even: "of_int z \<le> x \<Longrightarrow> z \<le> round_even x"
  using round_even_mono [of "of_int z" x] by simp

lemma rnd_zero [simp]: "rnd 0 = 0"
  by (simp add: rnd_def)

lemma powi_split:
  assumes "u \<le> e"
  shows "2 powi e = rat_of_int (2 ^ nat (e - u)) * 2 powi u"
proof -
  have "2 powi e = (2 :: rat) powi ((e - u) + u)" by simp
  also have "\<dots> = 2 powi (e - u) * 2 powi u" by (rule power_int_add) simp
  finally show ?thesis using assms by (simp add: power_int_def)
qed

text \<open>An integer multiple of the unit in the last place bounds the rounded value.\<close>

lemma rnd_le:
  assumes "q \<le> of_int m * 2 powi e" and "ulp_exp q \<le> e"
  shows "rnd q \<le> of_int m * 2 powi e"
proof (cases "q = 0")
  case False
  define u where "u = ulp_exp q"
  define c where "c = m * 2 ^ nat (e - u)"
  have e: "rat_of_int m * 2 powi e = of_int c * 2 powi u" using powi_split [of u e] assms(2) by (simp add: c_def u_def)
  have "q / 2 powi u \<le> of_int c" using assms(1) unfolding e by (simp add: pos_divide_le_eq)
  then have "rat_of_int (round_even (q / 2 powi u)) \<le> of_int c" by (simp only: of_int_le_iff round_even_le)
  then have "of_int (round_even (q / 2 powi u)) * 2 powi u \<le> of_int c * (2 :: rat) powi u" by (rule mult_right_mono) simp
  then show ?thesis using False unfolding e by (simp add: rnd_def u_def)
qed (use assms in simp)

lemma le_rnd:
  assumes "of_int m * 2 powi e \<le> q" and "ulp_exp q \<le> e"
  shows "of_int m * 2 powi e \<le> rnd q"
proof (cases "q = 0")
  case False
  define u where "u = ulp_exp q"
  define c where "c = m * 2 ^ nat (e - u)"
  have e: "rat_of_int m * 2 powi e = of_int c * 2 powi u" using powi_split [of u e] assms(2) by (simp add: c_def u_def)
  have "of_int c \<le> q / 2 powi u" using assms(1) unfolding e by (simp add: pos_le_divide_eq)
  then have "of_int c \<le> rat_of_int (round_even (q / 2 powi u))" by (simp only: of_int_le_iff le_round_even)
  then have "of_int c * (2 :: rat) powi u \<le> of_int (round_even (q / 2 powi u)) * 2 powi u" by (rule mult_right_mono) simp
  then show ?thesis using False unfolding e by (simp add: rnd_def u_def)
qed (use assms in simp)

lemma rnd_nonneg: "0 \<le> q \<Longrightarrow> 0 \<le> rnd q"
  using le_rnd [of 0 "ulp_exp q" q] by simp

text \<open>Doubles are not changed, and rounding keeps the order.\<close>

lemma double_exponent:
  assumes "q = of_int m * 2 powi e" and "\<bar>m\<bar> < 2 ^ 53" and "- 1074 \<le> e" and "q \<noteq> 0"
  shows "ulp_exp q \<le> e"
proof -
  have q: "\<bar>q\<bar> = of_int \<bar>m\<bar> * 2 powi e" using assms(1) by (simp add: abs_mult)
  have "of_int \<bar>m\<bar> < (2 ^ 53 :: rat)" using assms(2) by (metis of_int_less_iff of_int_numeral of_int_power)
  then have "\<bar>q\<bar> < 2 ^ 53 * 2 powi e" unfolding q by (intro mult_strict_right_mono) simp_all
  also have "2 ^ 53 * 2 powi e = (2 :: rat) powi (53 + e)" by (simp add: power_int_add)
  finally have "2 powi flog2 \<bar>q\<bar> < (2 :: rat) powi (53 + e)" using flog2_bounds(1) [of "\<bar>q\<bar>"] assms(4) by simp
  then have "flog2 \<bar>q\<bar> < 53 + e" by (rule powi_less)
  then show ?thesis using assms(3) by (simp add: ulp_exp_def)
qed

lemma rnd_double:
  assumes "q = of_int m * 2 powi e" and "\<bar>m\<bar> < 2 ^ 53" and "- 1074 \<le> e"
  shows "rnd q = q"
proof (cases "q = 0")
  case False
  note u = double_exponent [OF assms False]
  show ?thesis using rnd_le [of q m e] le_rnd [of m e q] u assms(1) by simp
qed simp

lemma rnd_is_double: "is_double q \<Longrightarrow> rnd q = q"
  by (auto simp: is_double_def intro: rnd_double)

lemma is_double_int [simp]: "\<bar>z\<bar> < 2 ^ 53 \<Longrightarrow> is_double (of_int z)"
  unfolding is_double_def by (intro exI [of _ z] exI [of _ 0]) simp

lemma is_double_rnd: "is_double (rnd q)"
proof (cases "q = 0")
  case True
  then show ?thesis using is_double_int [of 0] by simp
next
  case False
  define u m where "u = ulp_exp q" and "m = round_even (q / 2 powi u)"
  have r: "rnd q = of_int m * 2 powi u" and u: "- 1074 \<le> u" using False by (simp_all add: rnd_def u_def m_def ulp_exp_def)
  have "\<bar>q\<bar> < 2 powi (flog2 \<bar>q\<bar> + 1)" using flog2_bounds(2) [of "\<bar>q\<bar>"] False by simp
  also have "\<dots> \<le> 2 powi (53 + u)" by (rule powi_mono) (simp add: u_def ulp_exp_def)
  finally have "\<bar>q\<bar> < 2 ^ 53 * 2 powi u" by (simp add: power_int_add)
  then have "q \<le> 2 ^ 53 * 2 powi u" "- (2 ^ 53) * 2 powi u \<le> q" by linarith+
  then have "q / 2 powi u \<le> of_int (2 ^ 53)" "of_int (- (2 ^ 53)) \<le> q / 2 powi u"
    by (simp_all add: pos_divide_le_eq pos_le_divide_eq)
  then have "m \<le> 2 ^ 53" "- (2 ^ 53) \<le> m" unfolding m_def by (simp_all only: round_even_le le_round_even)
  then have m: "\<bar>m\<bar> \<le> 2 ^ 53" by linarith
  show ?thesis
  proof (cases "\<bar>m\<bar> = 2 ^ 53")
    case True
    then consider "m = 2 ^ 53" | "m = - (2 ^ 53)" by linarith
    then obtain s where "m = s * 2 ^ 53" "\<bar>s\<bar> = 1" by cases (auto intro: that [of 1] that [of "- 1"])
    then show ?thesis unfolding is_double_def r using u
      by (intro exI [of _ s] exI [of _ "53 + u"]) (simp add: power_int_add)
  next
    case False
    then have "\<bar>m\<bar> < 2 ^ 53" using m by linarith
    then show ?thesis unfolding is_double_def using r u by blast
  qed
qed

lemma ulp_exp_mono: "0 < q \<Longrightarrow> q \<le> r \<Longrightarrow> ulp_exp q \<le> ulp_exp r"
  using flog2_mono [of q r] by (auto simp: ulp_exp_def)

text \<open>Below a power of two no rounding goes past it.\<close>

lemma rnd_mono:
  assumes "0 \<le> q" and "q \<le> r"
  shows "rnd q \<le> rnd r"
proof -
  consider "q = 0" | "0 < q" "ulp_exp q = ulp_exp r" | "0 < q" "ulp_exp q < ulp_exp r"
    using assms ulp_exp_mono [of q r] by fastforce
  then show ?thesis
  proof cases
    case 1
    then show ?thesis using assms rnd_nonneg [of r] by simp
  next
    case 2
    have "round_even (q / 2 powi ulp_exp r) \<le> round_even (r / 2 powi ulp_exp r)"
      using assms(2) by (intro round_even_mono divide_right_mono) simp_all
    then show ?thesis using 2 assms(2) by (simp add: rnd_def)
  next
    case 3
    have r: "0 < r" using 3 assms by linarith
    have u: "ulp_exp r = flog2 r - 52" "flog2 q < flog2 r" using 3 r by (auto simp: ulp_exp_def)
    have "q \<le> 2 powi flog2 r" using flog2_bounds(2) [OF 3(1)] powi_mono [of "flog2 q + 1" "flog2 r"] u(2) by linarith
    then have "rnd q \<le> of_int 1 * 2 powi flog2 r" using 3 u by (intro rnd_le) auto
    also have "\<dots> \<le> rnd r" using flog2_bounds(1) [OF r] u by (intro le_rnd) auto
    finally show ?thesis .
  qed
qed

lemma rnd_error:
  assumes "0 \<le> q" and "q < 2 powi k" and "- 1021 \<le> k"
  shows "\<bar>rnd q - q\<bar> \<le> 2 powi (k - 54)"
proof (cases "q = 0")
  case False
  then have q: "0 < q" using assms(1) by simp
  define u where "u = ulp_exp q"
  have "2 powi flog2 q < (2 :: rat) powi k" using flog2_bounds(1) [OF q] assms(2) by linarith
  then have "flog2 q < k" by (rule powi_less)
  then have u: "u \<le> k - 53" using assms(3) q by (simp add: u_def ulp_exp_def)
  define x where "x = q / 2 powi u"
  have qx: "q = x * 2 powi u" by (simp add: x_def)
  have "rnd q - q = (of_int (round_even x) - x) * 2 powi u"
    using q by (subst qx) (simp add: rnd_def u_def [symmetric] x_def [symmetric] left_diff_distrib)
  then have "\<bar>rnd q - q\<bar> = \<bar>of_int (round_even x) - x\<bar> * 2 powi u" by (simp add: abs_mult)
  also have "\<dots> \<le> 1 / 2 * 2 powi u" by (intro mult_right_mono round_even_error) simp
  also have "\<dots> = 2 powi (u - 1)" by (simp add: power_int_diff)
  also have "\<dots> \<le> 2 powi (k - 54)" using u by (intro powi_mono) simp
  finally show ?thesis .
qed simp

text \<open>The integral and the fractional part of a double that is not negative are doubles.\<close>

lemma double_parts:
  assumes "is_double q" and "0 \<le> q"
  shows "is_double (of_int \<lfloor>q\<rfloor>)" and "is_double (q - of_int \<lfloor>q\<rfloor>)"
proof -
  from assms(1) obtain m e where q: "q = of_int m * 2 powi e" "\<bar>m\<bar> < 2 ^ 53" "- 1074 \<le> e" by (auto simp: is_double_def)
  have "is_double (of_int \<lfloor>q\<rfloor>) \<and> is_double (q - of_int \<lfloor>q\<rfloor>)"
  proof (cases "0 \<le> e")
    case True
    then have "q = of_int (m * 2 ^ nat e)" using q(1) by (simp add: power_int_def)
    then have "q = of_int \<lfloor>q\<rfloor>" by (metis floor_of_int)
    then show ?thesis using assms(1) is_double_int [of 0] by simp
  next
    case False
    define k where "k = nat (- e)"
    have qk: "q = of_int m / of_int (2 ^ k)" using q(1) False by (simp add: k_def power_int_def field_simps)
    have "\<lfloor>q\<rfloor> = m div 2 ^ k" unfolding qk by (rule floor_divide_of_int_eq)
    moreover have "rat_of_int m = q * 2 ^ k" unfolding qk by simp
    then have m: "0 \<le> m" using assms(2) by (metis mult_nonneg_nonneg of_int_0_le_iff zero_le_numeral zero_le_power)
    then have "m div 2 ^ k \<le> m" by (metis div_by_1 int_one_le_iff_zero_less zdiv_mono2 zero_less_numeral zero_less_power zero_less_one)
    moreover have "0 \<le> m div 2 ^ k" using m by (simp add: pos_imp_zdiv_nonneg_iff)
    ultimately have f: "\<bar>\<lfloor>q\<rfloor>\<bar> < 2 ^ 53" using q(2) m by linarith
    have "q - of_int \<lfloor>q\<rfloor> = of_int (m - m div 2 ^ k * 2 ^ k) / of_int (2 ^ k)"
      unfolding \<open>\<lfloor>q\<rfloor> = m div 2 ^ k\<close> unfolding qk by (simp add: diff_divide_distrib)
    also have "m - m div 2 ^ k * 2 ^ k = m mod 2 ^ k" by (simp add: minus_div_mult_eq_mod)
    finally have "q - of_int \<lfloor>q\<rfloor> = of_int (m mod 2 ^ k) * 2 powi e" using False by (simp add: k_def power_int_def field_simps)
    moreover have "\<bar>m mod 2 ^ k\<bar> < 2 ^ 53" using q(2) m zmod_le_nonneg_dividend [OF m, of "2 ^ k"] by simp
    ultimately have "is_double (q - of_int \<lfloor>q\<rfloor>)" unfolding is_double_def using q(3) by blast
    then show ?thesis using f by simp
  qed
  then show "is_double (of_int \<lfloor>q\<rfloor>)" "is_double (q - of_int \<lfloor>q\<rfloor>)" by simp_all
qed

lemma num_val_double: "is_double (num_val w)"
proof -
  define m :: int where "m = (if num_neg w then - 1 else 1) * int (if num_exp w = 0 then num_frac w else 2 ^ 52 + num_frac w)"
  define e where "e = (if num_exp w = 0 then 1 else int (num_exp w)) - 1075"
  have "num_frac w < 2 ^ 52" by (simp add: num_frac_def)
  then have "\<bar>m\<bar> < 2 ^ 53" "- 1074 \<le> e" by (auto simp: m_def e_def)
  moreover have "num_val w = of_int m * 2 powi e" by (simp add: num_val_def m_def e_def Let_def)
  ultimately show ?thesis by (auto simp: is_double_def)
qed

end
