(* ===== verification/Leda_Kernel.thy ===== *)
theory Leda_Kernel
  imports Leda_Emit
begin

text \<open>
  Entry points of the kernel (\<open>src/kernel/kernel.c\<close>): \<open>leda_run\<close> up to the call of the
  controller, which sets up every subsystem and emits what the program has sent to its
  stages before it was started, \<open>leda_send\<close>, and the getters of the ready queue.
\<close>

section \<open>Setting up\<close>

text \<open>The event thread's tables (\<open>event_init_t\<close>, event.c): no connections yet.\<close>

definition event_init_t :: "kernel \<Rightarrow> node" where
  "event_init_t k = \<lparr>kern = k, sockets = map (\<lambda>_. the (queue_new True)) [0..<n_d (main_graph k)],
     cur_process = map (\<lambda>_. atomic_new 0) [0..<n_cl (main_graph k)], armed = []\<rparr>"

definition set_up :: "graph_data \<Rightarrow> stats \<Rightarrow> int \<Rightarrow> node result" where
  "set_up g st default_maxpar =
     rbind (instance_init g st (of_int default_maxpar) (- 1)) (\<lambda>k.
     Inr (event_init_t (k\<lparr>kstats := stats_init (n_s g) (n_c g) (kstats k)\<rparr>)))"

section \<open>Sends made before the start\<close>

text \<open>
  The table the graph gives for \<open>stages\<close> is the list of its entries in the order of
  \<open>lua_next\<close>: the id of the stage and the arguments of every pending send. Each send comes with
  what its call of \<open>emmit\<close> finds outside. The pending sends of a stage are a table, as the
  constructor of stages makes it.

  The loop goes on, or \<open>emmit\<close> blocks, or an error is raised with the node as it is.
\<close>

type_synonym sends = "(sched_env \<times> lua_value list) list"

datatype run_state = Goes_on node | Blocks node | Run_error node

fun emit_sends :: "lua_heap \<Rightarrow> int \<Rightarrow> sends \<Rightarrow> node \<Rightarrow> run_state option result" where
  "emit_sends h s [] n = Inr (Some (Goes_on n))"
| "emit_sends h s ((e, args) # rest) n =
     rbind (emmit e h ([LInteger s, LInteger (- 1)] @ args) n) (\<lambda>r. case r of
       None \<Rightarrow> Inr None
     | Some (Waiting (_, n)) \<Rightarrow> Inr (Some (Blocks n))
     | Some (Returned (LuaRaises, n)) \<Rightarrow> Inr (Some (Run_error n))
     | Some (Returned (LuaReturns _ vs, n)) \<Rightarrow>
         if lua_toboolean vs 1 then emit_sends h s rest n
         else rbind (STAGE (main_graph (kern n)) s) (\<lambda>_. Inr (Some (Run_error n))))"

fun emit_pending :: "lua_heap \<Rightarrow> (int \<times> sends) list \<Rightarrow> node \<Rightarrow> run_state option result" where
  "emit_pending h [] n = Inr (Some (Goes_on n))"
| "emit_pending h ((s, sends) # rest) n =
     rbind (emit_sends h s sends n) (\<lambda>r. case r of
       Some (Goes_on n) \<Rightarrow> emit_pending h rest n | _ \<Rightarrow> Inr r)"

section \<open>Running a graph\<close>

text \<open>
  The callbacks the controller defines. The flags are static variables that stats.c reads; they are
  never cleared. Those of \<open>on_destroy\<close>, \<open>on_create\<close> and \<open>on_active\<close> are read by nobody.
\<close>

definition is_callback :: "(string \<Rightarrow> lua_value) \<Rightarrow> string \<Rightarrow> bool" where
  "is_callback ctl name \<longleftrightarrow> type_tag (ctl name) = LUA_TFUNCTION"

definition find_callbacks :: "(string \<Rightarrow> lua_value) \<Rightarrow> stats \<Rightarrow> stats" where
  "find_callbacks ctl st = st\<lparr>
     has_error_cb := is_callback ctl ''on_error'' \<or> has_error_cb st,
     has_event_cb := is_callback ctl ''on_event'' \<or> has_event_cb st,
     has_release_cb := is_callback ctl ''on_release'' \<or> has_release_cb st\<rparr>"

text \<open>
  \<open>leda_run\<close> up to the controller's \<open>init\<close>: \<open>base_ok\<close> says whether the event base could
  be created, \<open>controller\<close> is the table at index 3, if it is one.
\<close>

datatype run_result = Calls_init sched | Run_stops "sched option" | Run_blocks sched

definition leda_run ::
  "bool \<Rightarrow> graph_data \<Rightarrow> stats \<Rightarrow> lua_heap \<Rightarrow> (string \<Rightarrow> lua_value) option \<Rightarrow> int \<Rightarrow> (int \<times> sends) list \<Rightarrow>
     run_result option result" where
  "leda_run base_ok g st h controller default_maxpar pend =
     (if \<not> base_ok then Inr (Some (Run_stops None)) else case controller of
        None \<Rightarrow> Inr (Some (Run_stops None))
      | Some ctl \<Rightarrow> rbind (set_up g st default_maxpar) (\<lambda>n.
          rbind (emit_pending h pend n) (\<lambda>r. case r of
            None \<Rightarrow> Inr None
          | Some (Blocks n) \<Rightarrow> Inr (Some (Run_blocks (leda_thread_init n)))
          | Some (Run_error n) \<Rightarrow> Inr (Some (Run_stops (Some (leda_thread_init n))))
          | Some (Goes_on n) \<Rightarrow>
              let k = kern n; n = n\<lparr>kern := k\<lparr>kstats := find_callbacks ctl (kstats k)\<rparr>\<rparr> in
              if is_callback ctl ''init'' then Inr (Some (Calls_init (leda_thread_init n)))
              else Inr (Some (Run_stops (Some (leda_thread_init n)))))))"

section \<open>Sending from the controller\<close>

text \<open>Two results of \<open>emmit\<close> are taken, or made up with nil; without a stage id \<open>lua_call\<close> calls a number.\<close>

definition leda_send :: "sched_env \<Rightarrow> lua_heap \<Rightarrow> lua_value list \<Rightarrow> node \<Rightarrow> (lua_ret \<times> node) call option result" where
  "leda_send e h st n = (let s = c_int (lua_tointeger (conv e) st 1) in
     if s < 0 \<or> s > int (n_s (main_graph (kern n)))
     then Inr (Some (Returned (LuaReturns 2 [LNil, LString (lit ''Invalid stage id'')], n)))
     else if st = [] then Inr (Some (Returned (LuaRaises, n)))
     else rbind (emmit e h ([LInteger s, LInteger (- 1)] @ drop 1 st) n) (\<lambda>r. Inr (map_option (call_map (\<lambda>(r, n). (case r of
         LuaReturns _ vs \<Rightarrow> LuaReturns 2 (take 2 (vs @ [LNil, LNil])) | LuaRaises \<Rightarrow> LuaRaises, n))) r)))"

section \<open>Callbacks of the controller\<close>

text \<open>
  What the handlers of the kernel's event base pass to the controller; \<open>None\<close> when it has no such
  function. Ids count from one in Lua, the counters pass through an \<open>int\<close>.
\<close>

definition kernel_error_event :: "(string \<Rightarrow> lua_value) \<Rightarrow> int \<Rightarrow> lua_value list option" where
  "kernel_error_event ctl i = (if is_callback ctl ''on_error'' then Some [LInteger (i + 1)] else None)"

definition kernel_event_event :: "(string \<Rightarrow> lua_value) \<Rightarrow> int \<Rightarrow> c_long \<Rightarrow> int \<Rightarrow> c_long \<Rightarrow> c_long \<Rightarrow> lua_value list option" where
  "kernel_event_event ctl i ev ci cev t = (if is_callback ctl ''on_event''
     then Some [LInteger (c_int (i + 1)), LInteger (c_int (sint ev)), LInteger (c_int (ci + 1)), LInteger (c_int (sint cev)), LInteger (sint t)]
     else None)"

definition kernel_release_event :: "(string \<Rightarrow> lua_value) \<Rightarrow> int \<Rightarrow> c_long \<Rightarrow> lua_value list option" where
  "kernel_release_event ctl i t = (if is_callback ctl ''on_release'' then Some [LInteger (c_int (i + 1)), LInteger (sint t)] else None)"

text \<open>The handler of a timer; \<open>arg\<close> is the identifier given to \<open>add_timer\<close>.\<close>

definition kernel_timer_event :: "(string \<Rightarrow> lua_value) \<Rightarrow> c_long \<Rightarrow> lua_value list option" where
  "kernel_timer_event ctl arg = (if is_callback ctl ''on_timer'' then Some [LInteger (sint arg)] else None)"

fun kernel_callback :: "(string \<Rightarrow> lua_value) \<Rightarrow> kernel_event \<Rightarrow> lua_value list option" where
  "kernel_callback ctl (KError i) = kernel_error_event ctl i"
| "kernel_callback ctl (KEvent i ev ci cev t) = kernel_event_event ctl i ev ci cev t"
| "kernel_callback ctl (KRelease i t) = kernel_release_event ctl i t"

section \<open>Ending the kernel from a handler\<close>

text \<open>
  \<open>leda_raise_yield_event\<close> makes an event of its arguments for the main state, and the
  handler yields to be destroyed; an error of the encoder is raised (\<open>None\<close>). The event,
  restored in the main state (\<open>kernel_yield_event\<close>), gives the results of \<open>leda_run\<close>.
\<close>

definition leda_raise_yield_event :: "nat \<Rightarrow> lua_heap \<Rightarrow> lua_value list \<Rightarrow> (event \<times> lua_value list) option result" where
  "leda_raise_yield_event d h st = (let (a, h1) = args_table st h in
     case mar_encode d h1 [] True (LTable a) of
       Inl (LuaError _) \<Rightarrow> Inr None
     | Inl f \<Rightarrow> Inl f
     | Inr payload \<Rightarrow> Inr (Some (Packed payload, leda_destroy st)))"

definition kernel_yield_event ::
  "lua_runtime \<Rightarrow> event \<Rightarrow> lua_value list \<times> lua_heap \<Rightarrow> ((lua_value list \<times> lua_heap) \<times> nat) result" where
  "kernel_yield_event rt e main = rbind (restore_event_to_lua_state rt e main) (\<lambda>(main, n, _). Inr (main, n))"

section \<open>The ready queue, seen from Lua\<close>

text \<open>\<open>leda_ready_queue_size\<close> and its like (instance.c).\<close>

definition leda_ready_queue_size :: "kernel \<Rightarrow> lua_value \<times> kernel" where
  "leda_ready_queue_size k = (let (z, q) = queue_size (ready_queue k) in (LInteger z, k\<lparr>ready_queue := q\<rparr>))"

definition leda_ready_queue_capacity :: "kernel \<Rightarrow> lua_value" where
  "leda_ready_queue_capacity k = LInteger (queue_capacity (ready_queue k))"

definition leda_ready_queue_isempty :: "kernel \<Rightarrow> lua_value \<times> kernel" where
  "leda_ready_queue_isempty k = (let (b, q) = queue_isempty (ready_queue k) in (LBoolean b, k\<lparr>ready_queue := q\<rparr>))"

section \<open>What the start does\<close>

text \<open>The events in the system: instances ready to run and events that wait.\<close>

definition load :: "nat \<Rightarrow> pool \<Rightarrow> nat" where
  "load m p = length (ready p) + (\<Sum>s<m. length (pending p s))"

definition local_stage :: "graph_data \<Rightarrow> int \<Rightarrow> bool" where
  "local_stage g s \<longleftrightarrow> 0 \<le> s \<and> s < int (n_s g) \<and> (case STAGE g s of Inl _ \<Rightarrow> False
     | Inr sd \<Rightarrow> (case CLUSTER g (sd_cluster sd) of Inl _ \<Rightarrow> False | Inr cl \<Rightarrow> cl_local cl))"

definition loaded :: "graph_data \<Rightarrow> nat \<Rightarrow> node \<Rightarrow> bool" where
  "loaded g m n \<longleftrightarrow> main_graph (kern n) = g \<and> reaches (kern n) {} \<and>
     (\<exists>p. krep (kern n) p \<and> ready_cap p < 0 \<and> load (n_s g) p = m)"

lemma load_ready: "load m (p\<lparr>idle := f, ready := ready p @ [x]\<rparr>) = Suc (load m p)"
  by (simp add: load_def)

lemma load_pending: "s < m \<Longrightarrow> load m (p\<lparr>pending := (pending p)(s := pending p s @ [ev])\<rparr>) = Suc (load m p)"
proof -
  assume s: "s < m"
  let ?f = "\<lambda>x. length (((pending p)(s := pending p s @ [ev])) x)"
  have "(\<Sum>x<m. ?f x) = ?f s + (\<Sum>x \<in> {..<m} - {s}. ?f x)" using s by (intro sum.remove) simp_all
  also have "(\<Sum>x \<in> {..<m} - {s}. ?f x) = (\<Sum>x \<in> {..<m} - {s}. length (pending p x))" by (intro sum.cong) simp_all
  also have "?f s + \<dots> = Suc (length (pending p s) + (\<Sum>x \<in> {..<m} - {s}. length (pending p x)))" by simp
  also have "length (pending p s) + (\<Sum>x \<in> {..<m} - {s}. length (pending p x)) = (\<Sum>x<m. length (pending p x))"
    using s by (intro sum.remove [symmetric]) simp_all
  finally show ?thesis by (simp add: load_def)
qed

lemma emmit_local_outcome:
  assumes "krep k p" and "s < n_s (main_graph k)" and "has_room (ready_cap p) (ready p)"
    and "emmit_local e h st (int s) con k = Inr c"
  shows "\<exists>r k'. c = Returned (r, k') \<and>
     (delivered e h (lua_remove st 2) s k p r k' \<or> deferred e h (lua_remove st 2) s p r k' \<or>
      queue_full s p r k' \<or> raised s k p r k')"
proof -
  from assms(4) obtain r k1 where "instance_aquire (ienv e) (now e) (int s) k = Inr (r, k1)"
    by (auto simp: emmit_local_def Let_def rbind_Inr_iff)
  with emmit_no_instance [OF assms(1,2,4)] emmit_instance [OF assms] show ?thesis by (cases r) blast+
qed

text \<open>One call of \<open>emmit\<close> for a stage of this process: it adds one to the load when it returns true.\<close>

lemma emmit_local_node:
  assumes "local_stage (main_graph (kern n)) s" and "c_int (lua_tointeger (conv e) st 1) = s"
    and "emmit e h st n = Inr r"
  obtains c where "emmit_local e h st s (c_int (lua_tointeger (conv e) st 2)) (kern n) = Inr c"
    and "r = Some (call_map (\<lambda>(r, k). (r, n\<lparr>kern := k\<rparr>)) c)"
proof -
  obtain sd cl where "STAGE (main_graph (kern n)) s = Inr sd" "CLUSTER (main_graph (kern n)) (sd_cluster sd) = Inr cl" "cl_local cl"
    using assms(1) by (auto simp: local_stage_def split: sum.splits)
  with assms(2,3) have "rbind (emmit_local e h st s (c_int (lua_tointeger (conv e) st 2)) (kern n)) (\<lambda>c.
      Inr (Some (call_map (\<lambda>(r, k). (r, n\<lparr>kern := k\<rparr>)) c))) = Inr r"
    by (simp add: emmit_def Let_def)
  then show thesis by (rule rbind_InrE) (use that in blast)
qed

lemma emmit_loads:
  assumes l: "loaded g m n" and s: "local_stage g s" "c_int (lua_tointeger (conv e) st 1) = s"
    and e: "emmit e h st n = Inr r"
  shows "\<exists>ret n'. r = Some (Returned (ret, n')) \<and> main_graph (kern n') = g \<and>
     (\<forall>x vs. ret = LuaReturns x vs \<longrightarrow> lua_toboolean vs 1 \<longrightarrow> loaded g (Suc m) n')"
proof -
  have g: "main_graph (kern n) = g" using l by (simp add: loaded_def)
  obtain c where c: "emmit_local e h st s (c_int (lua_tointeger (conv e) st 2)) (kern n) = Inr c"
    and r: "r = Some (call_map (\<lambda>(r, k). (r, n\<lparr>kern := k\<rparr>)) c)"
    using emmit_local_node [OF _ s(2) e] s(1) g by metis
  obtain q where q: "out (kern n) q {}" using l by (auto simp: loaded_def reaches_def)
  from emmit_local_out [OF q c] obtain ret k' q' where k': "c = Returned (ret, k')" "out k' q' {}" "main_graph k' = g"
    using g by auto
  obtain p where p: "krep (kern n) p" "ready_cap p < 0" "load (n_s g) p = m" using l by (auto simp: loaded_def)
  have sn: "int (nat s) = s" "nat s < n_s (main_graph (kern n))" using s(1) g by (auto simp: local_stage_def)
  have "has_room (ready_cap p) (ready p)" using p(2) by (simp add: has_room_def)
  from emmit_local_outcome [OF p(1) sn(2) this, of e h st] c k'(1) sn(1)
  have o: "delivered e h (lua_remove st 2) (nat s) (kern n) p ret k' \<or> deferred e h (lua_remove st 2) (nat s) p ret k' \<or>
      queue_full (nat s) p ret k' \<or> raised (nat s) (kern n) p ret k'" by auto
  have "loaded g (Suc m) (n\<lparr>kern := k'\<rparr>)" if "ret = LuaReturns x vs" "lua_toboolean vs 1" for x vs
  proof -
    have "\<exists>p'. krep k' p' \<and> ready_cap p' < 0 \<and> load (n_s g) p' = Suc m"
      using o that p sn(2) g
      by (fastforce simp: delivered_def deferred_def queue_full_def raised_def lua_toboolean_def lua_index_def
          load_ready load_pending)
    then show ?thesis using k' by (auto simp: loaded_def reaches_def)
  qed
  then show ?thesis using r k' by (auto simp: call_map_def)
qed

lemma emit_sends_loads:
  assumes "loaded g m n" and "local_stage g s" and "n_s g < 2 ^ 31" and "emit_sends h s sends n = Inr r"
  shows "(\<exists>n'. r = Some (Goes_on n') \<and> loaded g (m + length sends) n') \<or> (\<exists>n'. r = Some (Run_error n'))"
  using assms(1,4)
proof (induction sends arbitrary: m n)
  case (Cons x sends)
  obtain e args where x: "x = (e, args)" by fastforce
  let ?st = "[LInteger s, LInteger (- 1)] @ args"
  have b: "0 \<le> s" "s < 2 ^ 31" using assms(2,3) by (auto simp: local_stage_def)
  then have id: "c_int (lua_tointeger (conv e) ?st 1) = s"
    by (simp add: lua_index_def)
  note c = Cons.prems(2) [unfolded x emit_sends.simps]
  obtain r1 where r1: "emmit e h ?st n = Inr r1" by (rule rbind_InrE [OF c]) (rule that)
  from emmit_loads [OF Cons.prems(1) assms(2) id r1] obtain ret n1 where n1: "r1 = Some (Returned (ret, n1))"
    "\<And>x vs. ret = LuaReturns x vs \<Longrightarrow> lua_toboolean vs 1 \<Longrightarrow> loaded g (Suc m) n1" by blast
  note c1 = c [unfolded r1 n1(1) rbind_simps option.case call.case prod.case]
  show ?case
  proof (cases ret)
    case (LuaReturns y vs)
    show ?thesis
    proof (cases "lua_toboolean vs 1")
      case True
      then have "emit_sends h s sends n1 = Inr r" using c1 LuaReturns by simp
      from Cons.IH [OF n1(2) [OF LuaReturns True] this] show ?thesis by simp
    next
      case False
      then show ?thesis using c1 LuaReturns by (auto elim: rbind_InrE)
    qed
  qed (use c1 in auto)
qed auto

lemma emit_pending_loads:
  assumes "loaded g m n" and "\<forall>x \<in> set pend. local_stage g (fst x)" and "n_s g < 2 ^ 31"
    and "emit_pending h pend n = Inr r"
  shows "(\<exists>n'. r = Some (Goes_on n') \<and> loaded g (m + (\<Sum>x\<leftarrow>pend. length (snd x))) n') \<or> (\<exists>n'. r = Some (Run_error n'))"
  using assms(1,2,4)
proof (induction pend arbitrary: m n)
  case (Cons x pend)
  obtain s sends where x: "x = (s, sends)" by fastforce
  note c = Cons.prems(3) [unfolded x emit_pending.simps]
  obtain r1 where r1: "emit_sends h s sends n = Inr r1" by (rule rbind_InrE [OF c]) (rule that)
  have s: "local_stage g s" using Cons.prems(2) x by simp
  from emit_sends_loads [OF Cons.prems(1) s assms(3) r1] show ?case
  proof
    assume "\<exists>n'. r1 = Some (Goes_on n') \<and> loaded g (m + length sends) n'"
    then obtain n1 where n1: "r1 = Some (Goes_on n1)" "loaded g (m + length sends) n1" by blast
    then have "emit_pending h pend n1 = Inr r" using c r1 by simp
    from Cons.IH [OF n1(2) _ this] Cons.prems(2) x show ?thesis by (simp add: add.assoc)
  next
    assume "\<exists>n'. r1 = Some (Run_error n')"
    then show ?thesis using c r1 by auto
  qed
qed auto

lemma set_up_loaded:
  assumes "set_up g st mp = Inr n"
  shows "loaded g 0 n"
proof -
  obtain k where k: "instance_init g st (of_int mp) (- 1) = Inr k"
    "n = event_init_t (k\<lparr>kstats := stats_init (n_s g) (n_c g) (kstats k)\<rparr>)"
    using assms by (auto simp: set_up_def elim: rbind_InrE)
  let ?st = "stats_init (n_s g) (n_c g) (kstats k)" and ?k = "k\<lparr>kstats := stats_init (n_s g) (n_c g) (kstats k)\<rparr>"
  have i: "instance_init g ?st (of_int mp) (- 1) = Inr ?k"
    using k(1) by (auto simp: instance_init_def rbind_Inr_iff)
  have st: "nstages ?st = n_s g" by (simp add: stats_init_def)
  have "main_graph ?k = g" using k(1) by (auto simp: instance_init_def rbind_Inr_iff)
  moreover have "krep ?k (empty_pool ?k)" by (rule init_krep [OF i stats_wf_init st])
  moreover have "ready_cap (empty_pool ?k) < 0" using init_arrays(5) [OF i] by simp
  moreover have "out ?k (empty_pool ?k) {}"
    using calculation by (simp add: out_def work_conserving_def)
  ultimately show ?thesis using k(2) by (auto simp: loaded_def event_init_t_def load_def reaches_def intro!: exI [of _ "empty_pool ?k"])
qed

lemma find_callbacks_loaded:
  assumes "loaded g m n"
  shows "loaded g m (n\<lparr>kern := (kern n)\<lparr>kstats := find_callbacks ctl (kstats (kern n))\<rparr>\<rparr>)"
proof -
  let ?k = "(kern n)\<lparr>kstats := find_callbacks ctl (kstats (kern n))\<rparr>"
  have same: "same_count (kern n) ?k" "insts ?k = insts (kern n)" by (simp_all add: same_count_def)
  have q: "qrep ?k p" if "qrep (kern n) p" for p
    using that by (simp add: qrep_def find_callbacks_def stats_wf_def)
  have "krep ?k p" if "krep (kern n) p" for p
    using krep_step [OF that same(1) q [OF krepD(1) [OF that]]] krepD(2) [OF that] by (simp add: owned_def live_def)
  moreover have "out ?k p {}" if "out (kern n) p {}" for p
    using same_out [OF that same(1) q [OF krepD(1) [OF outD(1) [OF that]]]] by simp
  ultimately show ?thesis using assms by (auto simp: loaded_def reaches_def)
qed


text \<open>One stage of this process with one pending send.\<close>

lemma wit_set_up: "set_up (wit_kgraph False) wit_kstats 2 = Inr (event_init_t wit_init)"
proof -
  have "stats_init 1 0 wit_kstats = wit_kstats" by (simp add: wit_kstats_def stats_init_def)
  moreover have "kstats wit_init = wit_kstats" by (simp add: wit_init_def wit_kernel_defs)
  ultimately have "wit_init\<lparr>kstats := stats_init (n_s (wit_kgraph False)) (n_c (wit_kgraph False)) (kstats wit_init)\<rparr> = wit_init"
    by (simp add: wit_kgraph_def)
  then show ?thesis using wit_init(1) by (simp add: set_up_def)
qed


text \<open>
  \<open>leda_send\<close> lets the id equal to the number of stages through, as the getters of the graph do:
  reading that stage is outside of the array.
\<close>

lemma send_stage_bound:
  assumes "length (g_s (main_graph (kern n))) = n_s (main_graph (kern n))" and "n_s (main_graph (kern n)) < 2 ^ 31"
  shows "leda_send e h (LInteger (int (n_s (main_graph (kern n)))) # args) n = Inl OutOfBounds"
proof -
  let ?s = "int (n_s (main_graph (kern n)))"
  have "c_int (lua_tointeger (conv e) (LInteger ?s # xs) 1) = ?s" for xs using assms(2) by (simp add: lua_index_def)
  then show ?thesis
    using assms by (simp add: leda_send_def emmit_def STAGE_def deref_slot_def array_get_def Let_def)
qed

end
