(* ===== verification/Leda_Shutdown.thy ===== *)
theory Leda_Shutdown
  imports Leda_Kernel
begin

text \<open>
  The end of \<open>leda_run\<close> (\<open>src/kernel/kernel.c\<close>) after the event base has stopped: statistics,
  queues and instances are released and the pooled connections closed (\<open>leda_event_end_t\<close>
  of event.c). The threads of the pool are taken to be idle by then; the code does not wait for them.
\<close>

section \<open>Closing the connections\<close>

partial_function (option) close_loop :: "int LFQueue \<Rightarrow> int list \<Rightarrow> (int list \<times> int LFQueue) result option" where
  "close_loop q closed =
     (case queue_try_pop q of
        Inl f \<Rightarrow> Some (Inl f)
      | Inr (None, q) \<Rightarrow> Some (Inr (closed, q))
      | Inr (Some s, q) \<Rightarrow> close_loop q (closed @ [s]))"

fun close_sockets :: "int LFQueue list \<Rightarrow> int list \<Rightarrow> int list result option" where
  "close_sockets [] closed = Some (Inr closed)"
| "close_sockets (q # qs) closed =
     (case close_loop q closed of None \<Rightarrow> None | Some (Inl f) \<Rightarrow> Some (Inl f)
      | Some (Inr (closed, q)) \<Rightarrow> (case queue_free q of None \<Rightarrow> None | Some (Inl f) \<Rightarrow> Some (Inl f)
         | Some (Inr _) \<Rightarrow> close_sockets qs closed))"

definition leda_event_end_t :: "node \<Rightarrow> int list result option" where
  "leda_event_end_t n = close_sockets (sockets n) []"

text \<open>The released statistics and the closed descriptors; \<open>None\<close> when a loop does not end.\<close>

definition leda_run_end :: "sched \<Rightarrow> (stats \<times> int list) result option" where
  "leda_run_end s = (let n = nd s in
     case instance_end (kern n) of None \<Rightarrow> None | Some (Inl f) \<Rightarrow> Some (Inl f)
     | Some (Inr _) \<Rightarrow> (case leda_event_end_t n of None \<Rightarrow> None | Some (Inl f) \<Rightarrow> Some (Inl f)
        | Some (Inr closed) \<Rightarrow> Some (Inr (stats_free (kstats (kern n)), closed))))"

section \<open>The end is reached\<close>

lemma close_loop_rep: "rep q xs \<Longrightarrow> \<exists>q'. close_loop q closed = Some (Inr (closed @ xs, q')) \<and> rep q' []"
proof (induction xs arbitrary: q closed)
  case Nil
  then show ?case using try_pop_empty [OF Nil] by (auto simp: close_loop.simps)
next
  case (Cons x xs)
  from try_pop_ok [OF Cons.prems] obtain q' where "queue_try_pop q = Inr (Some x, q')" "rep q' xs" by blast
  with Cons.IH [of q' "closed @ [x]"] show ?case by (simp add: close_loop.simps [of q])
qed

lemma queue_free_ends: "rep q xs \<Longrightarrow> \<exists>q'. queue_free q = Some (Inr (xs, q'))"
  using free_loop_rep [of q xs "[]"] by (auto simp: queue_free_def)

lemma close_sockets_rep:
  "list_all2 rep qs xss \<Longrightarrow> close_sockets qs closed = Some (Inr (closed @ concat xss))"
proof (induction qs xss arbitrary: closed rule: list_all2_induct)
  case (Cons q qs xs xss)
  from close_loop_rep [OF Cons.hyps(1)] obtain q' where q': "close_loop q closed = Some (Inr (closed @ xs, q'))" "rep q' []"
    by blast
  from queue_free_ends [OF q'(2)] q'(1) Cons.IH show ?case by auto
qed simp

lemma instance_end_loop_ends:
  "\<forall>(r, e) \<in> set qs. (\<exists>xs. rep r xs) \<and> (\<exists>ys. rep e ys) \<Longrightarrow> instance_end_loop qs = Some (Inr ())"
proof (induction qs)
  case (Cons x qs)
  obtain r e where x: "x = (r, e)" by fastforce
  with Cons.prems obtain xs ys where "rep r xs" "rep e ys" by auto
  from queue_free_ends [OF this(1)] queue_free_ends [OF this(2)] Cons x show ?case by auto
qed simp

lemma instance_end_ends:
  assumes "krep k p"
  shows "instance_end k = Some (Inr ())"
proof -
  have q: "qrep k p" by (rule krepD(1) [OF assms])
  have "(\<exists>xs. rep r xs) \<and> (\<exists>ys. rep e ys)" if "(r, e) \<in> set (zip (recycle_queues k) (event_queues k))" for r e
    using q that by (auto simp: in_set_zip qrep_def)
  then have "instance_end_loop (zip (recycle_queues k) (event_queues k)) = Some (Inr ())"
    by (intro instance_end_loop_ends) auto
  moreover have "rep (ready_queue k) (ready p)" using q by (simp add: qrep_def)
  then obtain q' where "queue_free (ready_queue k) = Some (Inr (ready p, q'))" using queue_free_ends by blast
  ultimately show ?thesis by (simp add: instance_end_def)
qed

text \<open>
  C32. The kernel comes to its end: whatever waits in its queues, on queues in order the
  release of the instances and of the connections ends, and closes every pooled connection
  exactly once, process by process, oldest first.
\<close>

theorem run_end_closes_connections:
  assumes "krep (kern (nd s)) p" and "list_all2 rep (sockets (nd s)) conns"
  shows "leda_run_end s = Some (Inr (stats_free (kstats (kern (nd s))), concat conns))"
  using instance_end_ends [OF assms(1)] close_sockets_rep [OF assms(2), of "[]"]
  by (simp add: leda_run_end_def leda_event_end_t_def Let_def)

text \<open>One process with the pooled connections 3 and 4.\<close>

theorem run_end_closes_connections_witness:
  "\<exists>q. rep q [3 :: int, 4] \<and> leda_run_end (leda_thread_init ((event_init_t wit_init)\<lparr>sockets := [q]\<rparr>)) =
     Some (Inr (stats_free (kstats wit_init), [3, 4]))"
proof -
  let ?q = "the (queue_new True) :: int LFQueue"
  have q0: "rep ?q []" "capacity ?q < 0" by (rule rep_new) (simp_all add: queue_new_def)
  from try_push_ok [OF q0(1) disjI1 [OF q0(2)], of 3] obtain q1 where q1: "rep q1 [3 :: int]" "capacity q1 < 0"
    using q0(2) by auto
  from try_push_ok [OF q1(1) disjI1 [OF q1(2)], of 4] obtain q where "rep q [3 :: int, 4]" by auto
  with run_end_closes_connections [of "leda_thread_init ((event_init_t wit_init)\<lparr>sockets := [q]\<rparr>)" "empty_pool wit_init" "[[3, 4]]"]
    wit_init_krep show ?thesis by (auto simp: leda_thread_init_def event_init_t_def)
qed

end
