(* ===== verification/Leda_Io.thy ===== *)
theory Leda_Io
  imports Leda_Lua
begin

text \<open>
  Files and kernel AIO (\<open>src/kernel/extra/leda-io.c\<close>): moving a \<open>FILE *\<close> from one Lua state
  to another, and the requests of asynchronous reads and writes. What the system calls answer is an
  argument.
\<close>

section \<open>File handles\<close>

text \<open>The userdata with the metatable of files, by address, with the \<open>FILE *\<close> each holds (0: closed).\<close>

record io_state =
  files :: "addr \<rightharpoonup> addr"
  next_file :: addr

definition tofile :: "io_state \<Rightarrow> lua_value list \<Rightarrow> nat \<Rightarrow> (addr \<times> addr) result" where
  "tofile w st i = (case lua_index st i of
     Some (LUserdata a) \<Rightarrow> (case files w a of None \<Rightarrow> Inl (LuaError ''FILE* expected'') | Some f \<Rightarrow> Inr (a, f))
   | _ \<Rightarrow> Inl (LuaError ''FILE* expected''))"

definition leda_wrap_io :: "lua_value list \<Rightarrow> io_state \<Rightarrow> (lua_value \<times> io_state) result" where
  "leda_wrap_io st w = rbind (tofile w st 1) (\<lambda>(a, f).
     Inr (LLightUserdata (of_nat f), w\<lparr>files := (files w)(a \<mapsto> 0)\<rparr>))"

definition leda_io_getfd :: "(addr \<Rightarrow> int) \<Rightarrow> lua_value list \<Rightarrow> io_state \<Rightarrow> lua_value result" where
  "leda_io_getfd fileno st w = rbind (tofile w st 1) (\<lambda>(a, f). if f = 0 then Inl NullDeref else Inr (LInteger (fileno f)))"

definition leda_unwrap_io :: "lua_value list \<Rightarrow> io_state \<Rightarrow> (lua_value list \<times> io_state) result" where
  "leda_unwrap_io st w = (case lua_index st 1 of
     Some (LLightUserdata p) \<Rightarrow> (let a = next_file w in
       Inr (if p \<noteq> 0 then [LUserdata a] else [], w\<lparr>files := (files w)(a \<mapsto> unat p), next_file := Suc a\<rparr>))
   | _ \<Rightarrow> Inl (LuaError ''Invalid parameter #1''))"

text \<open>The calls \<open>socket_flush\<close> makes on a duplicate of the descriptor (\<open>dup\<close>).\<close>

datatype sys_call = Shutdown int | Close int

definition socket_flush :: "(byte list \<Rightarrow> lua_Number option) \<Rightarrow> (int \<Rightarrow> int) \<Rightarrow> lua_value list \<Rightarrow> sys_call list" where
  "socket_flush conv dup st = (let nfd = dup (c_int (lua_tointeger conv st 1)) in [Shutdown nfd, Close nfd])"

section \<open>Asynchronous requests\<close>

text \<open>Descriptors are stored in 32 unsigned bits, the number of bytes in 64.\<close>

record iocb =
  aio_data :: addr
  aio_fildes :: nat
  aio_lio_opcode :: nat
  aio_reqprio :: int
  aio_buf :: addr
  aio_nbytes :: nat
  aio_offset :: int
  aio_flags :: nat
  aio_resfd :: nat

definition IOCB_CMD_PREAD :: nat where "IOCB_CMD_PREAD = 0"
definition IOCB_CMD_PWRITE :: nat where "IOCB_CMD_PWRITE = 1"
definition IOCB_FLAG_RESFD :: nat where "IOCB_FLAG_RESFD = 1"

definition asyio_prep_pread :: "int \<Rightarrow> addr \<Rightarrow> int \<Rightarrow> int \<Rightarrow> int \<Rightarrow> addr \<Rightarrow> iocb" where
  "asyio_prep_pread fd buf n off efd dat = \<lparr>aio_data = dat, aio_fildes = nat (fd mod 2 ^ 32), aio_lio_opcode = IOCB_CMD_PREAD,
     aio_reqprio = 0, aio_buf = buf, aio_nbytes = nat (n mod 2 ^ 64), aio_offset = off, aio_flags = IOCB_FLAG_RESFD, aio_resfd = nat (efd mod 2 ^ 32)\<rparr>"

definition asyio_prep_pwrite :: "int \<Rightarrow> addr \<Rightarrow> int \<Rightarrow> int \<Rightarrow> int \<Rightarrow> addr \<Rightarrow> iocb" where
  "asyio_prep_pwrite fd buf n off efd dat = \<lparr>aio_data = dat, aio_fildes = nat (fd mod 2 ^ 32), aio_lio_opcode = IOCB_CMD_PWRITE,
     aio_reqprio = 0, aio_buf = buf, aio_nbytes = nat (n mod 2 ^ 64), aio_offset = off, aio_flags = IOCB_FLAG_RESFD, aio_resfd = nat (efd mod 2 ^ 32)\<rparr>"

text \<open>
  The static variables of the file, with the requests the kernel has taken and the number of
  control blocks and pointers to them that are allocated.
\<close>

record aio_state =
  afd :: int
  ctx :: nat
  submitted :: "iocb list"
  aio_blocks :: nat

definition aio_start :: aio_state where
  "aio_start = \<lparr>afd = -1, ctx = 0, submitted = [], aio_blocks = 0\<rparr>"

text \<open>\<open>leda_aio_init\<close>: what \<open>eventfd\<close> returns, and \<open>io_setup\<close> with the context it fills in.\<close>

definition leda_aio_init :: "int \<Rightarrow> int \<times> nat \<Rightarrow> aio_state \<Rightarrow> int \<times> aio_state" where
  "leda_aio_init efd setup w = (let w = w\<lparr>afd := efd\<rparr> in
     if efd = -1 then (-1, w) else if fst setup \<noteq> 0 then (-1, w) else (efd, w\<lparr>ctx := snd setup\<rparr>))"

definition leda_aio_end :: "aio_state \<Rightarrow> sys_call list \<times> aio_state" where
  "leda_aio_end w = ([Close (afd w)], w\<lparr>afd := -1, ctx := 0\<rparr>)"

text \<open>Submitting one request: whether the two allocations work, where the file stands, the answer of \<open>io_submit\<close>.\<close>

definition aio_submit_one :: "(bool \<times> bool) \<Rightarrow> iocb \<Rightarrow> int \<Rightarrow> aio_state \<Rightarrow> int \<times> aio_state" where
  "aio_submit_one mallocs cb r w =
     (let w = w\<lparr>aio_blocks := aio_blocks w + of_bool (fst mallocs) + of_bool (snd mallocs)\<rparr> in
      if \<not> fst mallocs \<or> \<not> snd mallocs then (-1, w) else if r \<le> 0 then (-1, w) else (r, w\<lparr>submitted := submitted w @ [cb]\<rparr>))"

definition aio_submit_read :: "(bool \<times> bool) \<Rightarrow> int \<Rightarrow> int \<Rightarrow> int \<Rightarrow> addr \<Rightarrow> int \<Rightarrow> addr \<Rightarrow> aio_state \<Rightarrow> int \<times> aio_state" where
  "aio_submit_read mallocs off r fd buf n dat w = aio_submit_one mallocs (asyio_prep_pread fd buf n off (afd w) dat) r w"

definition aio_submit_write :: "(bool \<times> bool) \<Rightarrow> int \<Rightarrow> int \<Rightarrow> int \<Rightarrow> addr \<Rightarrow> int \<Rightarrow> addr \<Rightarrow> aio_state \<Rightarrow> int \<times> aio_state" where
  "aio_submit_write mallocs off r fd buf n dat w = aio_submit_one mallocs (asyio_prep_pwrite fd buf n off (afd w) dat) r w"

section \<open>Lemmas\<close>

text \<open>Every open file belongs to one handle.\<close>

definition io_wf :: "io_state \<Rightarrow> bool" where
  "io_wf w \<longleftrightarrow> (\<forall>a f. files w a = Some f \<longrightarrow> a < next_file w \<and> f < 2 ^ 64) \<and>
     (\<forall>a b f. files w a = Some f \<longrightarrow> files w b = Some f \<longrightarrow> f \<noteq> 0 \<longrightarrow> a = b)"

text \<open>Wrapping closes the handle, unwrapping the pointer opens another: the file has one handle all along.\<close>

lemma wrap_unwrap_moves:
  assumes wf: "io_wf w" and a: "files w a = Some f" "f \<noteq> 0"
  shows "\<exists>p w1 w2. leda_wrap_io [LUserdata a] w = Inr (LLightUserdata p, w1) \<and> io_wf w1 \<and> files w1 a = Some 0 \<and>
    leda_unwrap_io [LLightUserdata p] w1 = Inr ([LUserdata (next_file w1)], w2) \<and>
    io_wf w2 \<and> files w2 (next_file w1) = Some f \<and> (\<forall>b. files w2 b = Some f \<longrightarrow> b = next_file w1)"
proof -
  let ?w1 = "w\<lparr>files := (files w)(a \<mapsto> 0)\<rparr>" and ?p = "of_nat f :: 64 word"
  let ?w2 = "?w1\<lparr>files := (files ?w1)(next_file ?w1 \<mapsto> f), next_file := Suc (next_file ?w1)\<rparr>"
  have b: "f < 2 ^ 64" "a < next_file w" using wf a(1) by (auto simp: io_wf_def)
  have u: "unat ?p = f" using b(1) by (simp add: unat_of_nat)
  then have p: "?p \<noteq> 0" using a(2) by (metis unat_0)
  have one: "files w c = Some f \<Longrightarrow> c = a" for c using wf a unfolding io_wf_def by blast
  have n: "files w (next_file w) = None" using wf by (cases "files w (next_file w)") (auto simp: io_wf_def)
  have w1: "leda_wrap_io [LUserdata a] w = Inr (LLightUserdata ?p, ?w1)"
    using a by (simp add: leda_wrap_io_def tofile_def lua_index_def)
  have w2: "leda_unwrap_io [LLightUserdata ?p] ?w1 = Inr ([LUserdata (next_file ?w1)], ?w2)"
    using p u by (simp add: leda_unwrap_io_def lua_index_def Let_def)
  have wf1: "io_wf ?w1" using wf b(2) unfolding io_wf_def by (auto split: if_splits)
  have f1: "c = next_file ?w1" if "files ?w2 c = Some f" for c using that one a(2) by (auto split: if_splits)
  have f2: "x = y" if "files ?w2 x = Some g" "files ?w2 y = Some g" "g \<noteq> 0" for x y g
    using that wf one by (auto simp: io_wf_def split: if_splits)
  have f3: "x < next_file ?w2 \<and> g < 2 ^ 64" if "files ?w2 x = Some g" for x g
    using that wf b by (auto simp: io_wf_def less_Suc_eq split: if_splits)
  have w3: "io_wf ?w2" unfolding io_wf_def using f2 f3 by blast
  have "files ?w1 a = Some 0" "files ?w2 (next_file ?w1) = Some f" by simp_all
  then show ?thesis using w1 w2 wf1 w3 f1 by blast
qed

text \<open>A wrapped handle is asked for its descriptor without a test.\<close>

lemma getfd_after_wrap:
  "leda_wrap_io [LUserdata a] w = Inr (v, w1) \<Longrightarrow> leda_io_getfd fileno [LUserdata a] w1 = Inl NullDeref"
  by (auto simp: leda_wrap_io_def leda_io_getfd_def tofile_def lua_index_def split: option.splits)

text \<open>No control block is ever freed.\<close>

lemma submit_leaks:
  "aio_submit_read (True, True) off r fd buf n dat w = (x, w') \<Longrightarrow> aio_blocks w' = aio_blocks w + 2 \<and>
     (0 < r \<longrightarrow> x = r \<and> submitted w' = submitted w @ [asyio_prep_pread fd buf n off (afd w) dat])"
  by (auto simp: aio_submit_read_def aio_submit_one_def Let_def split: if_splits)

end
