(* ===== verification/Leda_Eventloop.thy ===== *)
theory Leda_Eventloop
  imports Leda_Shutdown Leda_Io
begin

text \<open>
  The main function of the event thread (\<open>event_main\<close>, \<open>src/kernel/event.c\<close>): what it registers
  with libevent before the loop, and what it releases when the loop has ended. The loop itself,
  which calls \<open>do_accept\<close>, \<open>do_read\<close> and the completion of I/O, is an argument.
\<close>

datatype registered = AioReady int | Accepting int

fun free_queues :: "'a LFQueue list \<Rightarrow> unit result option" where
  "free_queues [] = Some (Inr ())"
| "free_queues (q # qs) = (case queue_free q of None \<Rightarrow> None | Some (Inl f) \<Rightarrow> Some (Inl f) | Some (Inr _) \<Rightarrow> free_queues qs)"

definition event_main ::
  "int \<Rightarrow> bool \<Rightarrow> int \<Rightarrow> int \<times> nat \<Rightarrow> (registered list \<Rightarrow> node \<Rightarrow> node result) \<Rightarrow> node \<times> aio_state \<Rightarrow>
     (registered list \<times> sys_call list \<times> node \<times> aio_state) result option" where
  "event_main process_fd base efd setup dispatch nw = (case nw of (n, w) \<Rightarrow>
     if \<not> base then Some (Inr ([], [], n, w))
     else let (aio_fd, w) = leda_aio_init efd setup w; regs = [AioReady aio_fd, Accepting process_fd]
       in case dispatch regs n of
         Inl f \<Rightarrow> Some (Inl f)
       | Inr n \<Rightarrow> (case free_queues (sockets n) of
           None \<Rightarrow> None
         | Some (Inl f) \<Rightarrow> Some (Inl f)
         | Some (Inr _) \<Rightarrow> let (calls, w) = leda_aio_end w in Some (Inr (regs, calls, n, w))))"

lemma free_queues_end: "list_all2 rep qs xss \<Longrightarrow> free_queues qs = Some (Inr ())"
proof (induction qs xss rule: list_all2_induct)
  case (Cons q qs xs xss)
  from queue_free_ends [OF Cons.hyps(1)] Cons.IH show ?case by auto
qed simp

text \<open>When the loop returns, the thread releases the connection queues and ends.\<close>

lemma event_main_ends:
  assumes "dispatch [AioReady (fst (leda_aio_init efd setup w)), Accepting fd] n = Inr n'" and "list_all2 rep (sockets n') xss"
  shows "\<exists>w'. event_main fd True efd setup dispatch (n, w) =
     Some (Inr ([AioReady (fst (leda_aio_init efd setup w)), Accepting fd], [Close (afd (snd (leda_aio_init efd setup w)))], n', w'))"
  using assms(1) free_queues_end [OF assms(2)] by (simp add: event_main_def leda_aio_end_def split_beta Let_def)

text \<open>A failure of \<open>leda_aio_init\<close> is not noticed: an event for descriptor -1 is registered.\<close>

lemma failed_aio_registered:
  assumes "dispatch [AioReady (- 1), Accepting fd] n = Inl f"
  shows "event_main fd True (- 1) setup dispatch (n, w) = Some (Inl f)"
  using assms by (simp add: event_main_def leda_aio_init_def Let_def)

end
