(* ===== verification/Leda_Host.thy ===== *)
theory Leda_Host
  imports Leda_Api
begin

text \<open>
  The addresses of the host (\<open>leda_default_hostname\<close>, \<open>src/kernel/kernel.c\<close>). The list that
  \<open>getifaddrs\<close> returns and the text \<open>inet_ntop\<close> makes of an address are arguments.
\<close>

section \<open>\<open>leda_default_hostname\<close>\<close>

text \<open>An interface has an address of some family, or none at all: \<open>ifa_addr\<close> may be \<open>NULL\<close>.\<close>

datatype sockaddr = Inet "byte list" | Inet6 "byte list" | OtherFamily

record ifaddrs =
  ifa_name :: string
  ifa_addr :: "sockaddr option"

text \<open>\<open>lua_settable(L,-i)\<close>.\<close>

definition lua_settable :: "nat \<Rightarrow> lua_api \<Rightarrow> lua_api result" where
  "lua_settable i L = (case lstack L of
     v # Str k # st \<Rightarrow> rbind (at_top (i - 1) L) (\<lambda>o1. rbind (table_of o1 L) (\<lambda>(t, m).
       Inr (L\<lparr>lstack := st, ltabs := (ltabs L)(t \<mapsto> m(k \<mapsto> v))\<rparr>)))
   | _ \<Rightarrow> Inl OutOfBounds)"

definition add_interface :: "(sockaddr \<Rightarrow> string) \<Rightarrow> ifaddrs \<Rightarrow> lua_api \<Rightarrow> lua_api result" where
  "add_interface ntop ifa L = (case ifa_addr ifa of
     None \<Rightarrow> Inl NullDeref
   | Some (Inet a) \<Rightarrow> run [pushliteral (ifa_name ifa), pushliteral (ntop (Inet a)), lua_settable 4] L
   | Some (Inet6 a) \<Rightarrow> run [pushliteral (ifa_name ifa), pushliteral (ntop (Inet6 a)), lua_settable 3] L
   | Some OtherFamily \<Rightarrow> Inr L)"

definition leda_default_hostname :: "(sockaddr \<Rightarrow> string) \<Rightarrow> ifaddrs list \<Rightarrow> lua_api \<Rightarrow> lua_api result" where
  "leda_default_hostname ntop ifs = run [lua_newtable, lua_newtable, lua_newtable, for_each (add_interface ntop) ifs,
     lua_setfield 3 ''ipv6'', lua_setfield 2 ''ipv4'']"

section \<open>The tables of addresses\<close>

definition is_inet :: "ifaddrs \<Rightarrow> bool" where
  "is_inet ifa \<longleftrightarrow> (\<exists>a. ifa_addr ifa = Some (Inet a))"

definition is_inet6 :: "ifaddrs \<Rightarrow> bool" where
  "is_inet6 ifa \<longleftrightarrow> (\<exists>a. ifa_addr ifa = Some (Inet6 a))"

definition entries :: "(sockaddr \<Rightarrow> string) \<Rightarrow> ifaddrs list \<Rightarrow> (string \<times> lobj) list" where
  "entries ntop ifs = map (\<lambda>ifa. (ifa_name ifa, Str (ntop (the (ifa_addr ifa))))) ifs"

abbreviation inet_map :: "(sockaddr \<Rightarrow> string) \<Rightarrow> ifaddrs list \<Rightarrow> string \<rightharpoonup> lobj" where
  "inet_map ntop ifs \<equiv> map_of (rev (entries ntop (filter is_inet ifs)))"

abbreviation inet6_map :: "(sockaddr \<Rightarrow> string) \<Rightarrow> ifaddrs list \<Rightarrow> string \<rightharpoonup> lobj" where
  "inet6_map ntop ifs \<equiv> map_of (rev (entries ntop (filter is_inet6 ifs)))"

lemma map_add_rev_Cons: "m ++ map_of (rev ((k, v) # es)) = m(k \<mapsto> v) ++ map_of (rev es)"
  by (simp add: map_add_def fun_eq_iff split: option.split)

lemma inet_map_Cons:
  "ifa_addr ifa = Some (Inet a) \<Longrightarrow> m ++ inet_map ntop (ifa # ifs) = m(ifa_name ifa \<mapsto> Str (ntop (Inet a))) ++ inet_map ntop ifs"
  "ifa_addr ifa = Some (Inet a) \<Longrightarrow> inet6_map ntop (ifa # ifs) = inet6_map ntop ifs"
  "ifa_addr ifa = Some (Inet6 a) \<Longrightarrow> m ++ inet6_map ntop (ifa # ifs) = m(ifa_name ifa \<mapsto> Str (ntop (Inet6 a))) ++ inet6_map ntop ifs"
  "ifa_addr ifa = Some (Inet6 a) \<Longrightarrow> inet_map ntop (ifa # ifs) = inet_map ntop ifs"
  "ifa_addr ifa = Some OtherFamily \<Longrightarrow> inet_map ntop (ifa # ifs) = inet_map ntop ifs"
  "ifa_addr ifa = Some OtherFamily \<Longrightarrow> inet6_map ntop (ifa # ifs) = inet6_map ntop ifs"
  by (simp_all add: is_inet_def is_inet6_def entries_def map_add_rev_Cons del: rev.simps)

definition put_tables :: "addr \<Rightarrow> (string \<rightharpoonup> lobj) \<Rightarrow> addr \<Rightarrow> (string \<rightharpoonup> lobj) \<Rightarrow> lua_api \<Rightarrow> lua_api" where
  "put_tables t m u n L = L\<lparr>ltabs := (ltabs L)(t \<mapsto> m, u \<mapsto> n)\<rparr>"

lemma put_tables_put:
  "put_tables t m u n (L\<lparr>ltabs := (ltabs L)(t \<mapsto> x)\<rparr>) = put_tables t m u n L"
  "put_tables t m u n (L\<lparr>ltabs := (ltabs L)(u \<mapsto> x)\<rparr>) = put_tables t m u n L"
  by (cases L, simp add: put_tables_def fun_eq_iff)+

lemma interfaces_loop:
  assumes "\<forall>ifa \<in> set ifs. ifa_addr ifa \<noteq> None" and "lstack L = Tab t6 # Tab t4 # st" and "ltabs L t4 = Some m4"
    and "ltabs L t6 = Some m6" and "t4 \<noteq> t6"
  shows "for_each (add_interface ntop) ifs L = Inr (put_tables t4 (m4 ++ inet_map ntop ifs) t6 (m6 ++ inet6_map ntop ifs) L)"
  using assms
proof (induction ifs arbitrary: L m4 m6)
  case Nil
  then show ?case by (simp add: entries_def fun_upd_idem put_tables_def)
next
  case (Cons ifa ifs)
  note p = Cons.prems
  from p(1) obtain sa where sa: "ifa_addr ifa = Some sa" by auto
  have ifs: "\<forall>ifa \<in> set ifs. ifa_addr ifa \<noteq> None" using p(1) by simp
  show ?case
  proof (cases sa)
    case (Inet a)
    note s = sa [unfolded Inet]
    let ?m = "m4(ifa_name ifa \<mapsto> Str (ntop (Inet a)))"
    let ?L = "L\<lparr>ltabs := (ltabs L)(t4 \<mapsto> ?m)\<rparr>"
    have "add_interface ntop ifa L = Inr ?L"
      using p(2-4) by (simp add: add_interface_def s run_steps run_one lua_settable_def at_top_def table_of_def)
    moreover have "for_each (add_interface ntop) ifs ?L = Inr (put_tables t4 (?m ++ inet_map ntop ifs) t6 (m6 ++ inet6_map ntop ifs) ?L)"
      using p by (intro Cons.IH [of ?L ?m m6, OF ifs]) (simp_all add: fun_upd_def)
    ultimately show ?thesis unfolding inet_map_Cons(1,2) [OF s] by (simp only: for_each.simps rbind_simps put_tables_put)
  next
    case (Inet6 a)
    note s = sa [unfolded Inet6]
    let ?m = "m6(ifa_name ifa \<mapsto> Str (ntop (Inet6 a)))"
    let ?L = "L\<lparr>ltabs := (ltabs L)(t6 \<mapsto> ?m)\<rparr>"
    have "add_interface ntop ifa L = Inr ?L"
      using p(2-4) by (simp add: add_interface_def s run_steps run_one lua_settable_def at_top_def table_of_def)
    moreover have "for_each (add_interface ntop) ifs ?L = Inr (put_tables t4 (m4 ++ inet_map ntop ifs) t6 (?m ++ inet6_map ntop ifs) ?L)"
      using p by (intro Cons.IH [of ?L m4 ?m, OF ifs]) (simp_all add: fun_upd_def)
    ultimately show ?thesis unfolding inet_map_Cons(3,4) [OF s] by (simp only: for_each.simps rbind_simps put_tables_put)
  next
    case OtherFamily
    note s = sa [unfolded OtherFamily]
    show ?thesis unfolding inet_map_Cons(5,6) [OF s] using Cons.IH [OF ifs p(2-5)] by (simp add: add_interface_def s)
  qed
qed

text \<open>
  When every interface has an address, \<open>leda_default_hostname\<close> leaves one new table on the stack with
  two fields: \<open>ipv4\<close> is a table that gives for the name of an interface its last IPv4 address, \<open>ipv6\<close>
  the same for IPv6; and no other table has changed.
\<close>

theorem hostname_lists_addresses:
  assumes "\<forall>ifa \<in> set ifs. ifa_addr ifa \<noteq> None"
  shows "\<exists>L'. leda_default_hostname ntop ifs L = Inr L' \<and> lstack L' = Tab (lnext L) # lstack L \<and>
     ltabs L' = (ltabs L)(
       lnext L \<mapsto> [''ipv4'' \<mapsto> Tab (lnext L + 1), ''ipv6'' \<mapsto> Tab (lnext L + 2)],
       lnext L + 1 \<mapsto> inet_map ntop ifs, lnext L + 2 \<mapsto> inet6_map ntop ifs)"
proof -
  have loop: "run (for_each (add_interface ntop) ifs # cs) K = run cs (K\<lparr>ltabs := (ltabs K)(
     t4 \<mapsto> inet_map ntop ifs, t6 \<mapsto> inet6_map ntop ifs)\<rparr>)"
    if "lstack K = Tab t6 # Tab t4 # st" "ltabs K t4 = Some Map.empty" "ltabs K t6 = Some Map.empty" "t4 \<noteq> t6" for K t4 t6 st cs
    using interfaces_loop [OF assms that, of ntop] by (simp add: run.simps put_tables_def)
  have three: "run (lua_setfield 3 k # cs) K = run cs (K\<lparr>lstack := w # Tab t # st, ltabs := (ltabs K)(t \<mapsto> m(k \<mapsto> v))\<rparr>)"
    if "lstack K = v # w # Tab t # st" "ltabs K t = Some m" for K k v w t st m cs
    using that by (simp add: lua_setfield_def at_top_def table_of_def set_in_def run.simps)
  show ?thesis unfolding leda_default_hostname_def
    by (simp add: run_steps loop three fun_upd_twist)
qed

text \<open>An interface without an address stops the process.\<close>

lemma hostname_null_address:
  assumes "ifa_addr ifa = None"
  shows "leda_default_hostname ntop (ifa # ifs) L = Inl NullDeref"
  using assms by (simp add: leda_default_hostname_def run_steps run.simps(2) [of "for_each f is" for f "is"] add_interface_def)

theorem hostname_lists_addresses_witness:
  "\<exists>L'. leda_default_hostname (\<lambda>_. ''10.0.0.1'') [\<lparr>ifa_name = ''lo'', ifa_addr = Some OtherFamily\<rparr>, \<lparr>ifa_name = ''eth0'', ifa_addr = Some (Inet [])\<rparr>] wit_api
     = Inr L' \<and> lstack L' = [Tab 4] \<and> ltabs L' 5 = Some [''eth0'' \<mapsto> Str ''10.0.0.1''] \<and> ltabs L' 6 = Some Map.empty"
proof -
  have f: "lnext wit_api = 4" "lstack wit_api = []" by (simp_all add: wit_api_def)
  from hostname_lists_addresses [of "[\<lparr>ifa_name = ''lo'', ifa_addr = Some OtherFamily\<rparr>, \<lparr>ifa_name = ''eth0'', ifa_addr = Some (Inet [])\<rparr>]"
      "\<lambda>_. ''10.0.0.1''" wit_api]
  show ?thesis unfolding f by (auto simp: entries_def is_inet_def is_inet6_def)
qed

end
