(* ===== verification/Leda_Memory.thy ===== *)
theory Leda_Memory
  imports Leda_Lua
begin

text \<open>
  The C heap as the memory arrays use it: bytes at addresses, the live blocks that
  \<open>malloc\<close> returned with their sizes, and the faults of \<open>free\<close>, reads and writes.
  Addresses are not reused, so a stale pointer never becomes valid again.
\<close>

record c_memory =
  cells :: "addr \<rightharpoonup> byte"
  blocks :: "addr \<rightharpoonup> nat"
  mbrk :: addr

definition mem_init :: c_memory where
  "mem_init = \<lparr>cells = Map.empty, blocks = Map.empty, mbrk = 16\<rparr>"

definition mem_ok :: "c_memory \<Rightarrow> addr \<Rightarrow> nat \<Rightarrow> bool" where
  "mem_ok m a n \<longleftrightarrow> list_all (\<lambda>i. cells m (a + i) \<noteq> None) [0..<n]"

definition mem_fault :: "addr \<Rightarrow> c_fault" where
  "mem_fault a = (if a = 0 then NullDeref else OutOfBounds)"

definition mem_bytes :: "c_memory \<Rightarrow> addr \<Rightarrow> nat \<Rightarrow> byte list" where
  "mem_bytes m a n = map (\<lambda>i. the (cells m (a + i))) [0..<n]"

definition mem_read :: "c_memory \<Rightarrow> addr \<Rightarrow> nat \<Rightarrow> byte list result" where
  "mem_read m a n = (if mem_ok m a n then Inr (mem_bytes m a n) else Inl (mem_fault a))"

definition mem_put :: "addr \<Rightarrow> byte list \<Rightarrow> c_memory \<Rightarrow> c_memory" where
  "mem_put a bs m = m\<lparr>cells := (\<lambda>x. if a \<le> x \<and> x < a + length bs then Some (bs ! (x - a)) else cells m x)\<rparr>"

definition mem_write :: "addr \<Rightarrow> byte list \<Rightarrow> c_memory \<Rightarrow> c_memory result" where
  "mem_write a bs m = (if mem_ok m a (length bs) then Inr (mem_put a bs m) else Inl (mem_fault a))"

text \<open>
  \<open>malloc\<close> fails when the system has no memory (\<open>ok\<close>) or no address range is left;
  the contents of a new block are arbitrary (\<open>junk\<close>).
\<close>

definition mem_alloc :: "bool \<Rightarrow> (nat \<Rightarrow> byte) \<Rightarrow> nat \<Rightarrow> c_memory \<Rightarrow> addr \<times> c_memory" where
  "mem_alloc ok junk n m = (let a = mbrk m in
     if ok \<and> a + n + 16 < 2 ^ 64
     then (a, (mem_put a (map junk [0..<n]) m)\<lparr>blocks := (blocks m)(a \<mapsto> n), mbrk := a + n + 16\<rparr>)
     else (0, m))"

definition mem_free :: "addr \<Rightarrow> c_memory \<Rightarrow> c_memory result" where
  "mem_free a m = (if a = 0 then Inr m else case blocks m a of
     None \<Rightarrow> Inl UseAfterFree
   | Some n \<Rightarrow> Inr (m\<lparr>cells := (\<lambda>x. if a \<le> x \<and> x < a + n then None else cells m x), blocks := (blocks m)(a := None)\<rparr>))"

section \<open>Laws\<close>

lemma mem_ok_iff: "mem_ok m a n \<longleftrightarrow> (\<forall>i < n. cells m (a + i) \<noteq> None)"
  by (auto simp: mem_ok_def list_all_iff)

lemma mem_ok_0 [simp]: "mem_ok m a 0"
  by (simp add: mem_ok_def)

lemma length_mem_bytes [simp]: "length (mem_bytes m a n) = n"
  by (simp add: mem_bytes_def)

lemma mem_ok_sub: "mem_ok m a n \<Longrightarrow> o1 + k \<le> n \<Longrightarrow> mem_ok m (a + o1) k"
  by (auto simp: mem_ok_iff add.assoc)

lemma mem_put_fields [simp]: "blocks (mem_put a bs m) = blocks m" "mbrk (mem_put a bs m) = mbrk m"
  by (simp_all add: mem_put_def)

lemma mem_put_ok: "mem_ok m b n \<Longrightarrow> mem_ok (mem_put a bs m) b n"
  by (auto simp: mem_ok_iff mem_put_def)

lemma mem_put_same: "length bs = n \<Longrightarrow> mem_bytes (mem_put a bs m) a n = bs"
  by (rule nth_equalityI) (simp_all add: mem_bytes_def mem_put_def)

lemma mem_put_other:
  "b + n \<le> a \<or> a + length bs \<le> b \<Longrightarrow> mem_bytes (mem_put a bs m) b n = mem_bytes m b n"
  by (auto simp: mem_bytes_def mem_put_def)

lemma mem_bytes_sub: "o1 + k \<le> n \<Longrightarrow> mem_bytes m (a + o1) k = take k (drop o1 (mem_bytes m a n))"
  by (rule nth_equalityI) (simp_all add: mem_bytes_def add.assoc)

lemma mem_put_self: "mem_ok m a n \<Longrightarrow> mem_put a (mem_bytes m a n) m = m"
proof -
  assume ok: "mem_ok m a n"
  have "(if a \<le> x \<and> x < a + n then Some (mem_bytes m a n ! (x - a)) else cells m x) = cells m x" for x
  proof (cases "a \<le> x \<and> x < a + n")
    case True
    then have "x - a < n" "a + (x - a) = x" by auto
    with ok have "cells m x \<noteq> None" unfolding mem_ok_iff by metis
    with True \<open>x - a < n\<close> \<open>a + (x - a) = x\<close> show ?thesis by (auto simp: mem_bytes_def)
  qed auto
  then show ?thesis by (simp add: mem_put_def)
qed

text \<open>
  What a client needs of a memory: bytes written are read back, and a write leaves the regions
  apart from it alone. A sequence of writes to regions apart from each other then leaves in
  every region what was written there.
\<close>

locale byte_store =
  fixes ok :: "'m \<Rightarrow> addr \<Rightarrow> nat \<Rightarrow> bool"
    and get :: "'m \<Rightarrow> addr \<Rightarrow> nat \<Rightarrow> byte list"
    and put :: "addr \<Rightarrow> byte list \<Rightarrow> 'm \<Rightarrow> 'm"
  assumes put_ok: "ok m b n \<Longrightarrow> ok (put a bs m) b n"
    and get_same: "length bs = n \<Longrightarrow> get (put a bs m) a n = bs"
    and get_apart: "b + n \<le> a \<or> a + length bs \<le> b \<Longrightarrow> get (put a bs m) b n = get m b n"
begin

definition puts :: "(addr \<times> byte list) list \<Rightarrow> 'm \<Rightarrow> 'm" where
  "puts ws m = fold (\<lambda>(a, bs). put a bs) ws m"

definition apart :: "addr \<times> byte list \<Rightarrow> addr \<times> byte list \<Rightarrow> bool" where
  "apart x y \<longleftrightarrow> fst x + length (snd x) \<le> fst y \<or> fst y + length (snd y) \<le> fst x"

lemma puts_ok: "ok m b n \<Longrightarrow> ok (puts ws m) b n"
  by (induction ws arbitrary: m) (auto simp: puts_def put_ok)

lemma puts_apart:
  "\<forall>w \<in> set ws. b + n \<le> fst w \<or> fst w + length (snd w) \<le> b \<Longrightarrow> get (puts ws m) b n = get m b n"
  by (induction ws arbitrary: m) (auto simp: puts_def get_apart)

lemma puts_get:
  assumes "sorted_wrt apart ws" and "(a, bs) \<in> set ws"
  shows "get (puts ws m) a (length bs) = bs"
  using assms
proof (induction ws arbitrary: m)
  case (Cons w ws)
  have step: "puts (w # ws) m = puts ws (put (fst w) (snd w) m)" by (simp add: puts_def split: prod.splits)
  show ?case
  proof (cases "w = (a, bs)")
    case True
    then have "\<forall>x \<in> set ws. a + length bs \<le> fst x \<or> fst x + length (snd x) \<le> a"
      using Cons.prems(1) by (auto simp: apart_def)
    from puts_apart [OF this] step True show ?thesis by (simp add: get_same)
  next
    case False
    with Cons step show ?thesis by auto
  qed
qed simp

end

interpretation heap: byte_store mem_ok mem_bytes mem_put
  by unfold_locales (simp_all add: mem_put_ok mem_put_same mem_put_other)

text \<open>
  The heap is in order: every live block is allocated below the break, and blocks
  do not overlap.
\<close>

definition mem_wf :: "c_memory \<Rightarrow> bool" where
  "mem_wf m \<longleftrightarrow> 0 < mbrk m \<and> mbrk m < 2 ^ 64 \<and>
     (\<forall>a n. blocks m a = Some n \<longrightarrow> 0 < a \<and> a + n < mbrk m \<and> mem_ok m a n) \<and>
     (\<forall>a n b k. blocks m a = Some n \<longrightarrow> blocks m b = Some k \<longrightarrow> a \<noteq> b \<longrightarrow> a + n \<le> b \<or> b + k \<le> a)"

lemma mem_wf_init: "mem_wf mem_init"
  by (simp add: mem_wf_def mem_init_def)

lemma mem_wfD:
  assumes "mem_wf m" and "blocks m a = Some n"
  shows "0 < a" and "a + n < mbrk m" and "mem_ok m a n" and "a + n < 2 ^ 64"
  using assms by (fastforce simp: mem_wf_def)+

lemma mem_wf_apart:
  "mem_wf m \<Longrightarrow> blocks m a = Some n \<Longrightarrow> blocks m b = Some k \<Longrightarrow> a \<noteq> b \<Longrightarrow> a + n \<le> b \<or> b + k \<le> a"
  unfolding mem_wf_def by blast

lemma mem_wf_put: "mem_wf m \<Longrightarrow> mem_wf (mem_put a bs m)"
  unfolding mem_wf_def by (simp add: mem_put_ok)

lemma mem_wf_alloc:
  assumes "mem_wf m" and "mem_alloc ok junk n m = (a, m')" and "a \<noteq> 0"
  shows "mem_wf m'" and "blocks m' = (blocks m)(a \<mapsto> n)" and "blocks m a = None"
    and "\<And>b k. blocks m b = Some k \<Longrightarrow> mem_bytes m' b k = mem_bytes m b k"
proof -
  let ?b = "mbrk m"
  have a: "a = ?b" "?b + n + 16 < 2 ^ 64"
    and m': "m' = (mem_put ?b (map junk [0..<n]) m)\<lparr>blocks := (blocks m)(?b \<mapsto> n), mbrk := ?b + n + 16\<rparr>"
    using assms(2,3) by (auto simp: mem_alloc_def Let_def split: if_splits)
  show none: "blocks m a = None" using mem_wfD(2) [OF assms(1), of a] a(1) by (cases "blocks m a") auto
  show bl: "blocks m' = (blocks m)(a \<mapsto> n)" using m' a(1) by simp
  have cells: "cells m' = cells (mem_put ?b (map junk [0..<n]) m)" using m' by simp
  have ok: "mem_ok m' c k" if "mem_ok m c k" for c k using mem_put_ok [OF that] cells by (simp add: mem_ok_def)
  have new: "mem_ok m' a n" using cells a(1) by (simp add: mem_ok_iff mem_put_def)
  show "mem_wf m'"
    unfolding mem_wf_def
  proof (intro conjI allI impI)
    show "0 < mbrk m'" "mbrk m' < 2 ^ 64" using m' a(2) by simp_all
    fix c k assume c: "blocks m' c = Some k"
    then have "c = a \<and> k = n \<or> c \<noteq> a \<and> blocks m c = Some k" using bl by (auto split: if_splits)
    then show "0 < c" "c + k < mbrk m'" "mem_ok m' c k"
      using mem_wfD [OF assms(1), of c k] ok new m' a assms(3) by auto
    fix d l assume d: "blocks m' d = Some l" "c \<noteq> d"
    then have "d = a \<and> l = n \<or> d \<noteq> a \<and> blocks m d = Some l" using bl by (auto split: if_splits)
    then show "c + k \<le> d \<or> d + l \<le> c"
      using \<open>c = a \<and> k = n \<or> c \<noteq> a \<and> blocks m c = Some k\<close> d(2) mem_wf_apart [OF assms(1), of c k d l]
        mem_wfD(2) [OF assms(1), of c k] mem_wfD(2) [OF assms(1), of d l] a(1) by auto
  qed
  fix b k assume b: "blocks m b = Some k"
  then have "b + k \<le> ?b" using mem_wfD(2) [OF assms(1) b] by simp
  then have "mem_bytes (mem_put ?b (map junk [0..<n]) m) b k = mem_bytes m b k" by (intro mem_put_other) simp
  then show "mem_bytes m' b k = mem_bytes m b k" using cells by (simp add: mem_bytes_def)
qed

lemma mem_wf_free:
  assumes "mem_wf m" and "blocks m a = Some n"
  obtains m' where "mem_free a m = Inr m'" and "mem_wf m'" and "blocks m' = (blocks m)(a := None)"
    and "\<And>b k. blocks m b = Some k \<Longrightarrow> b \<noteq> a \<Longrightarrow> mem_bytes m' b k = mem_bytes m b k"
proof -
  let ?m = "m\<lparr>cells := (\<lambda>x. if a \<le> x \<and> x < a + n then None else cells m x), blocks := (blocks m)(a := None)\<rparr>"
  have f: "mem_free a m = Inr ?m" using assms(2) mem_wfD(1) [OF assms] by (simp add: mem_free_def)
  have keep: "cells ?m (b + i) = cells m (b + i)" if "blocks m b = Some k" "b \<noteq> a" "i < k" for b k i
    using mem_wf_apart [OF assms(1,2) that(1)] that(2,3) by auto
  have "mem_wf ?m"
    unfolding mem_wf_def
  proof (intro conjI allI impI)
    show "0 < mbrk ?m" "mbrk ?m < 2 ^ 64" using assms(1) by (simp_all add: mem_wf_def)
    fix c k assume c: "blocks ?m c = Some k"
    then have c': "blocks m c = Some k" "c \<noteq> a" by (auto split: if_splits)
    show "0 < c" "c + k < mbrk ?m" using mem_wfD [OF assms(1) c'(1)] by simp_all
    show "mem_ok ?m c k" using mem_wfD(3) [OF assms(1) c'(1)] keep [OF c'] by (simp add: mem_ok_iff)
    fix d l assume "blocks ?m d = Some l" "c \<noteq> d"
    then show "c + k \<le> d \<or> d + l \<le> c" using c' mem_wf_apart [OF assms(1) c'(1)] by (auto split: if_splits)
  qed
  moreover have "mem_bytes ?m b k = mem_bytes m b k" if "blocks m b = Some k" "b \<noteq> a" for b k
    using keep [OF that] by (simp add: mem_bytes_def)
  ultimately show thesis using that [OF f] by simp
qed

end
