(* ===== verification/Leda_Memarray.thy ===== *)
theory Leda_Memarray
  imports Leda_Memory
begin

text \<open>
  Memory arrays (\<open>src/kernel/extra/memarray.c\<close>): userdata that give Lua code typed
  access to C memory. The state is the C heap with the descriptors of the arrays; an
  operation takes the Lua stack of its call and returns what it leaves for Lua.
\<close>

section \<open>Item types\<close>

datatype memtype = TCHAR | TUCHAR | TSHORT | TUSHORT | TINT | TUINT | TLONG | TULONG | TFLOAT | TDOUBLE

fun type_name :: "memtype \<Rightarrow> string" where
  "type_name TCHAR = ''char''" | "type_name TUCHAR = ''uchar''"
| "type_name TSHORT = ''short''" | "type_name TUSHORT = ''ushort''"
| "type_name TINT = ''int''" | "type_name TUINT = ''uint''"
| "type_name TLONG = ''long''" | "type_name TULONG = ''ulong''"
| "type_name TFLOAT = ''float''" | "type_name TDOUBLE = ''double''"

fun type_size :: "memtype \<Rightarrow> nat" where
  "type_size TCHAR = 1" | "type_size TUCHAR = 1" | "type_size TSHORT = 2" | "type_size TUSHORT = 2"
| "type_size TINT = 4" | "type_size TUINT = 4" | "type_size TLONG = 8" | "type_size TULONG = 8"
| "type_size TFLOAT = 4" | "type_size TDOUBLE = 8"

definition m_types :: "memtype list" where
  "m_types = [TCHAR, TUCHAR, TSHORT, TUSHORT, TINT, TUINT, TLONG, TULONG, TFLOAT, TDOUBLE]"

definition get_memtype :: "byte list \<Rightarrow> memtype option" where
  "get_memtype typename = List.find (\<lambda>t. lit (type_name t) = c_string typename) m_types"

section \<open>Numbers in memory\<close>

text \<open>
  The conversions of a double to the integer types (x86-64: those to types of up to
  32 bits go through a 32-bit integer, a value out of range gives its most negative
  one; \<open>uint\<close> and \<open>long\<close> go through a 64-bit integer, \<open>ulong\<close> covers all 64 bits).
\<close>

definition num_to_int32 :: "lua_Number \<Rightarrow> int" where
  "num_to_int32 w = (case num_trunc w of None \<Rightarrow> - (2 ^ 31)
     | Some z \<Rightarrow> if - (2 ^ 31) \<le> z \<and> z < 2 ^ 31 then z else - (2 ^ 31))"

definition num_to_size :: "lua_Number \<Rightarrow> nat" where
  "num_to_size w = (case num_trunc w of
     None \<Rightarrow> if num_frac w = 0 \<and> \<not> num_neg w then 0 else 2 ^ 63
   | Some z \<Rightarrow> if z < 2 ^ 63 then nat (num_to_int w mod 2 ^ 64) else if z < 2 ^ 64 then nat z else 0)"

text \<open>Rounding to a float of 32 bits, ties to even, and widening, which is exact.\<close>

definition float_of_num :: "lua_Number \<Rightarrow> nat" where
  "float_of_num w =
     (let s = (if num_neg w then 2 ^ 31 else 0); e = num_exp w; f = num_frac w in
      if e = 2047 then s + 255 * 2 ^ 23 + (if f = 0 then 0 else 2 ^ 22 + f div 2 ^ 29 mod 2 ^ 22)
      else if e = 0 then s
      else if e < 897 then s + round_shift (2 ^ 52 + f) (29 + (897 - e))
      else s + min (255 * 2 ^ 23) ((e - 896) * 2 ^ 23 + (round_shift (2 ^ 52 + f) 29 - 2 ^ 23)))"

definition num_of_float :: "nat \<Rightarrow> lua_Number" where
  "num_of_float b =
     (let s = (if b div 2 ^ 31 mod 2 = 1 then 2 ^ 63 else 0); e = b div 2 ^ 23 mod 2 ^ 8; f = b mod 2 ^ 23 in
      of_nat (s +
        (if e = 255 then 2047 * 2 ^ 52 + (if f = 0 then 0 else 2 ^ 51 + f mod 2 ^ 22 * 2 ^ 29)
         else if e = 0 then (if f = 0 then 0 else (874 + ilog2 f) * 2 ^ 52 + (f - 2 ^ ilog2 f) * 2 ^ (52 - ilog2 f))
         else (e + 896) * 2 ^ 52 + f * 2 ^ 29)))"

fun item_bytes :: "memtype \<Rightarrow> lua_Number \<Rightarrow> byte list" where
  "item_bytes TCHAR w = le_bytes 1 (nat (num_to_int32 w mod 2 ^ 8))"
| "item_bytes TUCHAR w = le_bytes 1 (nat (num_to_int32 w mod 2 ^ 8))"
| "item_bytes TSHORT w = le_bytes 2 (nat (num_to_int32 w mod 2 ^ 16))"
| "item_bytes TUSHORT w = le_bytes 2 (nat (num_to_int32 w mod 2 ^ 16))"
| "item_bytes TINT w = le_bytes 4 (nat (num_to_int32 w mod 2 ^ 32))"
| "item_bytes TUINT w = le_bytes 4 (nat (num_to_int w mod 2 ^ 32))"
| "item_bytes TLONG w = le_bytes 8 (nat (num_to_int w mod 2 ^ 64))"
| "item_bytes TULONG w = le_bytes 8 (num_to_size w)"
| "item_bytes TFLOAT w = le_bytes 4 (float_of_num w)"
| "item_bytes TDOUBLE w = le_bytes 8 (unat w)"

fun item_number :: "memtype \<Rightarrow> byte list \<Rightarrow> lua_Number" where
  "item_number TCHAR bs = int_to_num (signed_take_bit 7 (int (le_val bs)))"
| "item_number TSHORT bs = int_to_num (signed_take_bit 15 (int (le_val bs)))"
| "item_number TINT bs = int_to_num (signed_take_bit 31 (int (le_val bs)))"
| "item_number TLONG bs = int_to_num (signed_take_bit 63 (int (le_val bs)))"
| "item_number TFLOAT bs = num_of_float (le_val bs)"
| "item_number TDOUBLE bs = of_nat (le_val bs)"
| "item_number TUCHAR bs = int_to_num (int (le_val bs))"
| "item_number TUSHORT bs = int_to_num (int (le_val bs))"
| "item_number TUINT bs = int_to_num (int (le_val bs))"
| "item_number TULONG bs = int_to_num (int (le_val bs))"

declare item_bytes.simps [simp del] item_number.simps [simp del]

section \<open>Arrays\<close>

record memarray =
  m_size :: nat
  m_length :: nat
  mem_type :: memtype
  mem_inherited :: bool
  m_data :: addr

text \<open>The userdata that carry the metatable, by address, and what Lua gives besides.\<close>

record ma_state =
  memory :: c_memory
  arrays :: "addr \<rightharpoonup> memarray"
  next_ud :: addr

record ma_env =
  core :: lua_core
  malloc_ok :: bool
  junk :: "nat \<Rightarrow> byte"
  metafield :: "lua_value \<Rightarrow> lua_value"

definition ma_init :: ma_state where
  "ma_init = \<lparr>memory = mem_init, arrays = Map.empty, next_ud = 1\<rparr>"

definition new_memarray :: memarray where
  "new_memarray = \<lparr>m_size = 0, m_length = 0, mem_type = TCHAR, mem_inherited = True, m_data = 0\<rparr>"

text \<open>Arguments: \<open>luaL_optstring\<close>, \<open>luaL_checklstring\<close>, \<open>luaL_optnumber\<close>, \<open>luaL_checknumber\<close>.\<close>

definition bad_argument :: "'a result" where
  "bad_argument = Inl (LuaError ''bad argument'')"

definition arg_string :: "lua_core \<Rightarrow> lua_value list \<Rightarrow> nat \<Rightarrow> byte list option \<Rightarrow> byte list result" where
  "arg_string c st i dflt = (case (case lua_index st i of None \<Rightarrow> LNil | Some v \<Rightarrow> v) of
     LString s \<Rightarrow> Inr s
   | LNumber n \<Rightarrow> Inr (number2str c n)
   | v \<Rightarrow> (case dflt of Some s \<Rightarrow> if v = LNil then Inr s else bad_argument | None \<Rightarrow> bad_argument))"

definition arg_number :: "lua_core \<Rightarrow> lua_value list \<Rightarrow> nat \<Rightarrow> lua_Number option \<Rightarrow> lua_Number result" where
  "arg_number c st i dflt = (let v = (case lua_index st i of None \<Rightarrow> LNil | Some v \<Rightarrow> v) in
     case value_number (str2number c) v of
       Some n \<Rightarrow> Inr n
     | None \<Rightarrow> (case dflt of Some n \<Rightarrow> if v = LNil then Inr n else bad_argument | None \<Rightarrow> bad_argument))"

definition check_lightuserdata :: "lua_value list \<Rightarrow> nat \<Rightarrow> addr result" where
  "check_lightuserdata st n = (case lua_index st n of
     Some (LLightUserdata p) \<Rightarrow> Inr (unat p) | _ \<Rightarrow> Inl (LuaError ''lightuserdata expected''))"

definition check_memarray :: "ma_state \<Rightarrow> lua_value list \<Rightarrow> nat \<Rightarrow> (addr \<times> memarray) result" where
  "check_memarray w st i = (case lua_index st i of
     Some (LUserdata a) \<Rightarrow> (case arrays w a of None \<Rightarrow> bad_argument | Some m \<Rightarrow> Inr (a, m))
   | _ \<Rightarrow> bad_argument)"

definition memarray_get :: "ma_state \<Rightarrow> lua_value list \<Rightarrow> nat \<Rightarrow> (addr \<times> memarray) result" where
  "memarray_get w st i = rbind (check_memarray w st i) (\<lambda>(a, m).
     if \<not> mem_inherited m \<and> m_data m = 0 then Inl (LuaError ''Data was invalidated'') else Inr (a, m))"

definition memarray_new :: "ma_state \<Rightarrow> addr \<times> ma_state" where
  "memarray_new w = (let a = next_ud w in (a, w\<lparr>arrays := (arrays w)(a \<mapsto> new_memarray), next_ud := Suc a\<rparr>))"

definition memarray_delete :: "addr \<Rightarrow> memarray \<Rightarrow> ma_state \<Rightarrow> ma_state result" where
  "memarray_delete a m w =
     rbind (if \<not> mem_inherited m \<and> m_data m \<noteq> 0 then mem_free (m_data m) (memory w) else Inr (memory w))
       (\<lambda>h. Inr (w\<lparr>memory := h, arrays := (arrays w)(a \<mapsto> new_memarray)\<rparr>))"

text \<open>The byte size is computed in a \<open>size_t\<close>.\<close>

definition total_size :: "nat \<Rightarrow> memtype \<Rightarrow> nat" where
  "total_size len t = len * type_size t mod 2 ^ 64"

text \<open>\<open>lua_touserdata\<close>: Lua's own blocks are not part of the memory modelled.\<close>

definition touserdata :: "lua_value list \<Rightarrow> nat \<Rightarrow> addr" where
  "touserdata st i = (case lua_index st i of
     Some (LLightUserdata p) \<Rightarrow> unat p | Some (LUserdata a) \<Rightarrow> a | _ \<Rightarrow> 0)"

definition array_at :: "memarray \<Rightarrow> nat \<Rightarrow> addr" where
  "array_at m i = (m_data m + i * type_size (mem_type m)) mod 2 ^ 64"

text \<open>
  \<open>Lrealloc\<close> may raise an error after it has changed the array, when no memory is
  left; every other error is raised before.
\<close>

datatype lua_out = Gives "lua_value list" | Raises string

definition renew_array ::
  "ma_env \<Rightarrow> addr \<Rightarrow> memarray \<Rightarrow> memtype \<Rightarrow> nat \<Rightarrow> lua_value list \<Rightarrow> ma_state \<Rightarrow> (lua_out \<times> ma_state) result" where
  "renew_array e a m t len st w = (let sz = total_size len t in
     rbind (memarray_delete a m w) (\<lambda>w.
     if length st > 3 then
       Inr (Gives (take 1 st), w\<lparr>arrays := (arrays w)(a \<mapsto> \<lparr>m_size = sz, m_length = len, mem_type = t,
         mem_inherited = True, m_data = touserdata st 4\<rparr>)\<rparr>)
     else let (p, h) = mem_alloc (malloc_ok e) (junk e) sz (memory w) in
       if sz \<noteq> 0 \<and> p = 0 then
         Inr (Raises ''memarray:__call(): memory allocation failure'',
           w\<lparr>arrays := (arrays w)(a \<mapsto> new_memarray\<lparr>mem_type := t\<rparr>)\<rparr>)
       else Inr (Gives (take 1 st), w\<lparr>memory := h, arrays := (arrays w)(a \<mapsto> \<lparr>m_size = sz, m_length = len,
         mem_type = t, mem_inherited = False, m_data = p\<rparr>)\<rparr>)))"

definition Lrealloc :: "ma_env \<Rightarrow> lua_value list \<Rightarrow> ma_state \<Rightarrow> (lua_out \<times> ma_state) result" where
  "Lrealloc e st w = rbind (memarray_get w st 1) (\<lambda>(a, m).
     let st = (if lua_type st 2 = LUA_TNUMBER \<and> length st = 2 then [st ! 0, LString (lit ''double''), st ! 1] else st) in
     rbind (arg_string (core e) st 2 (Some (lit ''uchar''))) (\<lambda>typename.
     case get_memtype typename of
       None \<Rightarrow> Inl (LuaError ''memarray:realloc(): unknown type'')
     | Some t \<Rightarrow> rbind (arg_number (core e) st 3 (Some 0)) (\<lambda>n. renew_array e a m t (num_to_size n) st w)))"

definition L__call :: "ma_env \<Rightarrow> lua_value list \<Rightarrow> ma_state \<Rightarrow> (lua_out \<times> ma_state) result" where
  "L__call e st w = (let (a, w) = memarray_new w in Lrealloc e (LUserdata a # drop 1 st) w)"

definition Lsizeof :: "ma_env \<Rightarrow> lua_value list \<Rightarrow> lua_value result" where
  "Lsizeof e st = rbind (arg_string (core e) st 1 None) (\<lambda>s. case get_memtype s of
     None \<Rightarrow> Inl (LuaError ''memarray:sizeof(): unknown type'') | Some t \<Rightarrow> Inr (LInteger (int (type_size t))))"

text \<open>
  \<open>Lmemcpy\<close> returns the topmost of its arguments. It copies as if the areas did not
  overlap, which C leaves undefined.
\<close>

definition byte_at :: "addr \<Rightarrow> lua_Number \<Rightarrow> addr" where
  "byte_at p z = nat ((int p + c_int (num_to_int z)) mod 2 ^ 64)"

definition Lmemcpy :: "ma_env \<Rightarrow> lua_value list \<Rightarrow> ma_state \<Rightarrow> (lua_value list \<times> ma_state) result" where
  "Lmemcpy e st w = rbind (check_lightuserdata st 1) (\<lambda>dst. rbind (check_lightuserdata st 2) (\<lambda>src.
     rbind (arg_number (core e) st 3 None) (\<lambda>n. rbind (arg_number (core e) st 4 (Some 0)) (\<lambda>o1.
     rbind (arg_number (core e) st 5 (Some 0)) (\<lambda>o2.
     rbind (mem_read (memory w) (byte_at src o1) (num_to_size n)) (\<lambda>bs.
     rbind (mem_write (byte_at dst o2) bs (memory w)) (\<lambda>h. Inr ([last st], w\<lparr>memory := h\<rparr>))))))))"

definition item_index :: "lua_Number \<Rightarrow> nat" where
  "item_index n = nat ((int (num_to_size n) - 1) mod 2 ^ 64)"

definition L__index :: "ma_env \<Rightarrow> lua_value list \<Rightarrow> ma_state \<Rightarrow> lua_value result" where
  "L__index e st w = rbind (memarray_get w st 1) (\<lambda>(a, m).
     case lua_index st 2 of
       Some (LNumber n) \<Rightarrow> let i = item_index n; k = type_size (mem_type m) in
         if i \<ge> m_length m then Inl (LuaError ''index out of range'')
         else rbind (mem_read (memory w) (array_at m i) k) (\<lambda>bs. Inr (LNumber (item_number (mem_type m) bs)))
     | Some v \<Rightarrow> Inr (metafield e (last st))
     | None \<Rightarrow> Inr LNil)"

definition L__newindex :: "ma_env \<Rightarrow> lua_value list \<Rightarrow> ma_state \<Rightarrow> ma_state result" where
  "L__newindex e st w = rbind (memarray_get w st 1) (\<lambda>(a, m).
     case lua_index st 2 of
       Some (LNumber n) \<Rightarrow> let i = item_index n;
           v = lua_tonumber (str2number (core e)) st 3 in
         if i \<ge> m_length m then Inl (LuaError ''index out of range'')
         else rbind (mem_write (array_at m i) (item_bytes (mem_type m) v) (memory w)) (\<lambda>h. Inr (w\<lparr>memory := h\<rparr>))
     | _ \<Rightarrow> Inl (LuaError ''memarray*:__newindex key must be number''))"

definition Lsize :: "lua_value list \<Rightarrow> ma_state \<Rightarrow> lua_value result" where
  "Lsize st w = rbind (memarray_get w st 1) (\<lambda>(a, m). Inr (LInteger (int (m_size m))))"

definition Llength :: "lua_value list \<Rightarrow> ma_state \<Rightarrow> lua_value result" where
  "Llength st w = rbind (memarray_get w st 1) (\<lambda>(a, m). Inr (LInteger (int (m_length m))))"

definition Lptr :: "ma_env \<Rightarrow> lua_value list \<Rightarrow> ma_state \<Rightarrow> lua_value result" where
  "Lptr e st w = rbind (memarray_get w st 1) (\<lambda>(a, m). rbind (arg_number (core e) st 2 (Some 0)) (\<lambda>n.
     let i = num_to_size n in
     if i \<ge> m_length m then Inl (LuaError ''index out of range'')
     else Inr (LLightUserdata (of_nat (m_data m + i * type_size (mem_type m))))))"

text \<open>The array gives its memory away, or takes memory over.\<close>

definition Lto_ptr :: "lua_value list \<Rightarrow> ma_state \<Rightarrow> (lua_value \<times> ma_state) result" where
  "Lto_ptr st w = rbind (memarray_get w st 1) (\<lambda>(a, m).
     Inr (LLightUserdata (of_nat (m_data m)), w\<lparr>arrays := (arrays w)(a \<mapsto> m\<lparr>m_data := 0\<rparr>)\<rparr>))"

definition Lfrom_ptr :: "ma_env \<Rightarrow> lua_value list \<Rightarrow> ma_state \<Rightarrow> (lua_value \<times> ma_state) result" where
  "Lfrom_ptr e st w =
     rbind (case lua_index st 2 of Some (LString s) \<Rightarrow> Inr s | Some (LNumber n) \<Rightarrow> Inr (number2str (core e) n)
       | _ \<Rightarrow> Inl NullDeref) (\<lambda>typename.
     case get_memtype typename of
       None \<Rightarrow> Inl (LuaError ''memarray:realloc(): unknown type'')
     | Some t \<Rightarrow> rbind (check_lightuserdata st 1) (\<lambda>p. let (a, w) = memarray_new w;
         len = num_to_size (lua_tonumber (str2number (core e)) st 3) in
         Inr (LUserdata a, w\<lparr>arrays := (arrays w)(a \<mapsto> \<lparr>m_size = total_size len t, m_length = len, mem_type = t,
           mem_inherited = False, m_data = p\<rparr>)\<rparr>)))"

definition L__gc :: "lua_value list \<Rightarrow> ma_state \<Rightarrow> ma_state result" where
  "L__gc st w = rbind (check_memarray w st 1) (\<lambda>(a, m). memarray_delete a m w)"

section \<open>Strings\<close>

definition Lto_str :: "lua_value list \<Rightarrow> ma_state \<Rightarrow> lua_value result" where
  "Lto_str st w = rbind (memarray_get w st 1) (\<lambda>(a, m).
     rbind (mem_read (memory w) (m_data m) (m_size m)) (\<lambda>bs. Inr (LString bs)))"

definition Lfrom_str :: "ma_env \<Rightarrow> lua_value list \<Rightarrow> ma_state \<Rightarrow> (lua_value list \<times> ma_state) result" where
  "Lfrom_str e st w = rbind (memarray_get w st 1) (\<lambda>(a, m). rbind (arg_string (core e) st 2 None) (\<lambda>s.
     if m_size m \<noteq> length s then Inl (LuaError ''memarray:to_str size mismatch'')
     else rbind (mem_write (m_data m) s (memory w)) (\<lambda>h. Inr (take 1 st, w\<lparr>memory := h\<rparr>))))"

text \<open>
  The loops that reverse the bytes of every item; the number of bytes they touch
  is the size rounded up to whole items.
\<close>

fun swap_items :: "nat \<Rightarrow> byte list \<Rightarrow> byte list" where
  "swap_items k bs = (if k = 0 \<or> bs = [] then [] else rev (take k bs) @ swap_items k (drop k bs))"

declare swap_items.simps [simp del]

definition whole_items :: "nat \<Rightarrow> nat \<Rightarrow> nat" where
  "whole_items k sz = (sz + k - 1) div k * k"

definition item_size :: "memarray \<Rightarrow> nat result" where
  "item_size m = (if m_length m = 0 then Inl DivByZero else Inr (m_size m div m_length m))"

definition Lto_netstr :: "lua_value list \<Rightarrow> ma_state \<Rightarrow> lua_value result" where
  "Lto_netstr st w = rbind (memarray_get w st 1) (\<lambda>(a, m). rbind (item_size m) (\<lambda>k.
     if k = 1 then rbind (mem_read (memory w) (m_data m) (m_size m)) (\<lambda>bs. Inr (LString bs))
     else if k \<in> {2, 4, 8} then
       rbind (mem_read (memory w) (m_data m) (whole_items k (m_size m))) (\<lambda>bs. Inr (LString (swap_items k bs)))
     else Inl (LuaError ''memarray:to_netstr(): unsupported item_size'')))"

definition Lfrom_netstr :: "ma_env \<Rightarrow> lua_value list \<Rightarrow> ma_state \<Rightarrow> ma_state result" where
  "Lfrom_netstr e st w = rbind (memarray_get w st 1) (\<lambda>(a, m). rbind (arg_string (core e) st 2 None) (\<lambda>s.
     if m_size m \<noteq> length s then Inl (LuaError ''memarray:to_netstr size mismatch'')
     else rbind (item_size m) (\<lambda>k.
       if k = 1 then rbind (mem_write (m_data m) s (memory w)) (\<lambda>h. Inr (w\<lparr>memory := h\<rparr>))
       else if k \<in> {2, 4, 8} then
         if whole_items k (m_size m) \<noteq> length s then Inl OutOfBounds
         else rbind (mem_write (m_data m) (swap_items k s) (memory w)) (\<lambda>h. Inr (w\<lparr>memory := h\<rparr>))
       else Inl (LuaError ''memarray:from_netstr(): unsupported item_size''))))"

definition Ltype :: "lua_value list \<Rightarrow> ma_state \<Rightarrow> lua_value result" where
  "Ltype st w = rbind (memarray_get w st 1) (\<lambda>(a, m). Inr (LString (lit (type_name (mem_type m)))))"

section \<open>The functions registered with Lua\<close>

datatype ma_fn = F__call | Fsizeof | Fmemcpy | Ffrom_ptr
  | F__index | F__newindex | F__gc | F__len | Fsize | Flength | Fptr | Fto_ptr | Fto_str | Ffrom_str
  | Fto_netstr | Ftype | Ffrom_netstr | Frealloc

definition ret :: "ma_state \<Rightarrow> lua_value result \<Rightarrow> (lua_out \<times> ma_state) result" where
  "ret w r = rbind r (\<lambda>v. Inr (Gives [v], w))"

fun ma_call :: "ma_env \<Rightarrow> ma_fn \<Rightarrow> lua_value list \<Rightarrow> ma_state \<Rightarrow> (lua_out \<times> ma_state) result" where
  "ma_call e F__call st w = L__call e st w"
| "ma_call e Fsizeof st w = ret w (Lsizeof e st)"
| "ma_call e Fmemcpy st w = rbind (Lmemcpy e st w) (\<lambda>(vs, w). Inr (Gives vs, w))"
| "ma_call e Ffrom_ptr st w = rbind (Lfrom_ptr e st w) (\<lambda>(v, w). Inr (Gives [v], w))"
| "ma_call e F__index st w = ret w (L__index e st w)"
| "ma_call e F__newindex st w = rbind (L__newindex e st w) (\<lambda>w. Inr (Gives [], w))"
| "ma_call e F__gc st w = rbind (L__gc st w) (\<lambda>w. Inr (Gives [], w))"
| "ma_call e F__len st w = ret w (Llength st w)"
| "ma_call e Fsize st w = ret w (Lsize st w)"
| "ma_call e Flength st w = ret w (Llength st w)"
| "ma_call e Fptr st w = ret w (Lptr e st w)"
| "ma_call e Fto_ptr st w = rbind (Lto_ptr st w) (\<lambda>(v, w). Inr (Gives [v], w))"
| "ma_call e Fto_str st w = ret w (Lto_str st w)"
| "ma_call e Ffrom_str st w = rbind (Lfrom_str e st w) (\<lambda>(vs, w). Inr (Gives vs, w))"
| "ma_call e Fto_netstr st w = ret w (Lto_netstr st w)"
| "ma_call e Ftype st w = ret w (Ltype st w)"
| "ma_call e Ffrom_netstr st w = rbind (Lfrom_netstr e st w) (\<lambda>w. Inr (Gives [], w))"
| "ma_call e Frealloc st w = Lrealloc e st w"

end
