(* ===== verification/Leda_Memarray_Safe.thy ===== *)
theory Leda_Memarray_Safe
  imports Leda_Memarray
begin

text \<open>
  Memory safety of the memory arrays: the state is well typed (an array that owns
  memory owns a live block of exactly its size, alone), every registered function keeps
  it so and, on such a state, raises nothing but Lua errors. The conditions on the calls
  are those the code leaves to the Lua program: a size that fits a \<open>size_t\<close>, addresses
  that are what the program says.
\<close>

section \<open>Well-typed states\<close>

definition owns :: "memarray \<Rightarrow> bool" where
  "owns m \<longleftrightarrow> \<not> mem_inherited m \<and> m_data m \<noteq> 0"

definition array_ok :: "c_memory \<Rightarrow> memarray \<Rightarrow> bool" where
  "array_ok h m \<longleftrightarrow>
     (mem_inherited m \<longrightarrow> m_size m = 0 \<and> m_length m = 0) \<and>
     (owns m \<longrightarrow> blocks h (m_data m) = Some (m_size m) \<and> m_size m = m_length m * type_size (mem_type m))"

definition ma_wf :: "ma_state \<Rightarrow> bool" where
  "ma_wf w \<longleftrightarrow> mem_wf (memory w) \<and>
     (\<forall>a m. arrays w a = Some m \<longrightarrow> a < next_ud w \<and> array_ok (memory w) m) \<and>
     (\<forall>a b m n. arrays w a = Some m \<longrightarrow> arrays w b = Some n \<longrightarrow> a \<noteq> b \<longrightarrow> owns m \<longrightarrow> owns n \<longrightarrow> m_data m \<noteq> m_data n)"

lemma ma_wf_init: "ma_wf ma_init"
  by (simp add: ma_wf_def ma_init_def mem_wf_init)

lemma ma_wfD:
  assumes "ma_wf w"
  shows "mem_wf (memory w)" and "\<And>a m. arrays w a = Some m \<Longrightarrow> array_ok (memory w) m"
    and "\<And>a m. arrays w a = Some m \<Longrightarrow> a < next_ud w"
    and "\<And>a b m n. arrays w a = Some m \<Longrightarrow> arrays w b = Some n \<Longrightarrow> owns m \<Longrightarrow> owns n \<Longrightarrow>
      m_data m = m_data n \<Longrightarrow> a = b"
  using assms unfolding ma_wf_def by blast+

lemma type_size_pos [simp]: "0 < type_size t"
  by (cases t) simp_all

lemma type_size_range: "type_size t \<in> {1, 2, 4, 8}"
  by (cases t) simp_all

lemma owns_new [simp]: "\<not> owns new_memarray" "\<not> owns (new_memarray\<lparr>mem_type := t\<rparr>)"
  by (simp_all add: owns_def new_memarray_def)

lemma array_ok_new [simp]: "array_ok h new_memarray" "array_ok h (new_memarray\<lparr>mem_type := t\<rparr>)"
  by (simp_all add: array_ok_def owns_def new_memarray_def)

lemma array_ok_blocks: "blocks h = blocks h' \<Longrightarrow> array_ok h m = array_ok h' m"
  by (simp add: array_ok_def)

text \<open>Writing bytes changes no array.\<close>

lemma ma_wf_put: "ma_wf w \<Longrightarrow> ma_wf (w\<lparr>memory := mem_put a bs (memory w)\<rparr>)"
  unfolding ma_wf_def by (auto simp: mem_wf_put array_ok_def)

text \<open>Setting the descriptor of an array: to one that owns nothing, or to the only owner of a block.\<close>

lemma ma_wf_set:
  assumes "ma_wf w" and "a < next_ud w" and "array_ok (memory w) m"
    and "\<And>b n. owns m \<Longrightarrow> arrays w b = Some n \<Longrightarrow> b \<noteq> a \<Longrightarrow> owns n \<Longrightarrow> m_data n \<noteq> m_data m"
  shows "ma_wf (w\<lparr>arrays := (arrays w)(a \<mapsto> m)\<rparr>)"
proof -
  have "m_data k \<noteq> m_data n" if "((arrays w)(a \<mapsto> m)) b = Some k" "((arrays w)(a \<mapsto> m)) c = Some n"
    "b \<noteq> c" "owns k" "owns n" for b c k n
    using that assms(4) ma_wfD(4) [OF assms(1), of b k c n] by (metis fun_upd_apply option.inject)
  then show ?thesis using assms(1-3) unfolding ma_wf_def by auto
qed

lemma ma_wf_new:
  assumes "ma_wf w" and "memarray_new w = (a, w')"
  shows "ma_wf w'" and "arrays w' a = Some new_memarray" and "memory w' = memory w"
    and "arrays w a = None" and "next_ud w' = Suc a" and "arrays w' = (arrays w)(a \<mapsto> new_memarray)"
proof -
  have w': "a = next_ud w" "w' = w\<lparr>arrays := (arrays w)(a \<mapsto> new_memarray), next_ud := Suc a\<rparr>"
    using assms(2) by (auto simp: memarray_new_def Let_def)
  show "arrays w a = None" using ma_wfD(3) [OF assms(1), of a] w'(1) by (cases "arrays w a") auto
  show "arrays w' a = Some new_memarray" "memory w' = memory w" "next_ud w' = Suc a"
    "arrays w' = (arrays w)(a \<mapsto> new_memarray)" using w' by simp_all
  show "ma_wf w'" using assms(1) unfolding ma_wf_def w'(2) w'(1) by (auto split: if_splits simp: less_SucI)
qed

text \<open>Deleting: an owner frees its block, the others lose nothing.\<close>

lemma ma_wf_delete:
  assumes wf: "ma_wf w" and m: "arrays w a = Some m"
  obtains w' where "memarray_delete a m w = Inr w'" and "ma_wf w'" and "arrays w' = (arrays w)(a \<mapsto> new_memarray)"
    and "next_ud w' = next_ud w"
    and "blocks (memory w') = (if owns m then (blocks (memory w))(m_data m := None) else blocks (memory w))"
proof (cases "owns m")
  case False
  have "memarray_delete a m w = Inr (w\<lparr>arrays := (arrays w)(a \<mapsto> new_memarray)\<rparr>)"
    using False unfolding memarray_delete_def owns_def by auto
  moreover have "ma_wf (w\<lparr>arrays := (arrays w)(a \<mapsto> new_memarray)\<rparr>)"
    using ma_wf_set [OF wf ma_wfD(3) [OF wf m], of new_memarray] by simp
  ultimately show thesis using that False by simp
next
  case True
  then have b: "blocks (memory w) (m_data m) = Some (m_size m)"
    using ma_wfD(2) [OF wf m] by (simp add: array_ok_def)
  obtain h where h: "mem_free (m_data m) (memory w) = Inr h" "mem_wf h" "blocks h = (blocks (memory w))(m_data m := None)"
    using mem_wf_free [OF ma_wfD(1) [OF wf] b] by metis
  let ?w = "w\<lparr>memory := h, arrays := (arrays w)(a \<mapsto> new_memarray)\<rparr>"
  have "memarray_delete a m w = Inr ?w"
    using True h(1) unfolding memarray_delete_def owns_def by simp
  moreover have "array_ok h n" if "arrays w b = Some n" "b \<noteq> a" for b n
    using ma_wfD(2) [OF wf that(1)] ma_wfD(4) [OF wf that(1) m _ True] that(2) h(3) by (auto simp: array_ok_def)
  then have "ma_wf ?w"
    using wf h(2) ma_wfD(3) [OF wf m] unfolding ma_wf_def by (auto split: if_splits)
  ultimately show thesis using that True h(3) by simp
qed

section \<open>What a call may do\<close>

fun lua_fault :: "c_fault \<Rightarrow> bool" where
  "lua_fault (LuaError s) = True"
| "lua_fault _ = False"

text \<open>The call gives a value with the property, or raises a Lua error (or divides by zero).\<close>

definition sound :: "('a \<Rightarrow> bool) \<Rightarrow> 'a result \<Rightarrow> bool" where
  "sound P r \<longleftrightarrow> (case r of Inl x \<Rightarrow> lua_fault x \<or> x = DivByZero | Inr y \<Rightarrow> P y)"

lemma sound_simps [simp]:
  "sound P (Inr y) = P y" "sound P (Inl x) = (lua_fault x \<or> x = DivByZero)"
  by (simp_all add: sound_def)

lemma sound_bind: "sound P r \<Longrightarrow> (\<And>x. P x \<Longrightarrow> sound Q (f x)) \<Longrightarrow> sound Q (rbind r f)"
  by (cases r) simp_all

lemma sound_bind_any: "sound (\<lambda>_. True) r \<Longrightarrow> (\<And>x. r = Inr x \<Longrightarrow> sound Q (f x)) \<Longrightarrow> sound Q (rbind r f)"
  by (cases r) simp_all

lemma sound_mono: "sound P r \<Longrightarrow> (\<And>x. P x \<Longrightarrow> Q x) \<Longrightarrow> sound Q r"
  by (cases r) simp_all

lemma sound_args:
  "sound (\<lambda>_. True) (arg_string c st i d)" "sound (\<lambda>_. True) (arg_number c st i dn)"
  "sound (\<lambda>_. True) (check_lightuserdata st i)" "sound (\<lambda>_. True) (item_size m)"
  unfolding arg_string_def arg_number_def check_lightuserdata_def item_size_def bad_argument_def Let_def
  by (auto split: option.splits lua_value.splits)

lemma sound_check:
  "sound (\<lambda>(a, m). lua_index st i = Some (LUserdata a) \<and> arrays w a = Some m) (check_memarray w st i)"
  unfolding check_memarray_def bad_argument_def by (auto split: option.splits lua_value.splits)

lemma sound_get:
  "sound (\<lambda>(a, m). lua_index st i = Some (LUserdata a) \<and> arrays w a = Some m \<and> (mem_inherited m \<or> owns m))
     (memarray_get w st i)"
  unfolding memarray_get_def
  by (rule sound_bind [OF sound_check]) (auto simp: owns_def)

section \<open>Items lie in the array's block\<close>

abbreviation usable :: "memarray \<Rightarrow> bool" where
  "usable m \<equiv> mem_inherited m \<or> owns m"

lemma ma_region:
  assumes "ma_wf w" and "arrays w a = Some m" and "usable m"
  shows "mem_ok (memory w) (m_data m) (m_size m)"
proof (cases "owns m")
  case True
  then show ?thesis using ma_wfD(2) [OF assms(1,2)] mem_wfD(3) [OF ma_wfD(1) [OF assms(1)]] by (simp add: array_ok_def)
next
  case False
  then show ?thesis using assms(3) ma_wfD(2) [OF assms(1,2)] by (auto simp: array_ok_def owns_def)
qed

lemma ma_owned:
  assumes "ma_wf w" and "arrays w a = Some m" and "usable m" and "0 < m_length m"
  shows "owns m" and "m_size m = m_length m * type_size (mem_type m)" and "m_data m + m_size m < 2 ^ 64"
    and "blocks (memory w) (m_data m) = Some (m_size m)"
proof -
  show o: "owns m" using assms(3,4) ma_wfD(2) [OF assms(1,2)] by (auto simp: array_ok_def)
  then show "m_size m = m_length m * type_size (mem_type m)" "blocks (memory w) (m_data m) = Some (m_size m)"
    using ma_wfD(2) [OF assms(1,2)] by (simp_all add: array_ok_def)
  then show "m_data m + m_size m < 2 ^ 64" using mem_wfD(4) [OF ma_wfD(1) [OF assms(1)]] by blast
qed

lemma ma_item:
  assumes "ma_wf w" and "arrays w a = Some m" and "usable m" and "i < m_length m"
  shows "array_at m i = m_data m + i * type_size (mem_type m)"
    and "i * type_size (mem_type m) + type_size (mem_type m) \<le> m_size m"
    and "mem_ok (memory w) (array_at m i) (type_size (mem_type m))"
proof -
  have "0 < m_length m" using assms(4) by simp
  note o = ma_owned [OF assms(1,2,3) this]
  have "Suc i * type_size (mem_type m) \<le> m_size m"
    unfolding o(2) by (rule mult_le_mono1) (use assms(4) in simp)
  then show le: "i * type_size (mem_type m) + type_size (mem_type m) \<le> m_size m" by simp
  then have "m_data m + i * type_size (mem_type m) < 2 ^ 64" using o(3) by linarith
  then show at: "array_at m i = m_data m + i * type_size (mem_type m)" by (simp add: array_at_def)
  show "mem_ok (memory w) (array_at m i) (type_size (mem_type m))"
    unfolding at using mem_ok_sub [OF ma_region [OF assms(1,2,3)] le] .
qed

lemma length_item_bytes [simp]: "length (item_bytes t v) = type_size t"
  by (cases t) (simp_all add: item_bytes.simps)

lemma whole_items_exact [simp]: "0 < k \<Longrightarrow> whole_items k (n * k) = n * k"
proof -
  assume k: "0 < k"
  have "(k - 1 + n * k) div k = n + (k - 1) div k" by (rule div_mult_self1) (use k in simp)
  then show ?thesis using k by (simp add: whole_items_def add.commute)
qed

lemma swap_items_length: "length (swap_items k bs) = (if k = 0 then 0 else length bs)"
  by (induction k bs rule: swap_items.induct) (simp add: swap_items.simps min_def)

lemma ma_item_size:
  assumes "ma_wf w" and "arrays w a = Some m" and "usable m"
  shows "item_size m = (if m_length m = 0 then Inl DivByZero else Inr (type_size (mem_type m)))"
proof (cases "m_length m = 0")
  case False
  then have "m_size m = m_length m * type_size (mem_type m)" using ma_owned(2) [OF assms] by simp
  then show ?thesis using False by (simp add: item_size_def)
qed (simp add: item_size_def)

lemma ma_whole:
  assumes "ma_wf w" and "arrays w a = Some m" and "usable m" and "0 < m_length m"
  shows "whole_items (type_size (mem_type m)) (m_size m) = m_size m"
  using ma_owned(2) [OF assms] by simp

section \<open>Every call keeps the state well typed\<close>

text \<open>The length and type a call of \<open>memarray\<close> or \<open>realloc\<close> asks for.\<close>

definition requested :: "ma_env \<Rightarrow> lua_value list \<Rightarrow> (nat \<times> memtype) option" where
  "requested e st =
     (let st = (if lua_type st 2 = LUA_TNUMBER \<and> length st = 2 then [st ! 0, LString (lit ''double''), st ! 1] else st)
      in case (arg_string (core e) st 2 (Some (lit ''uchar'')), arg_number (core e) st 3 (Some 0)) of
           (Inr s, Inr n) \<Rightarrow> map_option (\<lambda>t. (num_to_size n, t)) (get_memtype s)
         | _ \<Rightarrow> None)"

definition fits :: "ma_env \<Rightarrow> lua_value list \<Rightarrow> bool" where
  "fits e st \<longleftrightarrow> length st \<le> 3 \<and>
     (case requested e st of None \<Rightarrow> True | Some (n, t) \<Rightarrow> n * type_size t < 2 ^ 64)"

text \<open>
  What the Lua program has to see to: no size overflow, no address given for a new array;
  the address given to \<open>from_ptr\<close> is a block of that size nobody owns; \<open>memcpy\<close> stays
  inside live memory.
\<close>

fun ma_allowed :: "ma_env \<Rightarrow> ma_fn \<Rightarrow> lua_value list \<Rightarrow> ma_state \<Rightarrow> bool" where
  "ma_allowed e F__call st w \<longleftrightarrow> fits e (LNil # drop 1 st)"
| "ma_allowed e Frealloc st w \<longleftrightarrow> fits e st"
| "ma_allowed e Ffrom_ptr st w \<longleftrightarrow> lua_type st 2 \<in> {LUA_TSTRING, LUA_TNUMBER} \<and>
     (\<forall>p s t. lua_index st 1 = Some (LLightUserdata p) \<longrightarrow> lua_index st 2 = Some s \<longrightarrow>
        get_memtype (value_string (number2str (core e)) s) = Some t \<longrightarrow> p \<noteq> 0 \<longrightarrow>
        (let n = num_to_size (lua_tonumber (str2number (core e)) st 3) in
         n * type_size t < 2 ^ 64 \<and> blocks (memory w) (unat p) = Some (n * type_size t) \<and>
         (\<forall>a m. arrays w a = Some m \<longrightarrow> owns m \<longrightarrow> m_data m \<noteq> unat p)))"
| "ma_allowed e Fmemcpy st w \<longleftrightarrow> 
     (\<forall>p q n o1 o2. check_lightuserdata st 1 = Inr p \<longrightarrow> check_lightuserdata st 2 = Inr q \<longrightarrow>
        arg_number (core e) st 3 None = Inr n \<longrightarrow> arg_number (core e) st 4 (Some 0) = Inr o1 \<longrightarrow>
        arg_number (core e) st 5 (Some 0) = Inr o2 \<longrightarrow>
        mem_ok (memory w) (byte_at q o1) (num_to_size n) \<and> mem_ok (memory w) (byte_at p o2) (num_to_size n))"
| "ma_allowed e _ st w \<longleftrightarrow> True"

text \<open>The descriptor of an array that owns nothing becomes the owner of a fresh block.\<close>

lemma ma_wf_own:
  assumes wf: "ma_wf w" and a: "arrays w a = Some m0" "\<not> owns m0"
    and al: "mem_alloc ok f n (memory w) = (p, h)"
    and n: "n = len * type_size t"
  shows "ma_wf (w\<lparr>memory := if p = 0 then memory w else h, arrays := (arrays w)(a \<mapsto>
    \<lparr>m_size = n, m_length = len, mem_type = t, mem_inherited = False, m_data = p\<rparr>)\<rparr>)" (is "ma_wf (_\<lparr>memory := _, arrays := (_)(a \<mapsto> ?m)\<rparr>)")
proof (cases "p = 0")
  case True
  then have "array_ok (memory w) ?m" "\<not> owns ?m" by (simp_all add: array_ok_def owns_def)
  then show ?thesis using True ma_wf_set [OF wf ma_wfD(3) [OF wf a(1)], of ?m] by simp
next
  case False
  note new = mem_wf_alloc [OF ma_wfD(1) [OF wf] al False]
  have other: "array_ok h k \<and> (owns k \<longrightarrow> m_data k \<noteq> p)" if "arrays w b = Some k" for b k
    using ma_wfD(2) [OF wf that] new(2,3) by (auto simp: array_ok_def)
  let ?w = "w\<lparr>memory := h\<rparr>"
  have wf1: "ma_wf ?w" using wf new(1) other unfolding ma_wf_def by auto
  have "array_ok h ?m" using new(2) False n by (simp add: array_ok_def owns_def)
  then have "ma_wf (?w\<lparr>arrays := (arrays ?w)(a \<mapsto> ?m)\<rparr>)"
    using other ma_wfD(3) [OF wf a(1)] by (intro ma_wf_set [OF wf1]) auto
  then show ?thesis using False by simp
qed

lemma mem_alloc_0: "mem_alloc ok f n m = (0, h) \<Longrightarrow> mem_wf m \<Longrightarrow> h = m"
  by (auto simp: mem_alloc_def Let_def mem_wf_def split: if_splits)

lemma renew_array_sound:
  assumes wf: "ma_wf w" and m: "arrays w a = Some m" and len: "length st \<le> 3"
    and f: "n * type_size t < 2 ^ 64"
  shows "sound (\<lambda>(r, w'). ma_wf w') (renew_array e a m t n st w)"
proof -
  obtain w1 where w1: "memarray_delete a m w = Inr w1" "ma_wf w1" "arrays w1 = (arrays w)(a \<mapsto> new_memarray)"
    using ma_wf_delete [OF wf m] by metis
  have sz: "total_size n t = n * type_size t" using f by (simp add: total_size_def)
  obtain p h where al: "mem_alloc (malloc_ok e) (junk e) (n * type_size t) (memory w1) = (p, h)" by fastforce
  have a: "arrays w1 a = Some new_memarray" using w1(3) by simp
  have "ma_wf (w1\<lparr>arrays := (arrays w1)(a \<mapsto> new_memarray\<lparr>mem_type := t\<rparr>)\<rparr>)"
    using ma_wf_set [OF w1(2) ma_wfD(3) [OF w1(2) a], of "new_memarray\<lparr>mem_type := t\<rparr>"] by simp
  moreover have "(if p = 0 then memory w1 else h) = h"
    using mem_alloc_0 [of _ _ _ _ h] al ma_wfD(1) [OF w1(2)] by auto
  then have "ma_wf (w1\<lparr>memory := h, arrays := (arrays w1)(a \<mapsto>
      \<lparr>m_size = n * type_size t, m_length = n, mem_type = t, mem_inherited = False, m_data = p\<rparr>)\<rparr>)"
    using ma_wf_own [OF w1(2) a owns_new(1) al refl] by simp
  ultimately show ?thesis
    using len by (simp add: renew_array_def Let_def w1(1) sz al)
qed

lemma requestedI:
  assumes "fits e st"
    and "st' = (if lua_type st 2 = LUA_TNUMBER \<and> length st = 2 then [st ! 0, LString (lit ''double''), st ! 1] else st)"
    and "arg_string (core e) st' 2 (Some (lit ''uchar'')) = Inr s" and "get_memtype s = Some t"
    and "arg_number (core e) st' 3 (Some 0) = Inr n"
  shows "length st' \<le> 3 \<and> num_to_size n * type_size t < 2 ^ 64"
  using assms by (auto simp: fits_def requested_def Let_def split: if_splits)

lemma Lrealloc_sound:
  assumes wf: "ma_wf w" and f: "fits e st"
  shows "sound (\<lambda>(r, w'). ma_wf w') (Lrealloc e st w)"
proof -
  define st' where "st' = (if lua_type st 2 = LUA_TNUMBER \<and> length st = 2 then [st ! 0, LString (lit ''double''), st ! 1] else st)"
  note req = requestedI [OF f st'_def]
  show ?thesis
    unfolding Lrealloc_def st'_def [symmetric] Let_def
    by (rule sound_bind [OF sound_get])
      (auto intro!: sound_bind_any [OF sound_args(1)] sound_bind_any [OF sound_args(2)] renew_array_sound wf
        split: option.split dest: req)
qed

lemma lua_index_tail: "2 \<le> i \<Longrightarrow> lua_index (x # xs) i = lua_index (y # xs) i"
  by (cases i) (auto simp: lua_index_def)

lemma fits_self: "fits e (x # xs) = fits e (y # xs)"
proof -
  have a: "lua_type (x # xs) 2 = lua_type (y # xs) 2"
    unfolding lua_type_def using lua_index_tail [of 2 x xs y] by simp
  have s: "arg_string c (x # zs) i d = arg_string c (y # zs) i d" "arg_number c (x # zs) i dn = arg_number c (y # zs) i dn"
    if "2 \<le> i" for c zs i d dn
    unfolding arg_string_def arg_number_def using lua_index_tail [OF that, of x zs y] by simp_all
  have "(if lua_type (z # xs) 2 = LUA_TNUMBER \<and> length (z # xs) = 2 then [(z # xs) ! 0, LString (lit ''double''), (z # xs) ! 1]
      else z # xs) = z # (if lua_type (y # xs) 2 = LUA_TNUMBER \<and> length xs = 1 then [LString (lit ''double''), xs ! 0] else xs)"
    if "z = x \<or> z = y" for z
    using that a by auto
  then show ?thesis
    unfolding fits_def requested_def Let_def by (simp only: s list.size simp_thms refl order.refl numeral_le_iff semiring_norm)
qed

lemma L__call_sound:
  assumes wf: "ma_wf w" and f: "fits e (LNil # drop 1 st)"
  shows "sound (\<lambda>(r, w'). ma_wf w') (L__call e st w)"
proof -
  obtain a w1 where n: "memarray_new w = (a, w1)" by fastforce
  show ?thesis
    using Lrealloc_sound [OF ma_wf_new(1) [OF wf n]] f fits_self [of e LNil "drop 1 st" "LUserdata a"]
    by (simp add: L__call_def n)
qed

lemma mem_write_ok: "mem_ok m a (length bs) \<Longrightarrow> mem_write a bs m = Inr (mem_put a bs m)"
  by (simp add: mem_write_def)

lemma mem_read_ok: "mem_ok m a n \<Longrightarrow> mem_read m a n = Inr (mem_bytes m a n)"
  by (simp add: mem_read_def)

lemma L__index_sound: "ma_wf w \<Longrightarrow> sound (\<lambda>_. True) (L__index e st w)"
  unfolding L__index_def Let_def
  by (rule sound_bind [OF sound_get])
    (auto simp: mem_read_ok ma_item(3) split: option.split lua_value.split)

lemma L__newindex_sound: "ma_wf w \<Longrightarrow> sound ma_wf (L__newindex e st w)"
  unfolding L__newindex_def Let_def
  by (rule sound_bind [OF sound_get])
    (auto simp: mem_write_ok ma_item(3) ma_wf_put split: option.split lua_value.split)

lemma strings_sound:
  assumes "ma_wf w"
  shows "sound (\<lambda>_. True) (Lto_str st w)" and "sound (\<lambda>_. True) (Lto_netstr st w)"
    and "sound (\<lambda>(v, w'). ma_wf w') (Lfrom_str e st w)" and "sound ma_wf (Lfrom_netstr e st w)"
proof -
  note reg = ma_region [OF assms]
  have regn: "arrays w a = Some m \<Longrightarrow> usable m \<Longrightarrow> m_size m = n \<Longrightarrow> mem_ok (memory w) (m_data m) n" for a m n
    using reg by blast
  note isz = ma_item_size [OF assms] and wh = ma_whole [OF assms]
  show "sound (\<lambda>_. True) (Lto_str st w)"
    unfolding Lto_str_def by (rule sound_bind [OF sound_get]) (auto simp: mem_read_ok reg)
  show "sound (\<lambda>_. True) (Lto_netstr st w)"
    unfolding Lto_netstr_def
    by (rule sound_bind [OF sound_get], use type_size_range in \<open>fastforce simp: mem_read_ok reg isz wh\<close>)
  show "sound (\<lambda>(v, w'). ma_wf w') (Lfrom_str e st w)"
    unfolding Lfrom_str_def
    by (rule sound_bind [OF sound_get])
      (auto intro!: sound_bind_any [OF sound_args(1)] simp: mem_write_ok regn ma_wf_put assms)
  have "sound ma_wf (rbind (item_size m) (\<lambda>k.
       if k = 1 then rbind (mem_write (m_data m) s (memory w)) (\<lambda>h. Inr (w\<lparr>memory := h\<rparr>))
       else if k \<in> {2, 4, 8} then
         if whole_items k (m_size m) \<noteq> length s then Inl OutOfBounds
         else rbind (mem_write (m_data m) (swap_items k s) (memory w)) (\<lambda>h. Inr (w\<lparr>memory := h\<rparr>))
       else Inl (LuaError ''memarray:from_netstr(): unsupported item_size'')))"
    if m: "arrays w a = Some m" "usable m" and len: "m_size m = length s" for a m s
  proof (cases "m_length m = 0")
    case True
    then show ?thesis by (simp add: item_size_def)
  next
    case False
    have "mem_ok (memory w) (m_data m) (length s)" using reg [OF m] len by simp
    moreover have "whole_items (type_size (mem_type m)) (m_size m) = length s" using wh [OF m] False len by simp
    ultimately show ?thesis
      using False by (simp add: isz [OF m] mem_write_ok swap_items_length ma_wf_put assms)
  qed
  then show "sound ma_wf (Lfrom_netstr e st w)"
    unfolding Lfrom_netstr_def
    by (intro sound_bind [OF sound_get]) (auto intro!: sound_bind_any [OF sound_args(1)])
qed

lemma sound_weaken: "sound (\<lambda>(a, m). lua_index st i = Some (LUserdata a) \<and> arrays w a = Some m \<and> usable m) r \<Longrightarrow>
    sound (\<lambda>_. True) r"
  by (erule sound_mono) simp

lemma getters_sound:
  "sound (\<lambda>_. True) (Lsize st w)" "sound (\<lambda>_. True) (Llength st w)" "sound (\<lambda>_. True) (Ltype st w)"
  "sound (\<lambda>_. True) (Lptr e st w)" "sound (\<lambda>_. True) (Lsizeof e st)"
  unfolding Lsize_def Llength_def Ltype_def Lptr_def Lsizeof_def Let_def
  by (auto intro!: sound_bind_any [OF sound_weaken [OF sound_get]] sound_bind_any [OF sound_args(1)]
      sound_bind_any [OF sound_args(2)] split: option.split)

lemma Lto_ptr_sound: "ma_wf w \<Longrightarrow> sound (\<lambda>(v, w'). ma_wf w') (Lto_ptr st w)"
  unfolding Lto_ptr_def
proof (rule sound_bind [OF sound_get], clarify)
  fix a m assume wf: "ma_wf w" and m: "arrays w a = Some m"
  have "ma_wf (w\<lparr>arrays := (arrays w)(a \<mapsto> m\<lparr>m_data := 0\<rparr>)\<rparr>)"
  proof (rule ma_wf_set [OF wf ma_wfD(3) [OF wf m]])
    show "array_ok (memory w) (m\<lparr>m_data := 0\<rparr>)"
      using ma_wfD(2) [OF wf m] by (simp add: array_ok_def owns_def)
  qed (simp add: owns_def)
  then show "sound (\<lambda>(v, w'). ma_wf w') (Inr (LLightUserdata (of_nat (m_data m)), w\<lparr>arrays := (arrays w)(a \<mapsto> m\<lparr>m_data := 0\<rparr>)\<rparr>))"
    by simp
qed

lemma L__gc_sound: "ma_wf w \<Longrightarrow> sound ma_wf (L__gc st w)"
  unfolding L__gc_def
proof (rule sound_bind [OF sound_check], clarify)
  fix a m assume wf: "ma_wf w" and m: "arrays w a = Some m"
  obtain w' where "memarray_delete a m w = Inr w'" "ma_wf w'" by (rule ma_wf_delete [OF wf m])
  then show "sound ma_wf (memarray_delete a m w)" by simp
qed

lemma Lmemcpy_sound: "ma_wf w \<Longrightarrow> ma_allowed e Fmemcpy st w \<Longrightarrow> sound (\<lambda>(vs, w'). ma_wf w') (Lmemcpy e st w)"
  unfolding Lmemcpy_def
proof (intro sound_bind_any [OF sound_args(2)] sound_bind_any [OF sound_args(3)])
  fix p q n o1 o2
  assume wf: "ma_wf w" and al: "ma_allowed e Fmemcpy st w"
    and arg: "check_lightuserdata st 1 = Inr p" "check_lightuserdata st 2 = Inr q"
      "arg_number (core e) st 3 None = Inr n" "arg_number (core e) st 4 (Some 0) = Inr o1"
      "arg_number (core e) st 5 (Some 0) = Inr o2"
  have ok: "mem_ok (memory w) (byte_at q o1) (num_to_size n)" "mem_ok (memory w) (byte_at p o2) (num_to_size n)"
    using al [unfolded ma_allowed.simps] arg by blast+
  show "sound (\<lambda>(vs, w'). ma_wf w') (rbind (mem_read (memory w) (byte_at q o1) (num_to_size n)) (\<lambda>bs.
     rbind (mem_write (byte_at p o2) bs (memory w)) (\<lambda>h. Inr ([last st], w\<lparr>memory := h\<rparr>))))"
    using ok by (simp add: mem_read_ok mem_write_ok ma_wf_put wf)
qed

lemma Lfrom_ptr_sound:
  assumes wf: "ma_wf w" and al: "ma_allowed e Ffrom_ptr st w"
  shows "sound (\<lambda>(v, w'). ma_wf w') (Lfrom_ptr e st w)"
proof -
  have ty: "lua_type st 2 = 3 \<or> lua_type st 2 = 4" using al by auto
  then obtain v where v1: "lua_index st 2 = Some v" by (cases "lua_index st 2") (auto simp: lua_type_def)
  have "(\<exists>s. v = LString s) \<or> (\<exists>n. v = LNumber n)" using ty v1 by (cases v) (simp_all add: lua_type_def)
  note v = v1 this
  define s where "s = value_string (number2str (core e)) v"
  define len where "len = num_to_size (lua_tonumber (str2number (core e)) st 3)"
  obtain a w1 where n: "memarray_new w = (a, w1)" by fastforce
  note new = ma_wf_new [OF wf n]
  have own: "ma_wf (w1\<lparr>arrays := (arrays w1)(a \<mapsto> \<lparr>m_size = total_size len t, m_length = len, mem_type = t,
      mem_inherited = False, m_data = unat p\<rparr>)\<rparr>)" (is "ma_wf (w1\<lparr>arrays := (arrays w1)(a \<mapsto> ?m)\<rparr>)")
    if t: "get_memtype s = Some t" and p: "lua_index st 1 = Some (LLightUserdata p)" for t p
  proof (rule ma_wf_set [OF new(1) ma_wfD(3) [OF new(1) new(2)]])
    have r: "p \<noteq> 0 \<longrightarrow> len * type_size t < 2 ^ 64 \<and> blocks (memory w) (unat p) = Some (len * type_size t) \<and>
        (\<forall>a m. arrays w a = Some m \<longrightarrow> owns m \<longrightarrow> m_data m \<noteq> unat p)"
      using al p v(1) t unfolding len_def s_def by (auto simp: Let_def)
    have p0: "p \<noteq> 0 \<longleftrightarrow> unat p \<noteq> 0" by (simp add: unat_eq_zero)
    show "array_ok (memory w1) ?m"
      using r p0 new(3) by (auto simp: array_ok_def owns_def total_size_def)
    fix b n assume "owns ?m" "arrays w1 b = Some n" "b \<noteq> a" "owns n"
    then show "m_data n \<noteq> m_data ?m" using r p0 new(6) by (auto simp: owns_def)
  qed
  have name: "(case lua_index st 2 of Some (LString s) \<Rightarrow> Inr s | Some (LNumber n) \<Rightarrow> Inr (number2str (core e) n)
       | _ \<Rightarrow> Inl NullDeref) = Inr s"
    using v by (auto simp: s_def)
  show ?thesis
    unfolding Lfrom_ptr_def name n Let_def len_def [symmetric] check_lightuserdata_def
    by (auto simp: own split: option.split lua_value.split)
qed

lemma ret_sound: "ma_wf w \<Longrightarrow> sound (\<lambda>_. True) r \<Longrightarrow> sound (\<lambda>(o1, w'). ma_wf w') (ret w r)"
  unfolding ret_def by (erule sound_bind) auto

lemma pair_sound:
  "sound (\<lambda>(v, w'). ma_wf w') r \<Longrightarrow> sound (\<lambda>(o1, w'). ma_wf w') (rbind r (\<lambda>(v, w). Inr (f v, w)))"
  by (erule sound_bind) auto

lemma state_sound: "sound ma_wf r \<Longrightarrow> sound (\<lambda>(o1, w'). ma_wf w') (rbind r (\<lambda>w. Inr (Gives [], w)))"
  by (erule sound_bind) auto

lemma ma_call_sound:
  assumes "ma_wf w" and "ma_allowed e f st w"
  shows "sound (\<lambda>(o1, w'). ma_wf w') (ma_call e f st w)"
  using assms
  by (cases f)
    (simp_all del: ma_allowed.simps(3,4) add: ret_sound getters_sound pair_sound state_sound strings_sound
      L__call_sound Lrealloc_sound Lmemcpy_sound Lfrom_ptr_sound Lto_ptr_sound L__gc_sound L__index_sound L__newindex_sound)

text \<open>
  C9. Type soundness of the memory arrays. In a well-typed state a registered function
  called as \<open>ma_allowed\<close> asks either returns with a well-typed state or raises a Lua error
  (or divides by zero, in the conversions to and from network order): no call reads or writes
  outside a live block, frees one twice or frees what an array still owns.
\<close>

theorem memarray_type_sound:
  assumes "ma_wf w" and "ma_allowed e f st w"
  shows "case ma_call e f st w of
      Inr (r, w') \<Rightarrow> ma_wf w'
    | Inl x \<Rightarrow> lua_fault x \<or> x = DivByZero"
  using ma_call_sound [OF assms] by (auto simp: sound_def split: sum.splits)

end
