(* ===== verification/Leda_Memarray_Access.thy ===== *)
theory Leda_Memarray_Access
  imports Leda_Memarray_Safe
begin

text \<open>
  What reads and writes of memory arrays give: an item read back after it was written, the
  other items left alone, the value a C integer of the item's type can hold, and the strings
  in network order.
\<close>

section \<open>Witness state\<close>

text \<open>An environment without number conversions, two arrays of two ints and an empty one.\<close>

definition wit_ma_env :: ma_env where
  "wit_ma_env = \<lparr>core = \<lparr>str2number = (\<lambda>_. None), number2str = (\<lambda>_. [])\<rparr>, malloc_ok = True,
     junk = (\<lambda>_. 0), metafield = (\<lambda>_. LNil)\<rparr>"

definition wit_ma :: ma_state where
  "wit_ma = \<lparr>memory = \<lparr>cells = (\<lambda>x. if 16 \<le> x \<and> x < 24 \<or> 40 \<le> x \<and> x < 48 then Some 7 else None),
       blocks = [16 \<mapsto> 8, 40 \<mapsto> 8], mbrk = 64\<rparr>,
     arrays = [1 \<mapsto> \<lparr>m_size = 8, m_length = 2, mem_type = TINT, mem_inherited = False, m_data = 16\<rparr>,
       2 \<mapsto> \<lparr>m_size = 8, m_length = 2, mem_type = TINT, mem_inherited = False, m_data = 40\<rparr>,
       3 \<mapsto> \<lparr>m_size = 0, m_length = 0, mem_type = TCHAR, mem_inherited = True, m_data = 0\<rparr>],
     next_ud = 4\<rparr>"

lemma wit_ma_wf: "ma_wf wit_ma"
proof -
  have "mem_ok (memory wit_ma) 16 8" "mem_ok (memory wit_ma) 40 8"
    unfolding mem_ok_iff by (auto simp: wit_ma_def)
  then show ?thesis
    by (auto simp: ma_wf_def mem_wf_def wit_ma_def array_ok_def owns_def split: if_splits)
qed

lemma get_memtype_known:
  "get_memtype (lit ''int'') = Some TINT" "get_memtype (lit ''double'') = Some TDOUBLE"
  by (simp_all add: get_memtype_def m_types_def lit_def c_string_def)

lemma memarray_type_sound_witness:
  "case ma_call wit_ma_env F__gc [LUserdata 1] wit_ma of
     Inr (r, w') \<Rightarrow> ma_wf w' \<and> blocks (memory w') = [40 \<mapsto> 8] | Inl x \<Rightarrow> False"
proof -
  have "ma_allowed wit_ma_env F__gc [LUserdata 1] wit_ma" by simp
  from memarray_type_sound [OF wit_ma_wf this]
  show ?thesis
    by (auto simp: L__gc_def check_memarray_def lua_index_def wit_ma_def memarray_delete_def mem_free_def)
qed

section \<open>Items\<close>

text \<open>Integers of a C type: the low bits, signed or not.\<close>

fun c_item :: "memtype \<Rightarrow> int \<Rightarrow> int" where
  "c_item TCHAR z = signed_take_bit 7 z"
| "c_item TSHORT z = signed_take_bit 15 z"
| "c_item TINT z = signed_take_bit 31 z"
| "c_item TLONG z = signed_take_bit 63 z"
| "c_item t z = z mod 2 ^ (8 * type_size t)"

definition exact_bound :: "memtype \<Rightarrow> int" where
  "exact_bound t = (if t \<in> {TUINT, TLONG, TULONG} then 2 ^ 53 else 2 ^ 31)"

lemma num_trunc_of_int: "\<bar>z\<bar> < 2 ^ 53 \<Longrightarrow> num_trunc (int_to_num z) = Some z"
  using num_to_int_of_int [of z]
  by (auto simp: num_to_int_def split: option.splits if_splits)

lemma num_to_int32_of_int: "\<bar>z\<bar> < 2 ^ 31 \<Longrightarrow> num_to_int32 (int_to_num z) = z"
  using num_trunc_of_int [of z] by (auto simp: num_to_int32_def abs_if split: if_splits)

lemma num_to_size_of_int: "\<bar>z\<bar> < 2 ^ 53 \<Longrightarrow> num_to_size (int_to_num z) = nat (z mod 2 ^ 64)"
  using num_trunc_of_int [of z] num_to_int_of_int [of z] by (auto simp: num_to_size_def)

lemma le_val_mod: "int (le_val (le_bytes n (nat (z mod 2 ^ (8 * n))))) = take_bit (8 * n) z"
proof -
  have p: "(256 :: nat) ^ n = 2 ^ (8 * n)" by (simp add: power_mult)
  have "nat (z mod 2 ^ (8 * n)) < 2 ^ (8 * n)" by (simp add: nat_less_iff)
  then show ?thesis by (simp add: le_val_le_bytes p take_bit_eq_mod)
qed

lemma item_bytes_integer:
  assumes "t \<notin> {TFLOAT, TDOUBLE}" and "\<bar>z\<bar> < exact_bound t"
  shows "item_bytes t (int_to_num z) = le_bytes (type_size t) (nat (z mod 2 ^ (8 * type_size t)))"
proof -
  have b: "\<bar>z\<bar> < 2 ^ 53" "t \<notin> {TUINT, TLONG, TULONG} \<Longrightarrow> \<bar>z\<bar> < 2 ^ 31"
    using assms(2) by (auto simp: exact_bound_def split: if_splits)
  note conv = num_to_int_of_int [OF b(1)] num_to_size_of_int [OF b(1)] num_to_int32_of_int [of z]
  show ?thesis using assms(1) b(2) by (cases t) (simp_all add: item_bytes.simps conv)
qed

lemma item_number_integer:
  assumes "t \<notin> {TFLOAT, TDOUBLE}" and "length bs = type_size t"
  shows "item_number t bs = int_to_num (c_item t (int (le_val bs)))"
proof -
  have "le_val bs < 2 ^ (8 * type_size t)" using le_val_bound [of bs] assms(2) by (simp add: power_mult)
  then have "int (le_val bs) < 2 ^ (8 * type_size t)" by (metis of_nat_less_iff of_nat_numeral of_nat_power)
  then show ?thesis using assms(1) by (cases t) (simp_all add: item_number.simps)
qed

lemma c_item_take: "t \<notin> {TFLOAT, TDOUBLE} \<Longrightarrow> c_item t (take_bit (8 * type_size t) z) = c_item t z"
  by (cases t) (simp_all add: signed_take_bit_take_bit, simp_all add: take_bit_eq_mod)

lemma item_integer:
  assumes "t \<notin> {TFLOAT, TDOUBLE}" and "\<bar>z\<bar> < exact_bound t"
  shows "item_number t (item_bytes t (int_to_num z)) = int_to_num (c_item t z)"
  by (simp only: item_number_integer [OF assms(1) length_le_bytes] item_bytes_integer [OF assms] le_val_mod
      c_item_take [OF assms(1)])

lemma item_double: "item_number TDOUBLE (item_bytes TDOUBLE x) = x"
proof -
  have "unat x < 256 ^ 8" using unsigned_less [of x] by simp
  then show ?thesis by (simp add: item_number.simps item_bytes.simps le_val_le_bytes)
qed

text \<open>
  What an item holds after a store. A double comes back unchanged. An integer stored in
  an item of an integer type comes back as the C conversion leaves it (its low bits, with the
  sign of the type), as long as it is within the bound below which the conversion from
  a double is defined and exact: 31 bits for the types that go through an \<open>int\<close>, 53 for the others.
\<close>

theorem memarray_item_conversion:
  "item_number TDOUBLE (item_bytes TDOUBLE x) = x \<and>
   (t \<notin> {TFLOAT, TDOUBLE} \<and> \<bar>z\<bar> < exact_bound t \<longrightarrow>
      item_number t (item_bytes t (int_to_num z)) = int_to_num (c_item t z))"
  using item_double item_integer by blast

lemma memarray_item_conversion_witness:
  "item_number TUCHAR (item_bytes TUCHAR (int_to_num 300)) = int_to_num 44 \<and>
   item_number TSHORT (item_bytes TSHORT (int_to_num 40000)) = int_to_num (- 25536)"
  using memarray_item_conversion [of 0 TUCHAR 300] memarray_item_conversion [of 0 TSHORT 40000]
  by (simp add: exact_bound_def signed_take_bit_eq_if_negative)

section \<open>Reading after writing\<close>

lemma memarray_get_ok:
  "arrays w a = Some m \<Longrightarrow> usable m \<Longrightarrow> memarray_get w (LUserdata a # st) 1 = Inr (a, m)"
  by (auto simp: memarray_get_def check_memarray_def lua_index_def owns_def)

lemma memarray_get_arrays: "arrays w' = arrays w \<Longrightarrow> memarray_get w' st i = memarray_get w st i"
proof -
  assume "arrays w' = arrays w"
  then have "check_memarray w' st i = check_memarray w st i"
    by (auto simp: check_memarray_def split: option.split lua_value.split)
  then show ?thesis by (simp add: memarray_get_def)
qed

lemma L__index_number:
  "L__index e [LUserdata a, LNumber n] w = rbind (memarray_get w [LUserdata a, LNumber n] 1) (\<lambda>(b, m).
     if item_index n \<ge> m_length m then Inl (LuaError ''index out of range'')
     else rbind (mem_read (memory w) (array_at m (item_index n)) (type_size (mem_type m)))
       (\<lambda>bs. Inr (LNumber (item_number (mem_type m) bs))))"
  by (simp add: L__index_def lua_index_def Let_def)

text \<open>Two items are the same or do not overlap.\<close>

lemma items_apart:
  assumes wf: "ma_wf w" and m: "arrays w a = Some m" "usable m" "i < m_length m"
    and k: "arrays w b = Some k" "usable k" "j < m_length k" and ne: "(b, j) \<noteq> (a, i)"
  shows "array_at k j + type_size (mem_type k) \<le> array_at m i \<or> array_at m i + type_size (mem_type m) \<le> array_at k j"
proof (cases "a = b")
  case True
  then have "k = m" "i \<noteq> j" using m(1) k(1) ne by auto
  let ?s = "type_size (mem_type m)"
  have "Suc x * ?s \<le> y * ?s" if "x < y" for x y using that by (intro mult_le_mono1) simp
  then have "i * ?s + ?s \<le> j * ?s \<or> j * ?s + ?s \<le> i * ?s" using \<open>i \<noteq> j\<close> by (metis add.commute linorder_neqE_nat mult_Suc)
  then show ?thesis using ma_item(1) [OF wf m] ma_item(1) [OF wf k] \<open>k = m\<close> by auto
next
  case False
  have o: "owns m" "owns k" using ma_owned(1) [OF wf m(1,2)] ma_owned(1) [OF wf k(1,2)] m(3) k(3) by auto
  then have "m_data m \<noteq> m_data k" using ma_wfD(4) [OF wf m(1) k(1)] False by blast
  moreover have "blocks (memory w) (m_data m) = Some (m_size m)" "blocks (memory w) (m_data k) = Some (m_size k)"
    using ma_owned(4) [OF wf m(1,2)] ma_owned(4) [OF wf k(1,2)] m(3) k(3) by auto
  ultimately have "m_data m + m_size m \<le> m_data k \<or> m_data k + m_size k \<le> m_data m"
    using mem_wf_apart [OF ma_wfD(1) [OF wf]] by blast
  then show ?thesis using ma_item(1,2) [OF wf m] ma_item(1,2) [OF wf k] by linarith
qed

text \<open>
  C10. Reading after writing. In a well-typed state, storing a value under an index of an
  array succeeds; reading that index gives the value as the item type holds it, and reading any
  other index of this or of another array gives what it gave before, errors included.
\<close>

theorem memarray_get_after_set:
  assumes wf: "ma_wf w" and m: "arrays w a = Some m" "usable m" and i: "item_index n < m_length m"
  shows "\<exists>w'. L__newindex e [LUserdata a, LNumber n, v] w = Inr w' \<and> ma_wf w' \<and> arrays w' = arrays w \<and>
    L__index e [LUserdata a, LNumber n] w' = Inr (LNumber (item_number (mem_type m)
      (item_bytes (mem_type m) (lua_tonumber (str2number (core e)) [v] 1)))) \<and>
    (\<forall>b j. (b, item_index j) \<noteq> (a, item_index n) \<longrightarrow>
      L__index e [LUserdata b, LNumber j] w' = L__index e [LUserdata b, LNumber j] w)"
proof -
  define x where "x = lua_tonumber (str2number (core e)) [v] 1"
  let ?at = "array_at m (item_index n)" and ?bs = "item_bytes (mem_type m) x"
  let ?w = "w\<lparr>memory := mem_put ?at ?bs (memory w)\<rparr>"
  note ok = ma_item(3) [OF wf m i]
  have wf': "ma_wf ?w" by (rule ma_wf_put [OF wf])
  have arg: "lua_tonumber (str2number (core e)) [LUserdata a, LNumber n, v] 3 = x"
    by (simp add: x_def lua_tonumber_def lua_index_def)
  have set: "L__newindex e [LUserdata a, LNumber n, v] w = Inr ?w"
    using i ok unfolding L__newindex_def memarray_get_ok [OF m] arg
    by (simp add: lua_index_def mem_write_ok Let_def)
  have ga: "memarray_get ?w st k = memarray_get w st k" for st k by (rule memarray_get_arrays) simp
  have get: "L__index e [LUserdata a, LNumber n] ?w = Inr (LNumber (item_number (mem_type m) ?bs))"
    using i ok unfolding L__index_number ga memarray_get_ok [OF m]
    by (simp add: mem_read_ok mem_put_ok mem_put_same)
  have other: "L__index e [LUserdata b, LNumber j] ?w = L__index e [LUserdata b, LNumber j] w"
    if ne: "(b, item_index j) \<noteq> (a, item_index n)" for b j
  proof (cases "memarray_get w [LUserdata b, LNumber j] 1")
    case (Inr r)
    obtain c k where r: "r = (c, k)" by fastforce
    have k: "c = b" "arrays w b = Some k" "usable k"
      using sound_get [of "[LUserdata b, LNumber j]" 1 w] Inr r by (auto simp: lua_index_def)
    show ?thesis
    proof (cases "item_index j < m_length k")
      case True
      from items_apart [OF wf m i k(2,3) True ne]
      have "mem_bytes (memory ?w) (array_at k (item_index j)) (type_size (mem_type k)) =
          mem_bytes (memory w) (array_at k (item_index j)) (type_size (mem_type k))"
        by (simp add: mem_put_other)
      then show ?thesis
        using ma_item(3) [OF wf k(2,3) True] ma_item(3) [OF wf', of b k "item_index j"] k(2,3) True Inr r
        by (simp add: L__index_number ga mem_read_ok)
    qed (use Inr r in \<open>simp add: L__index_number ga\<close>)
  qed (simp add: L__index_number ga)
  show ?thesis unfolding x_def [symmetric] using set wf' get other by (intro exI [of _ ?w]) simp
qed

lemma item_index_int: "0 < z \<Longrightarrow> z < 2 ^ 53 \<Longrightarrow> item_index (int_to_num z) = nat (z - 1)"
  using num_to_size_of_int [of z] by (simp add: item_index_def)

lemma memarray_get_after_set_witness:
  "\<exists>w'. L__newindex wit_ma_env [LUserdata 1, LInteger 2, LInteger 9] wit_ma = Inr w' \<and>
     L__index wit_ma_env [LUserdata 1, LInteger 2] w' = Inr (LInteger 9) \<and>
     L__index wit_ma_env [LUserdata 1, LInteger 1] w' = L__index wit_ma_env [LUserdata 1, LInteger 1] wit_ma \<and>
     L__index wit_ma_env [LUserdata 2, LInteger 2] w' = L__index wit_ma_env [LUserdata 2, LInteger 2] wit_ma"
proof -
  let ?m = "\<lparr>m_size = 8, m_length = 2, mem_type = TINT, mem_inherited = False, m_data = 16\<rparr>"
  have m: "arrays wit_ma 1 = Some ?m" "usable ?m" by (simp_all add: wit_ma_def owns_def)
  have i: "item_index (int_to_num 2) < m_length ?m" by (simp add: item_index_int)
  have "item_number TINT (item_bytes TINT (lua_tonumber (str2number (core wit_ma_env)) [LInteger 9] 1)) = int_to_num 9"
    using item_integer [of TINT 9] by (simp add: exact_bound_def lua_tonumber_def lua_index_def LInteger_def signed_take_bit_eq_if_positive)
  with memarray_get_after_set [OF wit_ma_wf m i, of wit_ma_env "LInteger 9"] show ?thesis
    unfolding LInteger_def by (auto simp: item_index_int)
qed

section \<open>Network order\<close>

lemma swap_items_step:
  "0 < k \<Longrightarrow> length xs = k \<Longrightarrow> swap_items k (xs @ ys) = rev xs @ swap_items k ys"
  by (subst swap_items.simps) auto

lemma swap_items_Nil [simp]: "swap_items k [] = []"
  by (simp add: swap_items.simps)

lemma swap_items_concat:
  "0 < k \<Longrightarrow> \<forall>x \<in> set xss. length x = k \<Longrightarrow> swap_items k (concat xss) = concat (map rev xss)"
  by (induction xss) (simp_all add: swap_items_step)

lemma swap_items_twice:
  assumes "0 < k" and "\<forall>x \<in> set xss. length x = k"
  shows "swap_items k (swap_items k (concat xss)) = concat xss"
proof -
  have "map rev (map rev xss) = xss" by (simp add: comp_def)
  then show ?thesis using swap_items_concat [OF assms] swap_items_concat [of k "map rev xss"] assms by simp
qed

lemma swap_items_1 [simp]: "swap_items (Suc 0) bs = bs"
proof (induction bs)
  case (Cons b bs)
  then show ?case using swap_items_step [of 1 "[b]" bs] by simp
qed simp

text \<open>The bytes of an array, item by item.\<close>

definition item_chunks :: "c_memory \<Rightarrow> memarray \<Rightarrow> byte list list" where
  "item_chunks h m = map (\<lambda>i. mem_bytes h (array_at m i) (type_size (mem_type m))) [0..<m_length m]"

lemma mem_bytes_append: "mem_bytes h a (n + k) = mem_bytes h a n @ mem_bytes h (a + n) k"
  by (rule nth_equalityI) (auto simp: mem_bytes_def nth_append add.assoc)

lemma mem_bytes_concat: "mem_bytes h a (n * k) = concat (map (\<lambda>i. mem_bytes h (a + i * k) k) [0..<n])"
proof (induction n)
  case (Suc n)
  then show ?case using mem_bytes_append [of h a "n * k" k] by (simp add: add.commute)
qed (simp add: mem_bytes_def)

lemma item_chunks_concat:
  assumes "ma_wf w" and "arrays w a = Some m" and "usable m" and "0 < m_length m"
  shows "concat (item_chunks (memory w) m) = mem_bytes (memory w) (m_data m) (m_size m)"
proof -
  have "item_chunks (memory w) m = map (\<lambda>i. mem_bytes (memory w) (m_data m + i * type_size (mem_type m)) (type_size (mem_type m))) [0..<m_length m]"
    unfolding item_chunks_def using ma_item(1) [OF assms(1-3)] by (intro map_cong) simp_all
  then show ?thesis
    unfolding ma_owned(2) [OF assms] mem_bytes_concat by simp
qed

lemma Lto_netstr_swaps:
  assumes "ma_wf w" and "arrays w a = Some m" and "usable m" and "0 < m_length m"
  shows "Lto_netstr (LUserdata a # st) w = Inr (LString (swap_items (type_size (mem_type m)) (mem_bytes (memory w) (m_data m) (m_size m))))"
  using type_size_range [of "mem_type m"] ma_item_size [OF assms(1-3)] ma_whole [OF assms] ma_region [OF assms(1-3)] assms(4)
  unfolding Lto_netstr_def memarray_get_ok [OF assms(2,3)]
  by (auto simp: mem_read_ok)

lemma Lfrom_netstr_swaps:
  assumes "ma_wf w" and "arrays w a = Some m" and "usable m" and "0 < m_length m" and "length s = m_size m"
  shows "Lfrom_netstr e [LUserdata a, LString s] w =
    Inr (w\<lparr>memory := mem_put (m_data m) (swap_items (type_size (mem_type m)) s) (memory w)\<rparr>)"
  using type_size_range [of "mem_type m"] ma_item_size [OF assms(1-3)] ma_whole [OF assms(1-4)] ma_region [OF assms(1-3)] assms(4,5)
  unfolding Lfrom_netstr_def memarray_get_ok [OF assms(2,3)]
  by (auto simp: mem_write_ok arg_string_def lua_index_def swap_items_length)

text \<open>
  C20. Network order. The string \<open>to_netstr\<close> makes of an array holds the bytes of
  every item in reverse order (the machine is little endian), and \<open>from_netstr\<close> of that
  string into an array of the same type and length leaves there the bytes of the first one.
\<close>

theorem memarray_netstr_roundtrip:
  assumes wf: "ma_wf w" and m: "arrays w a = Some m" "usable m" and k: "arrays w b = Some k" "usable k"
    and same: "mem_type k = mem_type m" "m_length k = m_length m" and len: "0 < m_length m"
  shows "\<exists>s w'. Lto_netstr [LUserdata a] w = Inr (LString s) \<and> s = concat (map rev (item_chunks (memory w) m)) \<and>
    Lfrom_netstr e [LUserdata b, LString s] w = Inr w' \<and> ma_wf w' \<and>
    Lto_str [LUserdata b] w' = Lto_str [LUserdata a] w"
proof -
  let ?k = "type_size (mem_type m)" and ?bs = "mem_bytes (memory w) (m_data m) (m_size m)"
  have len': "0 < m_length k" using len same by simp
  have sz: "m_size k = m_size m" using ma_owned(2) [OF wf m len] ma_owned(2) [OF wf k len'] same by simp
  have chunks: "0 < ?k" "\<forall>x \<in> set (item_chunks (memory w) m). length x = ?k" by (auto simp: item_chunks_def)
  note cat = item_chunks_concat [OF wf m len]
  let ?s = "swap_items ?k ?bs"
  let ?w = "w\<lparr>memory := mem_put (m_data k) ?bs (memory w)\<rparr>"
  have "swap_items ?k ?s = ?bs" using swap_items_twice [OF chunks] cat by simp
  then have from_s: "Lfrom_netstr e [LUserdata b, LString ?s] w = Inr ?w"
    using Lfrom_netstr_swaps [OF wf k len', of ?s e] same sz chunks(1) by (simp add: swap_items_length)
  have wf': "ma_wf ?w" by (rule ma_wf_put [OF wf])
  have "memarray_get ?w [LUserdata b] 1 = Inr (b, k)" by (rule memarray_get_ok) (use k in simp_all)
  then have "Lto_str [LUserdata b] ?w = Inr (LString ?bs)"
    using ma_region [OF wf', of b k] k sz by (simp add: Lto_str_def mem_read_ok mem_put_same)
  moreover have "Lto_str [LUserdata a] w = Inr (LString ?bs)"
    unfolding Lto_str_def memarray_get_ok [OF m] using ma_region [OF wf m] by (simp add: mem_read_ok)
  ultimately have "Lto_str [LUserdata b] ?w = Lto_str [LUserdata a] w" by simp
  moreover have "?s = concat (map rev (item_chunks (memory w) m))"
    using swap_items_concat [OF chunks] cat by simp
  ultimately show ?thesis
    using Lto_netstr_swaps [OF wf m len, of "[]"] from_s wf' by blast
qed

lemma memarray_netstr_roundtrip_witness:
  "\<exists>s w'. Lto_netstr [LUserdata 1] wit_ma = Inr (LString s) \<and>
     Lfrom_netstr wit_ma_env [LUserdata 2, LString s] wit_ma = Inr w' \<and>
     Lto_str [LUserdata 2] w' = Lto_str [LUserdata 1] wit_ma"
proof -
  let ?m = "\<lparr>m_size = 8, m_length = 2, mem_type = TINT, mem_inherited = False, m_data = 16\<rparr>"
  have m: "arrays wit_ma 1 = Some ?m" "usable ?m" by (simp_all add: wit_ma_def owns_def)
  have k: "arrays wit_ma 2 = Some (?m\<lparr>m_data := 40\<rparr>)" "usable (?m\<lparr>m_data := 40\<rparr>)" by (simp_all add: wit_ma_def owns_def)
  from memarray_netstr_roundtrip [OF wit_ma_wf m k, of wit_ma_env] show ?thesis by auto
qed

section \<open>Storing a whole array\<close>

text \<open>The writes of a loop that stores the values \<open>vs\<close> under the indices \<open>1..n\<close>.\<close>

definition store_items :: "ma_env \<Rightarrow> addr \<Rightarrow> (nat \<times> lua_Number) list \<Rightarrow> ma_state \<Rightarrow> ma_state result" where
  "store_items e a = for_each (\<lambda>(i, v). L__newindex e [LUserdata a, LInteger (int i), LNumber v])"

definition item_writes :: "memarray \<Rightarrow> (nat \<times> lua_Number) list \<Rightarrow> (addr \<times> byte list) list" where
  "item_writes m = map (\<lambda>(i, v). (array_at m (i - 1), item_bytes (mem_type m) v))"

lemma store_item:
  assumes "ma_wf w" and "arrays w a = Some m" and "usable m" and "1 \<le> i" and "i \<le> m_length m" and "m_length m < 2 ^ 53"
  shows "L__newindex e [LUserdata a, LInteger (int i), LNumber v] w =
    Inr (w\<lparr>memory := mem_put (array_at m (i - 1)) (item_bytes (mem_type m) v) (memory w)\<rparr>)"
proof -
  have ix: "item_index (int_to_num (int i)) = i - 1" using item_index_int [of "int i"] assms(4-6) by simp
  have "i - 1 < m_length m" using assms(4,5) by simp
  note ok = ma_item(3) [OF assms(1-3) this]
  show ?thesis
    using assms(4,5) ok unfolding L__newindex_def memarray_get_ok [OF assms(2,3)]
    by (simp add: lua_index_def LInteger_def ix lua_tonumber_def mem_write_ok Let_def)
qed

lemma store_items_puts:
  assumes "ma_wf w" and "arrays w a = Some m" and "usable m" and "\<forall>(i, v) \<in> set ivs. 1 \<le> i \<and> i \<le> m_length m"
    and "m_length m < 2 ^ 53"
  shows "store_items e a ivs w = Inr (w\<lparr>memory := heap.puts (item_writes m ivs) (memory w)\<rparr>)"
  using assms(1,2,4)
proof (induction ivs arbitrary: w)
  case Nil
  then show ?case by (simp add: store_items_def item_writes_def heap.puts_def)
next
  case (Cons iv ivs)
  obtain i v where iv: "iv = (i, v)" by fastforce
  let ?w = "w\<lparr>memory := mem_put (array_at m (i - 1)) (item_bytes (mem_type m) v) (memory w)\<rparr>"
  have "L__newindex e [LUserdata a, LInteger (int i), LNumber v] w = Inr ?w"
    using store_item [OF Cons.prems(1,2) assms(3) _ _ assms(5)] Cons.prems(3) iv by auto
  moreover have "store_items e a ivs ?w = Inr (?w\<lparr>memory := heap.puts (item_writes m ivs) (memory ?w)\<rparr>)"
    by (rule Cons.IH) (use Cons.prems ma_wf_put in auto)
  ultimately show ?case by (simp add: store_items_def item_writes_def heap.puts_def iv)
qed

lemma item_writes_apart:
  assumes "ma_wf w" and "arrays w a = Some m" and "usable m" and "length vs = m_length m"
  shows "sorted_wrt heap.apart (item_writes m (enumerate 1 vs))"
  using items_apart [OF assms(1-3) _ assms(2,3)] assms(4)
  by (auto simp: sorted_wrt_iff_nth_less item_writes_def heap.apart_def nth_enumerate_eq)

text \<open>
  C19. Storing a whole array. Assigning to every index of an array in a loop ends
  without an error and leaves in memory exactly the bytes of the stored items, one after the other:
  this is the string \<open>to_str\<close> then gives.
\<close>

theorem memarray_store_all:
  assumes wf: "ma_wf w" and m: "arrays w a = Some m" "usable m" and n: "length vs = m_length m" "m_length m < 2 ^ 53"
  shows "\<exists>w'. store_items e a (enumerate 1 vs) w = Inr w' \<and> ma_wf w' \<and> arrays w' = arrays w \<and>
    Lto_str [LUserdata a] w' = Inr (LString (concat (map (item_bytes (mem_type m)) vs)))"
proof -
  let ?ws = "item_writes m (enumerate 1 vs)"
  let ?w = "w\<lparr>memory := heap.puts ?ws (memory w)\<rparr>"
  have r: "store_items e a (enumerate 1 vs) w = Inr ?w"
    by (rule store_items_puts [OF wf m]) (use n in \<open>auto simp: in_set_enumerate_eq\<close>)
  have wf': "ma_wf ?w"
  proof -
    have "ma_wf (w\<lparr>memory := heap.puts xs (memory w)\<rparr>)" if "ma_wf w" for xs w
      using that
    proof (induction xs arbitrary: w)
      case (Cons x xs)
      from Cons.IH [OF ma_wf_put [OF Cons.prems, of "fst x" "snd x"]] show ?case
        by (cases x) (simp add: heap.puts_def)
    qed (simp add: heap.puts_def)
    then show ?thesis using wf .
  qed
  have get: "memarray_get ?w [LUserdata a] 1 = Inr (a, m)" by (rule memarray_get_ok) (use m in simp_all)
  have str: "Lto_str [LUserdata a] ?w = Inr (LString (mem_bytes (memory ?w) (m_data m) (m_size m)))"
    using ma_region [OF wf' _ m(2), of a] m(1) get by (simp add: Lto_str_def mem_read_ok)
  have "mem_bytes (memory ?w) (m_data m) (m_size m) = concat (map (item_bytes (mem_type m)) vs)"
  proof (cases "m_length m = 0")
    case True
    then have "m_size m = 0" using ma_wfD(2) [OF wf m(1)] m(2) by (auto simp: array_ok_def)
    with True n show ?thesis by (simp add: mem_bytes_def)
  next
    case False
    have "mem_bytes (memory ?w) (array_at m i) (type_size (mem_type m)) = item_bytes (mem_type m) (vs ! i)" if "i < m_length m" for i
    proof -
      have "(array_at m i, item_bytes (mem_type m) (vs ! i)) \<in> set ?ws"
        using that n(1) by (auto simp: item_writes_def in_set_enumerate_eq intro!: image_eqI [of _ _ "(Suc i, vs ! i)"])
      from heap.puts_get [OF item_writes_apart [OF wf m n(1)] this] show ?thesis by simp
    qed
    then have "item_chunks (memory ?w) m = map (item_bytes (mem_type m)) vs"
      using n(1) by (intro nth_equalityI) (simp_all add: item_chunks_def)
    with item_chunks_concat [OF wf' _ m(2), of a] m(1) False show ?thesis by simp
  qed
  with r wf' str show ?thesis by (intro exI [of _ ?w]) simp
qed

lemma memarray_store_all_witness:
  "\<exists>w'. store_items wit_ma_env 1 (enumerate 1 [int_to_num 5, int_to_num 6]) wit_ma = Inr w' \<and>
     Lto_str [LUserdata 1] w' = Inr (LString [5, 0, 0, 0, 6, 0, 0, 0])"
proof -
  let ?m = "\<lparr>m_size = 8, m_length = 2, mem_type = TINT, mem_inherited = False, m_data = 16\<rparr>"
  have m: "arrays wit_ma 1 = Some ?m" "usable ?m" by (simp_all add: wit_ma_def owns_def)
  have "item_bytes TINT (int_to_num 5) = [5, 0, 0, 0]" "item_bytes TINT (int_to_num 6) = [6, 0, 0, 0]"
    using item_bytes_integer [of TINT 5] item_bytes_integer [of TINT 6] by (simp_all add: exact_bound_def le_bytes_numeral)
  with memarray_store_all [OF wit_ma_wf m, of "[int_to_num 5, int_to_num 6]" wit_ma_env] show ?thesis by auto
qed

section \<open>What the code does not check\<close>


lemma memarray_empty_netstr_divides: "Lto_netstr [LUserdata 3] wit_ma = Inl DivByZero"
  by (simp add: Lto_netstr_def memarray_get_def check_memarray_def lua_index_def wit_ma_def item_size_def)

text \<open>
  Giving away an array that only borrowed its memory: \<open>to_ptr\<close> hands out the address, the
  array \<open>from_ptr\<close> makes of it owns the memory, and it is freed twice.
\<close>

theorem memarray_borrowed_freed_twice:
  "\<exists>w1 w2 w3 w4.
     L__call wit_ma_env [LNil, LString (lit ''int''), LInteger 2, LLightUserdata 16] wit_ma = Inr (Gives [LUserdata 4], w1) \<and>
     Lto_ptr [LUserdata 4] w1 = Inr (LLightUserdata 16, w2) \<and>
     Lfrom_ptr wit_ma_env [LLightUserdata 16, LString (lit ''int''), LInteger 2] w2 = Inr (LUserdata 5, w3) \<and>
     L__gc [LUserdata 5] w3 = Inr w4 \<and> L__gc [LUserdata 1] w4 = Inl UseAfterFree"
proof -
  let ?m = "\<lparr>m_size = 8, m_length = 2, mem_type = TINT, mem_inherited = False, m_data = 16\<rparr>"
  have two: "num_to_size (int_to_num 2) = 2" using num_to_size_of_int [of 2] by simp
  note unf = memarray_new_def memarray_get_def check_memarray_def lua_index_def new_memarray_def lua_type_def
    arg_string_def arg_number_def get_memtype_known total_size_def memarray_delete_def Let_def LInteger_def two
  obtain w1 where w1: "L__call wit_ma_env [LNil, LString (lit ''int''), LInteger 2, LLightUserdata 16] wit_ma = Inr (Gives [LUserdata 4], w1)"
    "arrays w1 4 = Some (?m\<lparr>mem_inherited := True\<rparr>)" "arrays w1 1 = Some ?m" "blocks (memory w1) = [16 \<mapsto> 8, 40 \<mapsto> 8]"
    "next_ud w1 = 5"
    by (simp add: L__call_def Lrealloc_def renew_array_def touserdata_def unf, simp add: wit_ma_def)
  obtain w2 where w2: "Lto_ptr [LUserdata 4] w1 = Inr (LLightUserdata 16, w2)" "arrays w2 1 = Some ?m"
    "blocks (memory w2) = [16 \<mapsto> 8, 40 \<mapsto> 8]" "next_ud w2 = 5"
    using w1 by (simp add: Lto_ptr_def unf)
  obtain w3 where w3: "Lfrom_ptr wit_ma_env [LLightUserdata 16, LString (lit ''int''), LInteger 2] w2 = Inr (LUserdata 5, w3)"
    "arrays w3 5 = Some ?m" "arrays w3 1 = Some ?m" "blocks (memory w3) = [16 \<mapsto> 8, 40 \<mapsto> 8]"
    using w2 by (simp add: Lfrom_ptr_def check_lightuserdata_def lua_tonumber_def unf)
  obtain w4 where w4: "L__gc [LUserdata 5] w3 = Inr w4" "arrays w4 1 = Some ?m" "blocks (memory w4) 16 = None"
    using w3 by (simp add: L__gc_def mem_free_def unf)
  have "L__gc [LUserdata 1] w4 = Inl UseAfterFree"
    using w4 by (simp add: L__gc_def mem_free_def unf)
  with w1(1) w2(1) w3(1) w4(1) show ?thesis by blast
qed

end
