(* ===== verification/Leda_Meta.thy ===== *)
theory Leda_Meta
  imports Leda_Api
begin

text \<open>
  \<open>leda_getmetatable\<close> and \<open>leda_setmetatable\<close> (\<open>src/kernel/kernel.c\<close>), which give Lua code the metatable
  of every value, past a \<open>__metatable\<close> field. Tables and full userdata have a metatable each; all
  values of any other type share one.
\<close>

record other_meta =
  udata_meta :: "addr \<rightharpoonup> lobj"
  type_meta :: "int \<rightharpoonup> lobj"

fun obj_tag :: "lobj \<Rightarrow> int" where
  "obj_tag (CFun _) = LUA_TFUNCTION"
| "obj_tag (Tab _) = LUA_TTABLE"
| "obj_tag (Str _) = LUA_TSTRING"
| "obj_tag (Val v) = type_tag v"

fun obj_string :: "lobj \<Rightarrow> string option" where
  "obj_string (Str s) = Some s"
| "obj_string (Val (LString b)) = Some (map (\<lambda>x. char_of (unat x)) (c_string b))"
| "obj_string _ = None"

text \<open>Where the metatable of a value is kept.\<close>

datatype meta_slot = OfTable addr | OfLight | OfUserdata addr | OfType int

fun slot_of :: "lobj \<Rightarrow> meta_slot" where
  "slot_of (Tab t) = OfTable t"
| "slot_of (Val (LTable t)) = OfTable t"
| "slot_of (Val (LLightUserdata _)) = OfLight"
| "slot_of (Val (LUserdata u)) = OfUserdata u"
| "slot_of v = OfType (obj_tag v)"

fun get_slot :: "meta_slot \<Rightarrow> lua_api \<times> other_meta \<Rightarrow> lobj option" where
  "get_slot (OfTable t) (L, oth) = metas L t"
| "get_slot OfLight (L, oth) = light_meta L"
| "get_slot (OfUserdata u) (L, oth) = udata_meta oth u"
| "get_slot (OfType g) (L, oth) = type_meta oth g"

fun set_slot :: "meta_slot \<Rightarrow> lobj option \<Rightarrow> lua_api \<times> other_meta \<Rightarrow> lua_api \<times> other_meta" where
  "set_slot (OfTable t) m (L, oth) = (L\<lparr>metas := (metas L)(t := m)\<rparr>, oth)"
| "set_slot OfLight m (L, oth) = (L\<lparr>light_meta := m\<rparr>, oth)"
| "set_slot (OfUserdata u) m (L, oth) = (L, oth\<lparr>udata_meta := (udata_meta oth)(u := m)\<rparr>)"
| "set_slot (OfType g) m (L, oth) = (L, oth\<lparr>type_meta := (type_meta oth)(g := m)\<rparr>)"

text \<open>The arguments of a function are on the stack, the first at the bottom.\<close>

definition arg_at :: "lua_api \<Rightarrow> nat \<Rightarrow> lobj option" where
  "arg_at L i = (if 1 \<le> i \<and> i \<le> List.length (lstack L) then Some (rev (lstack L) ! (i - 1)) else None)"

text \<open>Both functions return values; \<open>luaL_getmetatable\<close> pushes nil for a name that is not in the registry.\<close>

definition leda_getmetatable :: "lua_api \<times> other_meta \<Rightarrow> lobj list result" where
  "leda_getmetatable S =
     (case arg_at (fst S) 1 of
        None \<Rightarrow> Inl OutOfBounds
      | Some v \<Rightarrow>
          (case obj_string v of
             Some tname \<Rightarrow> rbind (table_of (Tab (registry (fst S))) (fst S)) (\<lambda>(_, m). Inr [obj_field m tname])
           | None \<Rightarrow>
               (case get_slot (slot_of v) S of
                  Some m \<Rightarrow> Inr [m]
                | None \<Rightarrow> Inr [Val LNil, Str ''Metatable not found for the provided value''])))"

text \<open>\<open>lua_setmetatable\<close> takes a table or nil; nothing else is a metatable, and the function does not test it.\<close>

definition as_metatable :: "lobj \<Rightarrow> lobj option result" where
  "as_metatable v = (case v of Tab t \<Rightarrow> Inr (Some v) | Val (LTable t) \<Rightarrow> Inr (Some v) | Val LNil \<Rightarrow> Inr None | _ \<Rightarrow> Inl OutOfBounds)"

definition leda_setmetatable :: "lua_api \<times> other_meta \<Rightarrow> (lobj list \<times> lua_api \<times> other_meta) result" where
  "leda_setmetatable S =
     (case arg_at (fst S) 2 of
        None \<Rightarrow> Inl OutOfBounds
      | Some m \<Rightarrow> rbind (as_metatable m) (\<lambda>mt.
          case arg_at (fst S) 1 of
            None \<Rightarrow> Inl OutOfBounds
          | Some v \<Rightarrow> Inr ([v], set_slot (slot_of v) mt S)))"

section \<open>Properties\<close>

lemma get_set_slot: "get_slot s (set_slot r m S) = (if s = r then m else get_slot s S)"
  by (cases S; cases s; cases r) auto

lemma set_slot_stack: "lstack (fst (set_slot s m S)) = lstack (fst S)" "registry (fst (set_slot s m S)) = registry (fst S)"
  "ltabs (fst (set_slot s m S)) = ltabs (fst S)"
  by (cases S; cases s; simp)+

lemma args_simps [simp]:
  "lstack L = [m, v] \<Longrightarrow> arg_at L 1 = Some v" "lstack L = [m, v] \<Longrightarrow> arg_at L (Suc 0) = Some v"
  "lstack L = [m, v] \<Longrightarrow> arg_at L 2 = Some m" "lstack L = [v] \<Longrightarrow> arg_at L 1 = Some v" "lstack L = [v] \<Longrightarrow> arg_at L (Suc 0) = Some v"
  by (simp_all add: arg_at_def)

text \<open>
  A metatable that was set is read back, from the value it was set for and from every value that
  shares its slot; the metatable of any other value stays.
\<close>

theorem getmetatable_after_set:
  assumes "lstack (fst S) = [m, v]" and "leda_setmetatable S = Inr (vs, S')" and "obj_string x = None"
    and "lstack (fst S'') = [x]" and "\<And>s. get_slot s S'' = get_slot s S'"
  shows "vs = [v] \<and> leda_getmetatable S'' =
     (case (if slot_of x = slot_of v then (if m = Val LNil then None else Some m) else get_slot (slot_of x) S) of
        Some mt \<Rightarrow> Inr [mt] | None \<Rightarrow> Inr [Val LNil, Str ''Metatable not found for the provided value''])"
proof -
  from assms(1,2) obtain mt where mt: "as_metatable m = Inr mt" "vs = [v]" "S' = set_slot (slot_of v) mt S"
    by (auto simp: leda_setmetatable_def rbind_def split: sum.splits)
  have "mt = (if m = Val LNil then None else Some m)"
    using mt(1) by (auto simp: as_metatable_def split: lobj.splits lua_value.splits)
  then show ?thesis using mt(2,3) assms(3-5) by (simp add: leda_getmetatable_def get_set_slot)
qed

theorem getmetatable_after_set_witness:
  "let L = \<lparr>lstack = [Tab 7, Tab 3], ltabs = [3 \<mapsto> Map.empty, 7 \<mapsto> Map.empty], metas = Map.empty, light_meta = None,
      lnext = 9, registry = 1, globals = 2\<rparr>;
     oth = \<lparr>udata_meta = Map.empty, type_meta = Map.empty\<rparr>
   in leda_getmetatable (L\<lparr>lstack := [Tab 3], metas := [3 \<mapsto> Tab 7]\<rparr>, oth) = Inr [Tab 7]"
proof -
  define L where "L = \<lparr>lstack = [Tab 7, Tab 3], ltabs = [3 \<mapsto> Map.empty, 7 \<mapsto> Map.empty], metas = Map.empty, light_meta = None,
      lnext = 9, registry = 1, globals = 2\<rparr>"
  define oth where "oth = \<lparr>udata_meta = Map.empty :: addr \<rightharpoonup> lobj, type_meta = Map.empty :: int \<rightharpoonup> lobj\<rparr>"
  have s: "get_slot s (L\<lparr>lstack := [Tab 3], metas := [3 \<mapsto> Tab 7]\<rparr>, oth) = get_slot s (L\<lparr>metas := [3 \<mapsto> Tab 7]\<rparr>, oth)" for s
    by (cases s) auto
  have "leda_setmetatable (L, oth) = Inr ([Tab 3], L\<lparr>metas := [3 \<mapsto> Tab 7]\<rparr>, oth)"
    by (simp add: leda_setmetatable_def as_metatable_def arg_at_def L_def)
  from getmetatable_after_set [OF _ this, of "Tab 7" "Tab 3" "Tab 3" "(L\<lparr>lstack := [Tab 3], metas := [3 \<mapsto> Tab 7]\<rparr>, oth)"] s
  show ?thesis unfolding L_def [symmetric] oth_def [symmetric] by (simp add: L_def)
qed

text \<open>
  Setting the metatable of one light userdata to another table makes every thread invalid: the
  kernel tells threads by the metatable they share.
\<close>

lemma setmetatable_breaks_threads:
  assumes "lstack (fst S) = [Tab t, Val (LLightUserdata p)]" and "ltabs (fst S) (registry (fst S)) = Some r"
    and "r THREAD_METATABLE = Some (Tab mt)" and "t \<noteq> mt" and "leda_setmetatable S = Inr (vs, S')"
  shows "luaL_checkudata (Val (LLightUserdata q)) THREAD_METATABLE (fst S') = Inl (LuaError ''bad argument'')"
proof -
  have "S' = set_slot OfLight (Some (Tab t)) S" using assms(1,5) by (simp add: leda_setmetatable_def as_metatable_def)
  then show ?thesis using assms(2-4) by (cases S) (simp add: luaL_checkudata_def table_of_def)
qed

text \<open>Without a second argument, or with one that is neither a table nor nil, \<open>lua_setmetatable\<close> is misused.\<close>

lemma setmetatable_not_a_table:
  "lstack (fst S) = [Val (LNumber n), v] \<Longrightarrow> leda_setmetatable S = Inl OutOfBounds"
  "lstack (fst S) = [v] \<Longrightarrow> leda_setmetatable S = Inl OutOfBounds"
  by (simp_all add: leda_setmetatable_def as_metatable_def arg_at_def)

end
