(* ===== verification/Leda_Threads.thy ===== *)
theory Leda_Threads
  imports Leda_Kernel
begin

text \<open>
  The threads of the pool (\<open>src/kernel/scheduler.c\<close>): their descriptors and the counter
  \<open>pool_size\<close> while threads are created, run, end and are killed in any order.
\<close>

section \<open>Steps of the pool\<close>

text \<open>\<open>leda_get_thread_pool_size\<close> (kernel.c).\<close>

definition leda_get_thread_pool_size :: "sched \<Rightarrow> lua_value" where
  "leda_get_thread_pool_size s = LInteger (sint (READ (pool_size s)))"

text \<open>
  A state is that of the scheduler and the threads that have been created and not ended. The
  kernel may change between two steps (handlers run, events arrive). A thread is killed by
  \<open>thread_rawkill\<close> at most once, and not after its end: the code does not test it.
\<close>

inductive thread_step :: "sched \<times> addr set \<Rightarrow> sched \<times> addr set \<Rightarrow> bool" where
  created: "thread_new s = (t, s') \<Longrightarrow> thread_step (s, A) (s', insert t A)"
| turned: "t \<in> A \<Longrightarrow> thread_main env t s = Inr (r, s') \<Longrightarrow> thread_step (s, A) (s', if r = Ends then A - {t} else A)"
| kernel: "thread_step (s, A) (s\<lparr>nd := n\<rparr>, A)"
| raw_killed: "t \<in> A \<Longrightarrow> thread_rawkill t s = Inr s' \<Longrightarrow> thread_step (s, A) (s', A - {t})"
| kill_asked: "thread_kill s = Inr c \<Longrightarrow> thread_step (s, A) (call_state c, A)"
| collected: "thread_gc t s = Inr (vs, s') \<Longrightarrow> thread_step (s, A) (s', A)"

inductive_cases thread_stepE: "thread_step (s, A) (s', A')"

section \<open>The invariant\<close>

definition pool_inv :: "sched \<Rightarrow> addr set \<Rightarrow> bool" where
  "pool_inv s A \<longleftrightarrow> finite A \<and> A \<subseteq> dom (threads s) \<and> (\<forall>t d. threads s t = Some d \<longrightarrow> 0 < t \<and> t < next_thread s) \<and>
     READ (pool_size s) = of_nat (card A) \<and> 0 < next_thread s"

lemma pool_invD:
  assumes "pool_inv s A"
  shows "finite A" and "A \<subseteq> dom (threads s)" and "\<And>t. threads s t \<noteq> None \<Longrightarrow> 0 < t \<and> t < next_thread s"
    and "READ (pool_size s) = of_nat (card A)" and "0 < next_thread s"
  using assms by (auto simp: pool_inv_def)

lemma get_thread_Inr: "get_thread s t = Inr d \<longleftrightarrow> t \<noteq> 0 \<and> threads s t = Some d"
  by (auto simp: get_thread_def split: option.split)

lemma set_status_fields:
  assumes "set_status t x s = Inr s'"
  shows "dom (threads s') = dom (threads s)" and "pool_size s' = pool_size s" and "next_thread s' = next_thread s" and "nd s' = nd s"
    and "t \<in> dom (threads s)"
  using assms by (auto simp: set_status_def rbind_Inr_iff get_thread_Inr split: if_splits)

lemma set_destroy_fields:
  assumes "set_destroy t s = Inr s'"
  shows "dom (threads s') = dom (threads s)" and "pool_size s' = pool_size s" and "next_thread s' = next_thread s"
  using assms by (auto simp: set_destroy_def rbind_Inr_iff get_thread_Inr split: if_splits)

lemma pool_inv_same:
  assumes "pool_inv s A" and "dom (threads s') = dom (threads s)" and "pool_size s' = pool_size s" and "next_thread s' = next_thread s"
  shows "pool_inv s' A"
proof -
  have "0 < t \<and> t < next_thread s" if "threads s' t = Some d" for t d
    using pool_invD(3) [OF assms(1), of t] that assms(2) by (metis domI domIff)
  then show ?thesis using pool_invD [OF assms(1)] assms(2-4) by (simp add: pool_inv_def)
qed

text \<open>A thread less: it is counted off, and its descriptor may be freed.\<close>

lemma pool_inv_less:
  assumes "pool_inv s A" and "t \<in> A" and "dom (threads s) - {t} \<subseteq> dom (threads s')" and "dom (threads s') \<subseteq> dom (threads s)"
    and "READ (pool_size s') = READ (pool_size s) - 1" and "next_thread s' = next_thread s"
  shows "pool_inv s' (A - {t})"
proof -
  note i = pool_invD [OF assms(1)]
  have "card A = Suc (card (A - {t}))" using i(1) assms(2) by (metis card.remove)
  then have "READ (pool_size s') = of_nat (card (A - {t}))" using assms(5) i(4) by simp
  moreover have "A - {t} \<subseteq> dom (threads s')" using i(2) assms(3) by blast
  moreover have "0 < u \<and> u < next_thread s'" if "threads s' u = Some d" for u d
    using i(3) [of u] assms(4,6) that by (metis domI domIff subsetD)
  ultimately show ?thesis using i(1,5) assms(6) by (simp add: pool_inv_def)
qed

lemma pool_inv_created:
  assumes "pool_inv s A" and "thread_new s = (t, s')"
  shows "pool_inv s' (insert t A)"
proof -
  note i = pool_invD [OF assms(1)]
  have t: "t = next_thread s" and s': "threads s' = (threads s)(t \<mapsto> \<lparr>t_status = PENDING, t_destroy = False\<rparr>)"
    "next_thread s' = Suc t" "pool_size s' = ADD (pool_size s) 1" using assms(2) by (auto simp: thread_new_def Let_def)
  have "t \<notin> A" using i(2,3) t by (metis domIff less_irrefl subsetD)
  then have "card (insert t A) = Suc (card A)" using i(1) by simp
  then have c: "READ (pool_size s') = of_nat (card (insert t A))" using i(4) s'(3) by (simp add: atomic_simps)
  have "0 < u \<and> u < Suc t" if "threads s' u = Some d" for u d
  proof (cases "u = t")
    case True then show ?thesis using i(5) t by simp
  next
    case False
    then have "threads s u = Some d" using that s'(1) by simp
    then show ?thesis using i(3) [of u] t by simp
  qed
  then show ?thesis using i(1,2) s' c by (auto simp: pool_inv_def)
qed

lemma pool_inv_turned:
  assumes "pool_inv s A" and "t \<in> A" and "thread_main env t s = Inr (r, s')"
  shows "pool_inv s' (if r = Ends then A - {t} else A)"
proof -
  from assms(3) obtain s1 :: sched and c where s1: "set_status t WAITING s = Inr s1" and c: "queue_pop (ready_queue (kern (nd s1))) = Inr c"
    and rest: "(case c of
       PopWaiting q \<Rightarrow> Inr (Sleeps, s1\<lparr>nd := (nd s1)\<lparr>kern := (kern (nd s1))\<lparr>ready_queue := q\<rparr>\<rparr>\<rparr>)
     | Popped None q \<Rightarrow>
         let s = s1\<lparr>nd := (nd s1)\<lparr>kern := (kern (nd s1))\<lparr>ready_queue := q\<rparr>\<rparr>, pool_size := ADD (pool_size s1) (-1)\<rparr> in
         rbind (set_status t DONE s) (\<lambda>s. rbind (get_thread s t) (\<lambda>d.
         Inr (Ends, if t_destroy d then s\<lparr>threads := (threads s)(t := None)\<rparr> else s)))
     | Popped (Some i) q \<Rightarrow> rbind (set_status t RUNNING s1) (\<lambda>s.
         rbind (thread_enter env i ((kern (nd s))\<lparr>ready_queue := q\<rparr>)) (\<lambda>k.
         Inr (Runs i, s\<lparr>nd := (nd s)\<lparr>kern := k\<rparr>\<rparr>)))) = Inr (r, s')"
    by (auto simp: thread_main_def rbind_Inr_iff simp del: split_paired_Ex)
  note f1 = set_status_fields [OF s1]
  have i1: "pool_inv s1 A" using pool_inv_same [OF assms(1) f1(1-3)] .
  show ?thesis
  proof (cases c)
    case (PopWaiting q)
    then have "r = Sleeps" "dom (threads s') = dom (threads s1)" "pool_size s' = pool_size s1" "next_thread s' = next_thread s1"
      using rest by auto
    then show ?thesis using pool_inv_same [OF i1] by simp
  next
    case p: (Popped x q)
    show ?thesis
    proof (cases x)
      case None
      define s2 where "s2 = s1\<lparr>nd := (nd s1)\<lparr>kern := (kern (nd s1))\<lparr>ready_queue := q\<rparr>\<rparr>, pool_size := ADD (pool_size s1) (-1)\<rparr>"
      from rest p None obtain s3 :: sched and d :: thread_data where s3: "set_status t DONE s2 = Inr s3" "r = Ends"
        "s' = (if t_destroy d then s3\<lparr>threads := (threads s3)(t := None)\<rparr> else s3)"
        by (auto simp: s2_def Let_def rbind_Inr_iff)
      note f3 = set_status_fields [OF s3(1)]
      have "dom (threads s1) - {t} \<subseteq> dom (threads s')" "dom (threads s') \<subseteq> dom (threads s1)"
        "pool_size s' = ADD (pool_size s1) (-1)" "next_thread s' = next_thread s1"
        using f3 s3(3) by (auto simp: s2_def)
      then show ?thesis using pool_inv_less [OF i1 assms(2)] s3(2) by (simp add: atomic_simps)
    next
      case (Some i)
      from rest p Some obtain s2 :: sched and k :: kernel where s2: "set_status t RUNNING s1 = Inr s2" "r = Runs i"
        "s' = s2\<lparr>nd := (nd s2)\<lparr>kern := k\<rparr>\<rparr>" by (auto simp: rbind_Inr_iff)
      note f2 = set_status_fields [OF s2(1)]
      show ?thesis using pool_inv_same [OF i1, of s'] f2 s2(2,3) by simp
    qed
  qed
qed

lemma pool_inv_collected:
  assumes "pool_inv s A" and "thread_gc t s = Inr (vs, s')"
  shows "pool_inv s' A"
proof -
  from assms(2) obtain d :: thread_data and s1 :: sched where s1: "set_destroy t s = Inr s1"
    "(if t_status d = DONE then thread_destroy t s1 else Inr ([], s1)) = Inr (vs, s')"
    unfolding thread_gc_def rbind_Inr_iff by blast
  have "s' = s1" using s1(2) by (auto simp: thread_destroy_def rbind_Inr_iff split: if_splits)
  then show ?thesis using pool_inv_same [OF assms(1) set_destroy_fields [OF s1(1)]] by simp
qed

lemma pool_inv_step:
  assumes "thread_step x y" and "pool_inv (fst x) (snd x)"
  shows "pool_inv (fst y) (snd y)"
  using assms
proof (induction rule: thread_step.induct)
  case (created s t s' A)
  then show ?case using pool_inv_created by simp
next
  case (turned t A env s r s')
  then show ?case using pool_inv_turned by simp
next
  case (kernel s A n)
  then show ?case using pool_inv_same [of s A "s\<lparr>nd := n\<rparr>"] by simp
next
  case (raw_killed t A s s')
  then have i: "pool_inv s A" by simp
  have "t \<noteq> 0" using pool_invD(2,3) [OF i] raw_killed(1) by (metis domIff less_irrefl subsetD)
  then have "set_destroy t (s\<lparr>pool_size := ADD (pool_size s) (-1)\<rparr>) = Inr s'" using raw_killed(2) by (simp add: thread_rawkill_def)
  note f = set_destroy_fields [OF this]
  show ?case using pool_inv_less [OF i raw_killed(1), of s'] f by (simp add: atomic_simps)
next
  case (kill_asked s c A)
  then obtain c' :: "kernel call" where "c = call_map (\<lambda>k. s\<lparr>nd := (nd s)\<lparr>kern := k\<rparr>\<rparr>) c'" by (auto simp: thread_kill_def rbind_Inr_iff)
  then obtain k :: kernel where "call_state c = s\<lparr>nd := (nd s)\<lparr>kern := k\<rparr>\<rparr>" by (cases c') (auto simp: call_state_def call_map_def)
  then show ?case using pool_inv_same [of s A "call_state c"] kill_asked(2) by simp
next
  case (collected t s vs s' A)
  then show ?case using pool_inv_collected by simp
qed

section \<open>The property\<close>



text \<open>
  What \<open>thread_step\<close> leaves out: a second \<open>thread_rawkill\<close> on the same descriptor, or one after the
  end of the thread, counts a thread off that is not there.
\<close>

lemma rawkill_counts_again:
  assumes "thread_rawkill t s = Inr s1" and "t \<noteq> 0"
  shows "\<exists>s2. thread_rawkill t s1 = Inr s2 \<and> READ (pool_size s2) = READ (pool_size s) - 2"
proof -
  from assms obtain d :: thread_data where d: "get_thread (s\<lparr>pool_size := ADD (pool_size s) (-1)\<rparr>) t = Inr d"
    and s1: "s1 = s\<lparr>pool_size := ADD (pool_size s) (-1), threads := (threads s)(t \<mapsto> d\<lparr>t_destroy := True\<rparr>)\<rparr>"
    by (auto simp: thread_rawkill_def set_destroy_def rbind_Inr_iff)
  show ?thesis using assms(2) by (simp add: s1 thread_rawkill_def set_destroy_def get_thread_def)
qed

end
