(* ===== verification/Leda_Threading.thy ===== *)
theory Leda_Threading
  imports Leda_Double Leda_Threads
begin

text \<open>
  The portability layer for time and threads (\<open>src/kernel/extra/threading.c\<close>), as built on
  Linux: the clock, deadlines, waiting with a timeout, the creation of threads; and the
  computations with time of its Windows branch. What \<open>gettimeofday\<close> and the functions of pthread
  answer are arguments; \<open>assert\<close> and \<open>_PT_FAIL\<close> abort the process.
\<close>

section \<open>Aborting\<close>

datatype 'a or_abort = Aborts string int | Finishes 'a

definition ETIMEDOUT :: int where "ETIMEDOUT = 110"

text \<open>The word \<open>_PT_FAIL\<close> prints for the codes of Linux it knows.\<close>

definition pt_fail_why :: "int \<Rightarrow> string" where
  "pt_fail_why rc = (if rc = 22 then ''EINVAL'' else if rc = 16 then ''EBUSY'' else if rc = 1 then ''EPERM''
     else if rc = 12 then ''ENOMEM'' else if rc = 3 then ''ESRCH'' else [])"

definition PT_CALL :: "string \<Rightarrow> int \<Rightarrow> unit or_abort" where
  "PT_CALL name rc = (if rc \<noteq> 0 then Aborts name rc else Finishes ())"

section \<open>Time\<close>

text \<open>
  \<open>now_secs\<close> from the two fields of \<open>struct timeval\<close>; the sum is computed in a \<open>long\<close>.
\<close>

definition now_secs :: "c_long \<Rightarrow> c_long \<Rightarrow> rat" where
  "now_secs s us = rnd (rnd (of_int (sint (s * 1000000 + us))) / 1000000)"

definition SIGNAL_TIMEOUT_PREPARE :: "rat \<Rightarrow> rat \<Rightarrow> rat" where
  "SIGNAL_TIMEOUT_PREPARE clock secs = (if secs \<le> 0 then secs else rnd (clock + secs))"

record timespec =
  tv_sec :: int
  tv_nsec :: int

text \<open>
  \<open>prepare_timeout\<close>: the nanoseconds are computed as an \<open>unsigned long\<close> and stored in a \<open>long\<close>;
  whole milliseconds that round up to a second are carried.
\<close>

definition prepare_timeout :: "rat \<Rightarrow> rat \<Rightarrow> timespec or_abort" where
  "prepare_timeout clock abs_secs =
     (if abs_secs < 0 then Aborts ''assert'' 0
      else let a = (if abs_secs = 0 then clock else abs_secs);
               s = to_long (of_int \<lfloor>a\<rfloor>);
               ms = to_long (rnd (rnd (rnd (a - rnd (of_int s)) * 1000) + 1 / 2));
               ns = sint (word_of_int ms * 1000000 :: c_long)
           in Finishes (if ns = 1000000000 then \<lparr>tv_sec = s + 1, tv_nsec = 0\<rparr> else \<lparr>tv_sec = s, tv_nsec = ns\<rparr>))"

definition ts_val :: "timespec \<Rightarrow> rat" where
  "ts_val ts = of_int (tv_sec ts) + of_int (tv_nsec ts) / 1000000000"

lemma milliseconds:
  assumes "is_double a" and "0 \<le> a" and "a < 2 ^ 63"
  defines "d \<equiv> a - of_int \<lfloor>a\<rfloor>"
  shows "rnd (a - rnd (of_int (to_long (of_int \<lfloor>a\<rfloor>)))) = d" and "to_long (of_int \<lfloor>a\<rfloor>) = \<lfloor>a\<rfloor>"
    and "0 \<le> to_long (rnd (rnd (d * 1000) + 1 / 2))" and "to_long (rnd (rnd (d * 1000) + 1 / 2)) \<le> 1000"
    and "\<bar>of_int (to_long (rnd (rnd (d * 1000) + 1 / 2))) - d * 1000\<bar> \<le> 1 / 2 + 1 / 8796093022208"
proof -
  have f: "0 \<le> \<lfloor>a\<rfloor>" "\<lfloor>a\<rfloor> < 2 ^ 63" using assms(2,3) by (simp_all add: floor_less_iff)
  then show l: "to_long (of_int \<lfloor>a\<rfloor>) = \<lfloor>a\<rfloor>" by (simp add: to_long_def trunc_def)
  note p = double_parts [OF assms(1,2)]
  show "rnd (a - rnd (of_int (to_long (of_int \<lfloor>a\<rfloor>)))) = d"
    unfolding l rnd_is_double [OF p(1)] d_def by (rule rnd_is_double [OF p(2)])
  have d: "0 \<le> d" "d < 1" unfolding d_def by linarith+
  have u: "2 powi (10 - 54) = 1 / (17592186044416 :: rat)" by (simp add: power_int_def power_divide)
  define x where "x = rnd (d * 1000)"
  have thousand: "rnd 1000 = 1000" using rnd_is_double [OF is_double_int [of 1000]] by simp
  have x: "0 \<le> x" "x \<le> 1000" using d rnd_nonneg [of "d * 1000"] rnd_mono [of "d * 1000" 1000] thousand by (simp_all add: x_def)
  have xe: "\<bar>x - d * 1000\<bar> \<le> 1 / 17592186044416" unfolding u [symmetric] x_def using d by (intro rnd_error) simp_all
  define y where "y = rnd (x + 1 / 2)"
  have half: "rnd (2001 / 2) = 2001 / 2" using rnd_double [of "2001 / 2" 2001 "- 1"] by simp
  have y: "0 \<le> y" "y \<le> 2001 / 2" using x rnd_nonneg [of "x + 1 / 2"] rnd_mono [of "x + 1 / 2" "2001 / 2"] half by (simp_all add: y_def)
  have ye: "\<bar>y - (x + 1 / 2)\<bar> \<le> 1 / 17592186044416" unfolding u [symmetric] y_def using x by (intro rnd_error) simp_all
  have n: "0 \<le> \<lfloor>y\<rfloor>" "\<lfloor>y\<rfloor> \<le> 1000" "of_int \<lfloor>y\<rfloor> \<le> y" "y < of_int \<lfloor>y\<rfloor> + 1" using y by linarith+
  have t: "to_long (rnd (rnd (d * 1000) + 1 / 2)) = \<lfloor>y\<rfloor>" using y n by (simp add: to_long_def trunc_def x_def [symmetric] y_def [symmetric])
  show "0 \<le> to_long (rnd (rnd (d * 1000) + 1 / 2))" "to_long (rnd (rnd (d * 1000) + 1 / 2)) \<le> 1000" unfolding t using n by simp_all
  show "\<bar>of_int (to_long (rnd (rnd (d * 1000) + 1 / 2))) - d * 1000\<bar> \<le> 1 / 2 + 1 / 8796093022208" unfolding t using n xe ye by linarith
qed

text \<open>
  C15. A deadline in seconds becomes a normalised \<open>timespec\<close>, in whole milliseconds, that is not more than
  half a millisecond from it, rounding errors of the doubles aside: less than a nanosecond.
\<close>

theorem prepare_timeout_normalised:
  assumes "is_double a" and "0 < a" and "a < 2 ^ 63 - 1"
  shows "\<exists>ts. prepare_timeout clock a = Finishes ts \<and> 0 \<le> tv_nsec ts \<and> tv_nsec ts < 1000000000 \<and> 1000000 dvd tv_nsec ts \<and>
     \<bar>ts_val ts - a\<bar> \<le> 500001 / 1000000000"
proof -
  have lt: "a < 2 ^ 63" using assms(3) by linarith
  note ms = milliseconds [OF assms(1) less_imp_le [OF assms(2)] lt]
  define n where "n = to_long (rnd (rnd ((a - of_int \<lfloor>a\<rfloor>) * 1000) + 1 / 2))"
  have n: "0 \<le> n" "n \<le> 1000" using ms(3,4) by (simp_all add: n_def)
  have w: "sint (word_of_int n * 1000000 :: c_long) = n * 1000000"
    using n by (simp add: sint_word_mult signed_of_int signed_take_bit_int_eq_self)
  have "\<bar>of_int n - (a - of_int \<lfloor>a\<rfloor>) * 1000\<bar> \<le> 1 / 2 + 1 / 8796093022208" using ms(5) by (simp add: n_def)
  then have e: "\<bar>of_int \<lfloor>a\<rfloor> + of_int n / 1000 - a\<bar> \<le> 500001 / 1000000000" by (simp add: abs_le_iff field_simps)
  define ts where "ts = (if n * 1000000 = 1000000000 then \<lparr>tv_sec = \<lfloor>a\<rfloor> + 1, tv_nsec = 0\<rparr> else \<lparr>tv_sec = \<lfloor>a\<rfloor>, tv_nsec = n * 1000000\<rparr>)"
  have "prepare_timeout clock a = Finishes ts"
    using assms(2) ms(1,2) w by (simp add: prepare_timeout_def Let_def n_def ts_def)
  moreover have "0 \<le> tv_nsec ts \<and> tv_nsec ts < 1000000000 \<and> 1000000 dvd tv_nsec ts" using n by (simp add: ts_def)
  moreover have "ts_val ts = of_int \<lfloor>a\<rfloor> + of_int n / 1000" by (auto simp: ts_val_def ts_def)
  ultimately show ?thesis using e by auto
qed

theorem prepare_timeout_normalised_witness:
  "\<exists>ts. prepare_timeout 0 (8191 / 4096) = Finishes ts \<and> tv_nsec ts < 1000000000 \<and> \<bar>ts_val ts - 8191 / 4096\<bar> \<le> 500001 / 1000000000"
proof -
  have "is_double (8191 / 4096)" unfolding is_double_def
    by (intro exI [of _ 8191] exI [of _ "- 12"]) (simp add: power_int_def power_divide)
  from prepare_timeout_normalised [OF this, of 0] show ?thesis by auto
qed

text \<open>A later deadline never becomes an earlier \<open>timespec\<close>.\<close>

lemma prepare_timeout_value:
  assumes "is_double a" and "0 < a" and "a < 2 ^ 63 - 1"
  obtains ts where "prepare_timeout clock a = Finishes ts"
    and "ts_val ts = of_int \<lfloor>a\<rfloor> + of_int (to_long (rnd (rnd ((a - of_int \<lfloor>a\<rfloor>) * 1000) + 1 / 2))) / 1000"
proof -
  have lt: "a < 2 ^ 63" using assms(3) by linarith
  note ms = milliseconds [OF assms(1) less_imp_le [OF assms(2)] lt]
  define n where "n = to_long (rnd (rnd ((a - of_int \<lfloor>a\<rfloor>) * 1000) + 1 / 2))"
  have n: "0 \<le> n" "n \<le> 1000" using ms(3,4) by (simp_all add: n_def)
  have w: "sint (word_of_int n * 1000000 :: c_long) = n * 1000000"
    using n by (simp add: sint_word_mult signed_of_int signed_take_bit_int_eq_self)
  show ?thesis
    by (rule that [of "if n * 1000000 = 1000000000 then \<lparr>tv_sec = \<lfloor>a\<rfloor> + 1, tv_nsec = 0\<rparr> else \<lparr>tv_sec = \<lfloor>a\<rfloor>, tv_nsec = n * 1000000\<rparr>"])
      (use assms(2) ms(1,2) w in \<open>auto simp: prepare_timeout_def Let_def n_def ts_val_def\<close>)
qed

lemma prepare_timeout_mono:
  assumes "is_double a" and "is_double b" and "0 < a" and "a \<le> b" and "b < 2 ^ 63 - 1"
    and "prepare_timeout clock a = Finishes ts" and "prepare_timeout clock b = Finishes us"
  shows "ts_val ts \<le> ts_val us"
proof -
  define d :: "rat \<Rightarrow> rat" where "d x = (x - of_int \<lfloor>x\<rfloor>) * 1000" for x
  define m where "m x = to_long (rnd (rnd (d x) + 1 / 2))" for x
  have v: "prepare_timeout clock x = Finishes z \<Longrightarrow> ts_val z = of_int \<lfloor>x\<rfloor> + of_int (m x) / 1000"
    if "is_double x" "0 < x" "x < 2 ^ 63 - 1" for x z
    using prepare_timeout_value [OF that, of clock] unfolding m_def d_def by (metis or_abort.inject(2))
  have lt: "a < 2 ^ 63" "b < 2 ^ 63" "0 < b" "a < 2 ^ 63 - 1" using assms(3-5) by linarith+
  have ma: "0 \<le> m a" "m a \<le> 1000" and mb: "0 \<le> m b" "m b \<le> 1000"
    using milliseconds(3,4) [OF assms(1) less_imp_le [OF assms(3)] lt(1)] milliseconds(3,4) [OF assms(2) less_imp_le [OF lt(3)] lt(2)]
    by (simp_all add: m_def d_def)
  have "of_int \<lfloor>a\<rfloor> + of_int (m a) / 1000 \<le> rat_of_int \<lfloor>b\<rfloor> + of_int (m b) / 1000"
  proof (cases "\<lfloor>a\<rfloor> = \<lfloor>b\<rfloor>")
    case True
    have "of_int \<lfloor>a\<rfloor> \<le> a" by linarith
    then have da: "0 \<le> d a" "d a \<le> d b" using assms(4) True unfolding d_def by (simp_all add: mult_right_mono)
    have x: "0 \<le> rnd (d a)" "rnd (d a) \<le> rnd (d b)" using rnd_nonneg [OF da(1)] rnd_mono [OF da] .
    have "rnd (rnd (d a) + 1 / 2) \<le> rnd (rnd (d b) + 1 / 2)" "0 \<le> rnd (rnd (d a) + 1 / 2)"
      using x by (auto intro: rnd_mono rnd_nonneg)
    then have "trunc (rnd (rnd (d a) + 1 / 2)) \<le> trunc (rnd (rnd (d b) + 1 / 2))" by (simp add: trunc_def floor_mono)
    then have "m a \<le> m b" using ma mb unfolding m_def to_long_def by (auto split: if_splits)
    then show ?thesis using True by simp
  next
    case False
    then have "\<lfloor>a\<rfloor> + 1 \<le> \<lfloor>b\<rfloor>" using floor_mono [OF assms(4)] by linarith
    then have "rat_of_int \<lfloor>a\<rfloor> + 1 \<le> of_int \<lfloor>b\<rfloor>" by (metis of_int_1 of_int_add of_int_le_iff)
    moreover have "rat_of_int (m a) \<le> 1000" "0 \<le> rat_of_int (m b)" using ma mb by (simp_all flip: of_int_le_iff)
    ultimately show ?thesis by (simp add: field_simps)
  qed
  then show ?thesis using v [OF assms(1,3) lt(4) assms(6)] v [OF assms(2) lt(3) assms(5,7)] by simp
qed

section \<open>Waiting with a timeout\<close>

text \<open>\<open>SIGNAL_WAIT\<close>: without a timeout when the deadline is negative. The mutex is held again on return.\<close>

definition SIGNAL_WAIT :: "int \<Rightarrow> rat \<Rightarrow> rat \<Rightarrow> bool or_abort" where
  "SIGNAL_WAIT rc clock abs_secs =
     (if abs_secs < 0 then (case PT_CALL ''pthread_cond_wait'' rc of Aborts n c \<Rightarrow> Aborts n c | Finishes _ \<Rightarrow> Finishes True)
      else if abs_secs = 0 then Aborts ''assert'' 0
      else case prepare_timeout clock abs_secs of
        Aborts n c \<Rightarrow> Aborts n c
      | Finishes ts \<Rightarrow>
          if rc = ETIMEDOUT then Finishes False
          else if rc \<noteq> 0 then Aborts ''pthread_cond_timedwait()'' rc
          else Finishes True)"

text \<open>
  \<open>THREAD_WAIT\<close> as it is built without \<open>pthread_timedjoin_np\<close>, on a condition variable. Each wait
  has an answer and is followed by a status of the thread; spurious wakeups are answers \<open>0\<close> that
  leave the status as it is. \<open>None\<close>: still waiting when the answers end.
\<close>

fun wait_done :: "bool \<Rightarrow> e_status \<Rightarrow> (int \<times> e_status) list \<Rightarrow> e_status or_abort option" where
  "wait_done timed st wakes =
     (if status_code DONE \<le> status_code st then Some (Finishes st)
      else case wakes of
        [] \<Rightarrow> None
      | (rc, st') # rest \<Rightarrow>
          if timed \<and> rc = ETIMEDOUT then Some (Finishes st')
          else if rc \<noteq> 0 then Some (Aborts ''pthread_cond_timedwait'' rc)
          else wait_done timed st' rest)"

declare wait_done.simps [simp del]

definition THREAD_WAIT :: "rat \<Rightarrow> rat \<Rightarrow> e_status \<Rightarrow> (int \<times> e_status) list \<Rightarrow> bool or_abort option" where
  "THREAD_WAIT clock secs st wakes =
     (case (if 0 < secs then (case prepare_timeout clock (rnd (clock + secs)) of Aborts n c \<Rightarrow> Aborts n c | Finishes _ \<Rightarrow> Finishes ())
            else Finishes ()) of
        Aborts n c \<Rightarrow> Some (Aborts n c)
      | Finishes _ \<Rightarrow>
          map_option (\<lambda>r. case r of Aborts n c \<Rightarrow> Aborts n c | Finishes st \<Rightarrow> Finishes (status_code DONE \<le> status_code st))
            (if secs = 0 then Some (Finishes st) else wait_done (0 < secs) st wakes))"

lemma wait_done_finishes:
  "wait_done timed st wakes = Some (Finishes st') \<Longrightarrow>
     status_code DONE \<le> status_code st' \<or> (timed \<and> (ETIMEDOUT, st') \<in> set wakes)"
  by (induction timed st wakes rule: wait_done.induct)
     (subst (asm) (2) wait_done.simps, auto split: if_splits list.splits prod.splits)

lemma wait_done_returns:
  "\<forall>(rc, s) \<in> set wakes. rc = 0 \<Longrightarrow> \<exists>(rc, s) \<in> set ((0, st) # wakes). status_code DONE \<le> status_code s \<Longrightarrow>
     \<exists>st'. wait_done timed st wakes = Some (Finishes st') \<and> status_code DONE \<le> status_code st'"
proof (induction wakes arbitrary: st)
  case Nil
  then show ?case by (subst wait_done.simps) auto
next
  case (Cons w wakes)
  obtain s where w: "w = (0, s)" using Cons.prems(1) by (cases w) auto
  show ?case
  proof (cases "status_code DONE \<le> status_code st")
    case False
    then have "wait_done timed st (w # wakes) = wait_done timed s wakes" by (subst wait_done.simps) (simp add: w ETIMEDOUT_def)
    then show ?thesis using Cons.IH [of s] Cons.prems False by (auto simp: w)
  qed (subst wait_done.simps, simp)
qed

lemma wait_done_waits:
  "\<forall>(rc, s) \<in> set wakes. rc = 0 \<Longrightarrow> \<not> (\<exists>(rc, s) \<in> set ((0, st) # wakes). status_code DONE \<le> status_code s) \<Longrightarrow>
     wait_done timed st wakes = None"
  by (induction wakes arbitrary: st) (subst wait_done.simps, auto simp: ETIMEDOUT_def)+

text \<open>With a timeout the answer is no only when the time was out.\<close>

lemma thread_wait_no:
  assumes "0 < secs" and "THREAD_WAIT clock secs st wakes = Some (Finishes False)"
  shows "\<exists>s. (ETIMEDOUT, s) \<in> set wakes"
proof -
  from assms obtain st' where "wait_done True st wakes = Some (Finishes st')" "\<not> status_code DONE \<le> status_code st'"
    by (auto simp: THREAD_WAIT_def split: or_abort.splits)
  then show ?thesis using wait_done_finishes by blast
qed

text \<open>
  \<open>THREAD_WAIT\<close> tells a thread that has ended from one that has not: without a timeout it
  returns as soon as a wakeup finds the thread ended, and never before, however many spurious
  wakeups there are.
\<close>

theorem thread_wait_outcome:
  assumes "secs < 0" and "\<forall>(rc, s) \<in> set wakes. rc = 0"
  shows "THREAD_WAIT clock secs st wakes =
     (if \<exists>(rc, s) \<in> set ((0, st) # wakes). status_code DONE \<le> status_code s then Some (Finishes True) else None)"
proof (cases "\<exists>(rc, s) \<in> set ((0, st) # wakes). status_code DONE \<le> status_code s")
  case True
  from wait_done_returns [OF assms(2) True, of False] assms(1) True show ?thesis by (auto simp: THREAD_WAIT_def)
next
  case False
  from wait_done_waits [OF assms(2) False, of False] assms(1) False show ?thesis by (simp add: THREAD_WAIT_def)
qed

theorem thread_wait_outcome_witness:
  "THREAD_WAIT 1000 (- 1) PENDING [(0, RUNNING), (0, WAITING), (0, DONE), (0, DONE)] = Some (Finishes True)"
  using thread_wait_outcome [of "- 1" "[(0, RUNNING), (0, WAITING), (0, DONE), (0, DONE)]" 1000 PENDING] by simp

section \<open>Creating a thread\<close>

text \<open>
  The calls of \<open>THREAD_CREATE\<close>, the first that fails aborting. \<open>rr\<close> tells whether the library was built
  with \<open>LINUX_SCHED_RR\<close>; \<open>sudo\<close> is the variable of that name.
\<close>

datatype pt_op = AttrInit | SetInheritSched | SetSchedPolicy | SetSchedParam int | Create | AttrDestroy

fun pt_name :: "pt_op \<Rightarrow> string" where
  "pt_name AttrInit = ''pthread_attr_init(a)''"
| "pt_name SetInheritSched = ''pthread_attr_setinheritsched( a, PTHREAD_EXPLICIT_SCHED )''"
| "pt_name SetSchedPolicy = ''pthread_attr_setschedpolicy( a, _PRIO_MODE )''"
| "pt_name (SetSchedParam _) = ''pthread_attr_setschedparam( a, &sp )''"
| "pt_name Create = ''pthread_create()''"
| "pt_name AttrDestroy = ''pthread_attr_destroy(a)''"

definition PRIO_HI :: int where "PRIO_HI = 99"
definition PRIO_0 :: int where "PRIO_0 = 50"
definition PRIO_LO :: int where "PRIO_LO = 1"
definition PRIO_AN :: int where "PRIO_AN = PRIO_0 + (PRIO_HI - PRIO_0) div 2"
definition PRIO_BN :: int where "PRIO_BN = PRIO_LO + (PRIO_0 - PRIO_LO) div 2"

definition sched_priority :: "bool \<Rightarrow> int \<Rightarrow> int" where
  "sched_priority rr prio =
     (if prio = 2 then PRIO_HI else if prio = 1 then PRIO_AN else if rr \<and> prio = 0 then PRIO_0
      else if prio = - 1 then PRIO_BN else PRIO_LO)"

fun pt_calls :: "(pt_op \<Rightarrow> int) \<Rightarrow> pt_op list \<Rightarrow> pt_op list \<times> unit or_abort" where
  "pt_calls ans [] = ([], Finishes ())"
| "pt_calls ans (c # cs) = (case PT_CALL (pt_name c) (ans c) of
       Aborts n rc \<Rightarrow> ([c], Aborts n rc)
     | Finishes _ \<Rightarrow> let (done, r) = pt_calls ans cs in (c # done, r))"

definition THREAD_CREATE :: "bool \<Rightarrow> bool \<Rightarrow> (pt_op \<Rightarrow> int) \<Rightarrow> int \<Rightarrow> pt_op list \<times> unit or_abort" where
  "THREAD_CREATE rr sudo ans prio =
     (let normal = (if rr then \<not> sudo else prio = 0)
      in pt_calls ans ([AttrInit] @
           (if normal then [] else [SetInheritSched, SetSchedPolicy, SetSchedParam (sched_priority rr prio)]) @
           [Create, AttrDestroy]))"

lemma sched_priority_bounds: "1 \<le> sched_priority rr prio \<and> sched_priority rr prio \<le> 99"
  by (simp add: sched_priority_def PRIO_HI_def PRIO_0_def PRIO_LO_def PRIO_AN_def PRIO_BN_def)

lemma sched_priority_mono: "p < q \<Longrightarrow> - 2 \<le> p \<Longrightarrow> q \<le> 2 \<Longrightarrow> sched_priority True p < sched_priority True q"
proof -
  assume a: "p < q" "- 2 \<le> p" "q \<le> 2"
  then have "p \<in> {- 2, - 1, 0, 1}" "q \<in> {- 1, 0, 1, 2}" by auto
  then show "sched_priority True p < sched_priority True q"
    using a(1) by (auto simp: sched_priority_def PRIO_HI_def PRIO_0_def PRIO_LO_def PRIO_AN_def PRIO_BN_def)
qed

text \<open>
  Without \<open>LINUX_SCHED_RR\<close> the value 0 is not among the cases: a priority that is out of range or
  above the greatest is treated as the lowest.
\<close>

lemma priority_three_is_lowest: "sched_priority rr 3 = 1"
  by (simp add: sched_priority_def PRIO_LO_def)

text \<open>The kernel creates its threads with priority 0: they are created with default attributes.\<close>

lemma thread_create_default:
  "THREAD_CREATE False sudo (\<lambda>_. 0) 0 = ([AttrInit, Create, AttrDestroy], Finishes ())"
  by (simp add: THREAD_CREATE_def PT_CALL_def)

section \<open>The computations of the Windows branch\<close>

text \<open>
  \<open>now_secs\<close> from two counts of 100 nanoseconds; the milliseconds \<open>THREAD_WAIT_IMPL\<close> and
  \<open>SIGNAL_WAIT\<close> wait, where \<open>long\<close> has 32 bits; the priority of a new thread.
\<close>

definition win_now_secs :: "64 word \<Rightarrow> 64 word \<Rightarrow> rat" where
  "win_now_secs uli uli_epoch = rnd (rnd (of_int (uint ((uli - uli_epoch) div 10000))) / 1000)"

definition INFINITE :: int where "INFINITE = 2 ^ 32 - 1"

definition win_thread_wait_ms :: "rat \<Rightarrow> int" where
  "win_thread_wait_ms secs = (if secs < 0 then INFINITE else to_unsigned (rnd (rnd (secs * 1000) + 1 / 2)))"

definition win_signal_wait_ms :: "rat \<Rightarrow> rat \<Rightarrow> int" where
  "win_signal_wait_ms clock abs_secs =
     (if abs_secs < 0 then c_int INFINITE
      else if abs_secs = 0 then 0
      else let ms = to_int (rnd (rnd (rnd (abs_secs - clock) * 1000) + 1 / 2)) in if ms < 0 then 0 else ms)"

datatype win_prio = TIME_CRITICAL | HIGHEST | ABOVE_NORMAL | BELOW_NORMAL | LOWEST | IDLE

definition win_thread_prio :: "int \<Rightarrow> win_prio option" where
  "win_thread_prio prio = (if prio = 0 then None else Some (
     if prio = 3 then TIME_CRITICAL else if prio = 2 then HIGHEST else if prio = 1 then ABOVE_NORMAL
     else if prio = - 1 then BELOW_NORMAL else if prio = - 2 then LOWEST else IDLE))"

text \<open>A timeout of 50 days, more than \<open>2 ^ 32\<close> milliseconds, ends in less than a second.\<close>

lemma win_long_wait: "win_thread_wait_ms 4294968 = 704"
proof -
  have a: "rnd (4294968 * 1000) = 4294968000" using rnd_is_double [OF is_double_int [of 4294968000]] by simp
  have b: "rnd (4294968000 + 1 / 2) = 4294968000 + 1 / 2"
    using rnd_double [of "4294968000 + 1 / 2" 8589936001 "- 1"] by (simp add: power_int_minus)
  have c: "trunc (4294968000 + 1 / 2) = 4294968000" unfolding trunc_def by (simp add: floor_unique)
  show ?thesis unfolding win_thread_wait_ms_def to_unsigned_def to_long_def a b c by simp
qed

section \<open>Threads, seen from Lua (scheduler.c)\<close>

text \<open>
  \<open>thread_join\<close> returns when the thread has ended or was cancelled; \<open>CPU_SET\<close> ignores a number
  outside the 1024 bits of the mask; \<open>leda_quit\<close> ends the process with its argument.
\<close>

definition thread_join :: "bool \<Rightarrow> addr \<Rightarrow> sched \<Rightarrow> lua_value list option result" where
  "thread_join ended t s = rbind (get_thread s t) (\<lambda>d. Inr (if ended then Some [] else None))"

definition cpu_set :: "int \<Rightarrow> int set" where
  "cpu_set c = (if 0 \<le> c \<and> c < 1024 then {c} else {})"

definition leda_thread_set_affinity ::
  "(byte list \<Rightarrow> lua_Number option) \<Rightarrow> (int set \<Rightarrow> int) \<Rightarrow> lua_value list \<Rightarrow> lua_value list" where
  "leda_thread_set_affinity cv setaffinity st =
     [LInteger (setaffinity (cpu_set (c_int (lua_tointeger cv st 2 - 1))))]"

definition leda_quit :: "(byte list \<Rightarrow> lua_Number option) \<Rightarrow> lua_value list \<Rightarrow> int" where
  "leda_quit cv st = (if lua_type st 1 = LUA_TNUMBER then c_int (lua_tointeger cv st 1) else 0)"

text \<open>The numbers of the cores start from 1: core 0 is not there, and its mask is empty.\<close>

lemma affinity_core_zero:
  "lua_index st 2 = Some (LInteger 0) \<Longrightarrow> leda_thread_set_affinity cv f st = [LInteger (f {})]"
  by (simp add: leda_thread_set_affinity_def cpu_set_def)

end
