(* ===== verification/Leda_Mutex.thy ===== *)
theory Leda_Mutex
  imports Leda_Threading
begin

text \<open>
  The mutexes of the portability layer as built on Linux (the macros of
  \<open>src/kernel/extra/threading.h\<close>), and the functions that give them to Lua
  (\<open>src/kernel/extra/mutex.c\<close>). A mutex has an owner and a count; what POSIX leaves undefined is a
  result of its own. Threads call the functions in any order: a schedule lists the calls.
\<close>

section \<open>Mutexes\<close>

datatype 'a locking = Returns 'a | Blocks | Undefined | Raises string

record pt_mutex =
  m_owner :: "(nat \<times> nat) option"
  m_recursive :: bool

type_synonym mutexes = "addr \<rightharpoonup> pt_mutex"

definition MUTEX_INIT :: "addr \<Rightarrow> mutexes \<Rightarrow> mutexes locking" where
  "MUTEX_INIT a M = (if a = 0 then Undefined else Returns (M(a \<mapsto> \<lparr>m_owner = None, m_recursive = False\<rparr>)))"

definition MUTEX_RECURSIVE_INIT :: "addr \<Rightarrow> mutexes \<Rightarrow> mutexes locking" where
  "MUTEX_RECURSIVE_INIT a M = (if a = 0 then Undefined else Returns (M(a \<mapsto> \<lparr>m_owner = None, m_recursive = True\<rparr>)))"

definition MUTEX_FREE :: "addr \<Rightarrow> mutexes \<Rightarrow> mutexes locking" where
  "MUTEX_FREE a M = (case M a of None \<Rightarrow> Undefined
     | Some m \<Rightarrow> if m_owner m = None then Returns (M(a := None)) else Undefined)"

definition MUTEX_LOCK :: "nat \<Rightarrow> addr \<Rightarrow> mutexes \<Rightarrow> mutexes locking" where
  "MUTEX_LOCK t a M = (case M a of None \<Rightarrow> Undefined
     | Some m \<Rightarrow> (case m_owner m of
         None \<Rightarrow> Returns (M(a \<mapsto> m\<lparr>m_owner := Some (t, 1)\<rparr>))
       | Some (u, n) \<Rightarrow> if u = t \<and> m_recursive m then Returns (M(a \<mapsto> m\<lparr>m_owner := Some (t, n + 1)\<rparr>)) else Blocks))"

definition MUTEX_UNLOCK :: "nat \<Rightarrow> addr \<Rightarrow> mutexes \<Rightarrow> mutexes locking" where
  "MUTEX_UNLOCK t a M = (case M a of None \<Rightarrow> Undefined
     | Some m \<Rightarrow> (case m_owner m of
         None \<Rightarrow> Undefined
       | Some (u, n) \<Rightarrow> if u = t then Returns (M(a \<mapsto> m\<lparr>m_owner := if n \<le> 1 then None else Some (t, n - 1)\<rparr>)) else Undefined))"

text \<open>How many times a thread holds a mutex.\<close>

definition held :: "mutexes \<Rightarrow> addr \<Rightarrow> nat \<Rightarrow> nat" where
  "held M a t = (case M a of None \<Rightarrow> 0
     | Some m \<Rightarrow> (case m_owner m of None \<Rightarrow> 0 | Some (u, n) \<Rightarrow> if u = t then n else 0))"

definition well_counted :: "mutexes \<Rightarrow> bool" where
  "well_counted M = (\<forall>a m t n. M a = Some m \<and> m_owner m = Some (t, n) \<longrightarrow> 1 \<le> n)"

section \<open>Mutexes in Lua\<close>

definition mutex_get :: "lua_value list \<Rightarrow> nat \<Rightarrow> addr locking" where
  "mutex_get st i = (case lua_index st i of
       Some (LLightUserdata p) \<Rightarrow> if p = 0 then Raises ''mutex is null'' else Returns (unat p)
     | _ \<Rightarrow> Raises ''expected a lightuserdata as argument'')"

definition on_mutex :: "(addr \<Rightarrow> mutexes \<Rightarrow> mutexes locking) \<Rightarrow> lua_value list \<Rightarrow> mutexes \<Rightarrow> (lua_value list \<times> mutexes) locking" where
  "on_mutex f st M = (case mutex_get st 1 of
       Raises e \<Rightarrow> Raises e | Blocks \<Rightarrow> Blocks | Undefined \<Rightarrow> Undefined
     | Returns a \<Rightarrow> (case f a M of
         Raises e \<Rightarrow> Raises e | Blocks \<Rightarrow> Blocks | Undefined \<Rightarrow> Undefined | Returns M \<Rightarrow> Returns ([], M)))"

definition mutex_lock :: "nat \<Rightarrow> lua_value list \<Rightarrow> mutexes \<Rightarrow> (lua_value list \<times> mutexes) locking" where
  "mutex_lock t = on_mutex (MUTEX_LOCK t)"

definition mutex_unlock :: "nat \<Rightarrow> lua_value list \<Rightarrow> mutexes \<Rightarrow> (lua_value list \<times> mutexes) locking" where
  "mutex_unlock t = on_mutex (MUTEX_UNLOCK t)"

text \<open>\<open>free\<close> after \<open>MUTEX_FREE\<close>: the mutex is its block, which is gone already.\<close>

definition mutex_destroy :: "lua_value list \<Rightarrow> mutexes \<Rightarrow> (lua_value list \<times> mutexes) locking" where
  "mutex_destroy = on_mutex MUTEX_FREE"

text \<open>\<open>a\<close> is the answer of \<open>malloc\<close>, which is not tested.\<close>

definition mutex_new :: "addr \<Rightarrow> mutexes \<Rightarrow> (lua_value list \<times> mutexes) locking" where
  "mutex_new a M = (case MUTEX_INIT a M of
       Raises e \<Rightarrow> Raises e | Blocks \<Rightarrow> Blocks | Undefined \<Rightarrow> Undefined
     | Returns M \<Rightarrow> Returns ([LLightUserdata (of_nat a)], M))"

text \<open>\<open>luaopen_leda_mutex\<close> returns one value without having made one: what is on the top of the stack.\<close>

definition luaopen_leda_mutex :: "lua_value list \<Rightarrow> lua_value list" where
  "luaopen_leda_mutex st = drop (length st - 1) st"

lemma mutex_module_is_its_name: "luaopen_leda_mutex [LString n] = [LString n]"
  by (simp add: luaopen_leda_mutex_def)

section \<open>Threads that share mutexes\<close>

datatype mutex_fn = Lock_fn | Unlock_fn

fun mutex_call :: "nat \<Rightarrow> mutex_fn \<Rightarrow> lua_value list \<Rightarrow> mutexes \<Rightarrow> (lua_value list \<times> mutexes) locking" where
  "mutex_call t Lock_fn st M = mutex_lock t st M"
| "mutex_call t Unlock_fn st M = mutex_unlock t st M"

text \<open>
  A schedule: each entry is a thread that tries a call. A thread that blocks, or gets an error,
  changes nothing. The log has the calls that returned, in their order.
\<close>

fun mutex_sched :: "(nat \<times> mutex_fn \<times> c_long) list \<Rightarrow> mutexes \<Rightarrow> ((nat \<times> mutex_fn \<times> addr) list \<times> mutexes) locking" where
  "mutex_sched [] M = Returns ([], M)"
| "mutex_sched ((t, f, p) # cs) M = (case mutex_call t f [LLightUserdata p] M of
       Undefined \<Rightarrow> Undefined
     | Blocks \<Rightarrow> mutex_sched cs M
     | Raises _ \<Rightarrow> mutex_sched cs M
     | Returns (_, M') \<Rightarrow> (case mutex_sched cs M' of
           Returns (l, M'') \<Rightarrow> Returns ((t, f, unat p) # l, M'') | Blocks \<Rightarrow> Blocks | Raises e \<Rightarrow> Raises e | Undefined \<Rightarrow> Undefined))"

lemma mutex_call_ptr:
  "mutex_call t f [LLightUserdata p] M = Returns (vs, M') \<longleftrightarrow>
     p \<noteq> 0 \<and> vs = [] \<and> (case f of Lock_fn \<Rightarrow> MUTEX_LOCK t (unat p) M | Unlock_fn \<Rightarrow> MUTEX_UNLOCK t (unat p) M) = Returns M'"
  by (cases f) (auto simp: mutex_lock_def mutex_unlock_def on_mutex_def mutex_get_def lua_index_def split: locking.splits)

lemma MUTEX_LOCK_E:
  assumes "MUTEX_LOCK t a M = Returns M'"
  obtains m n where "M a = Some m" and "M' = M(a \<mapsto> m\<lparr>m_owner := Some (t, n + 1)\<rparr>)"
    and "n = 0 \<and> m_owner m = None \<or> m_recursive m \<and> m_owner m = Some (t, n)"
  using assms by (fastforce simp: MUTEX_LOCK_def split: option.splits if_splits)

lemma MUTEX_UNLOCK_E:
  assumes "MUTEX_UNLOCK t a M = Returns M'"
  obtains m n where "M a = Some m" and "m_owner m = Some (t, n)"
    and "M' = M(a \<mapsto> m\<lparr>m_owner := if n \<le> 1 then None else Some (t, n - 1)\<rparr>)"
  using assms by (auto simp: MUTEX_UNLOCK_def split: option.splits if_splits)

lemma held_lock:
  "MUTEX_LOCK t a M = Returns M' \<Longrightarrow> held M' b u = held M b u + (if b = a \<and> u = t then 1 else 0)"
  by (erule MUTEX_LOCK_E) (auto simp: held_def)

lemma held_unlock:
  assumes "MUTEX_UNLOCK t a M = Returns M'" and "well_counted M"
  shows "held M' b u + (if b = a \<and> u = t then 1 else 0) = held M b u"
proof -
  from assms(1) obtain m n where m: "M a = Some m" "m_owner m = Some (t, n)"
    "M' = M(a \<mapsto> m\<lparr>m_owner := if n \<le> 1 then None else Some (t, n - 1)\<rparr>)" by (rule MUTEX_UNLOCK_E)
  have "1 \<le> n" using assms(2) m(1,2) unfolding well_counted_def by blast
  then show ?thesis unfolding m(3) using m(1,2) by (cases "b = a") (auto simp: held_def)
qed

lemma well_counted_upd:
  "well_counted M \<Longrightarrow> (\<And>t n. m_owner m = Some (t, n) \<Longrightarrow> 1 \<le> n) \<Longrightarrow> well_counted (M(a \<mapsto> m))"
  unfolding well_counted_def by (simp only: fun_upd_apply) (metis option.inject)

lemma well_counted_lock: "MUTEX_LOCK t a M = Returns M' \<Longrightarrow> well_counted M \<Longrightarrow> well_counted M'"
  by (erule MUTEX_LOCK_E) (auto intro: well_counted_upd)

lemma well_counted_unlock: "MUTEX_UNLOCK t a M = Returns M' \<Longrightarrow> well_counted M \<Longrightarrow> well_counted M'"
  by (erule MUTEX_UNLOCK_E) (simp only:, rule well_counted_upd, auto split: if_splits)

lemma recursive_lock: "MUTEX_LOCK t a M = Returns M' \<Longrightarrow> map_option m_recursive (M' b) = map_option m_recursive (M b)"
  by (erule MUTEX_LOCK_E) simp

lemma recursive_unlock: "MUTEX_UNLOCK t a M = Returns M' \<Longrightarrow> map_option m_recursive (M' b) = map_option m_recursive (M b)"
  by (erule MUTEX_UNLOCK_E) simp

lemma lock_not_held:
  "MUTEX_LOCK t a M = Returns M' \<Longrightarrow> u \<noteq> t \<or> map_option m_recursive (M a) = Some False \<Longrightarrow> held M a u = 0"
  by (erule MUTEX_LOCK_E) (auto simp: held_def)

abbreviation locks :: "(nat \<times> mutex_fn \<times> addr) list \<Rightarrow> nat \<Rightarrow> addr \<Rightarrow> nat" where
  "locks l t a \<equiv> count_list l (t, Lock_fn, a)"

abbreviation unlocks :: "(nat \<times> mutex_fn \<times> addr) list \<Rightarrow> nat \<Rightarrow> addr \<Rightarrow> nat" where
  "unlocks l t a \<equiv> count_list l (t, Unlock_fn, a)"

lemma sched_balance:
  assumes "mutex_sched cs M = Returns (p @ (t, Lock_fn, a) # s, M')" and "well_counted M"
    and "u \<noteq> t \<or> map_option m_recursive (M a) = Some False"
  shows "held M a u + locks p u a = unlocks p u a"
  using assms
proof (induction cs M arbitrary: p rule: mutex_sched.induct)
  case (1 M)
  then show ?case by simp
next
  case (2 v f q cs M)
  show ?case
  proof (cases "mutex_call v f [LLightUserdata q] M")
    case (Returns r)
    obtain vs M1 where r: "r = (vs, M1)" by (cases r)
    from 2(4) obtain l where l: "mutex_sched cs M1 = Returns (l, M')" "(v, f, unat q) # l = p @ (t, Lock_fn, a) # s"
      by (auto simp: Returns r split: locking.splits)
    note op = Returns [unfolded r mutex_call_ptr]
    show ?thesis
    proof (cases p)
      case Nil
      then show ?thesis using l(2) op lock_not_held [of t a M M1 u] 2(6) by auto
    next
      case (Cons x p')
      have x: "x = (v, f, unat q)" "l = p' @ (t, Lock_fn, a) # s" using l(2) Cons by auto
      have w: "well_counted M1" "map_option m_recursive (M1 a) = map_option m_recursive (M a)"
        using op well_counted_lock well_counted_unlock recursive_lock recursive_unlock 2(5)
        by (auto split: mutex_fn.splits)
      have "held M1 a u + locks p' u a = unlocks p' u a"
        using "2.IH"(1) [OF Returns r [symmetric]] l(1) x(2) w 2(6) by simp
      then show ?thesis
        using op held_lock [of v "unat q" M M1 a u] held_unlock [of v "unat q" M M1 a u] 2(5) x(1) Cons
        by (cases f) (auto split: if_splits)
    qed
  next
    case Undefined
    then show ?thesis using 2 by simp
  next
    case Blocks
    then show ?thesis using 2 by simp
  next
    case (Raises e)
    then show ?thesis using 2 by simp
  qed
qed

text \<open>
  Mutual exclusion: whenever a thread gets a mutex made by \<open>mutex_new\<close>, every thread, itself
  included, has released it as often as it had taken it.
\<close>

theorem mutex_excludes:
  assumes "mutex_new a M = Returns (vs, M1)" and "well_counted M"
    and "mutex_sched cs M1 = Returns (p @ (t, Lock_fn, a) # s, M2)"
  shows "locks p u a = unlocks p u a"
proof -
  from assms(1,2) have "well_counted M1" "M1 a = Some \<lparr>m_owner = None, m_recursive = False\<rparr>"
    by (auto simp: mutex_new_def MUTEX_INIT_def well_counted_def split: if_splits)
  with sched_balance [OF assms(3), of u] show ?thesis by (simp add: held_def)
qed

theorem mutex_excludes_witness:
  "locks [(1, Lock_fn, 8), (1, Unlock_fn, 8)] 1 8 = unlocks [(1, Lock_fn, 8), (1, Unlock_fn, 8)] 1 8"
  by (rule mutex_excludes [of 8 Map.empty "[LLightUserdata 8]" _ "[(1, Lock_fn, 8), (2, Lock_fn, 8), (1, Unlock_fn, 8), (2, Lock_fn, 8)]" _ 2 "[]"])
     (auto simp: mutex_new_def MUTEX_INIT_def well_counted_def mutex_lock_def mutex_unlock_def on_mutex_def
        mutex_get_def lua_index_def MUTEX_LOCK_def MUTEX_UNLOCK_def)

text \<open>A recursive mutex excludes the other threads only.\<close>

lemma recursive_mutex_excludes:
  assumes "MUTEX_RECURSIVE_INIT a M = Returns M1" and "well_counted M" and "u \<noteq> t"
    and "mutex_sched cs M1 = Returns (p @ (t, Lock_fn, a) # s, M2)"
  shows "locks p u a = unlocks p u a"
proof -
  from assms(1,2) have "well_counted M1" "held M1 a u = 0"
    by (auto simp: MUTEX_RECURSIVE_INIT_def well_counted_def held_def split: if_splits)
  with sched_balance [OF assms(4), of u] assms(3) show ?thesis by simp
qed

text \<open>
  A thread that takes the mutex twice waits for itself. Destroying a mutex leaves its light userdata
  in Lua, and the next use of it is undefined.
\<close>

lemma mutex_relock_blocks:
  "mutex_lock t st M = Returns (vs, M1) \<Longrightarrow> mutex_get st 1 = Returns a \<Longrightarrow> map_option m_recursive (M a) = Some False \<Longrightarrow>
     mutex_lock t st M1 = Blocks"
  by (auto simp: mutex_lock_def on_mutex_def MUTEX_LOCK_def split: locking.splits option.splits if_splits)

lemma mutex_used_after_destroy:
  "mutex_destroy st M = Returns (vs, M1) \<Longrightarrow> mutex_lock t st M1 = Undefined \<and> mutex_destroy st M1 = Undefined"
  by (auto simp: mutex_destroy_def mutex_lock_def on_mutex_def MUTEX_FREE_def MUTEX_LOCK_def split: locking.splits option.splits if_splits)

end
