(* ===== verification/Leda_Remote.thy ===== *)
theory Leda_Remote
  imports Leda_Kernel
begin

text \<open>
  The arguments of an event on their way to another process or to the main state: put in
  a table, encoded, decoded and unpacked there (\<open>emmit_remote\<close> of scheduler.c,
  \<open>restore_event_to_lua_state\<close> of event.c, \<open>leda_raise_yield_event\<close> of kernel.c).
\<close>

section \<open>The table of arguments\<close>

lemma args_keys_apart:
  assumes "length vs < 2 ^ 31"
  shows "sorted_wrt (\<lambda>p q. \<not> key_eq (fst p) (fst q)) (zip (up_keys (length vs)) vs)"
proof -
  have "\<not> key_eq (LInteger (int (Suc i))) (LInteger (int (Suc j)))" if "i < j" "j < length vs" for i j
    using LInteger_key_eq [of "int (Suc i)" "int (Suc j)"] that assms by simp
  then show ?thesis by (simp add: sorted_wrt_iff_nth_less del: of_nat_Suc)
qed

lemma fold_rawset_args:
  assumes "length vs < 2 ^ 31" and "LNil \<notin> set vs"
  shows "fold (\<lambda>(i, v). rawset_entries (LInteger (int i)) v) (enumerate 1 vs) [] = zip (up_keys (length vs)) vs"
  using assms
proof (induction vs rule: rev_induct)
  case (snoc v vs)
  have "\<not> key_eq (LInteger (int (Suc (length vs)))) (fst p)" if "p \<in> set (zip (up_keys (length vs)) vs)" for p
  proof -
    from that obtain i where "i < length vs" "p = (LInteger (int (Suc i)), vs ! i)"
      by (auto simp: in_set_zip prod_eq_iff simp del: of_nat_Suc)
    then show ?thesis using LInteger_key_eq [of "int (Suc (length vs))" "int (Suc i)"] snoc.prems(1) by simp
  qed
  then have "rawset_entries (LInteger (int (Suc (length vs)))) v (zip (up_keys (length vs)) vs) =
      zip (up_keys (length vs)) vs @ [(LInteger (int (Suc (length vs))), v)]"
    using snoc.prems(2) by (intro rawset_new) auto
  moreover have "up_keys (Suc (length vs)) = up_keys (length vs) @ [LInteger (int (Suc (length vs)))]"
    by (simp add: up_keys_def)
  ultimately show ?case using snoc by (simp add: enumerate_append_eq del: of_nat_Suc)
qed (simp add: up_keys_def)

lemma args_table_eq:
  assumes "length vs < 2 ^ 31" and "LNil \<notin> set vs"
  shows "args_table vs h = (nexta h, h\<lparr>tabs := (tabs h)(nexta h \<mapsto>
    \<lparr>entries = zip (up_keys (length vs)) vs, t_persist = None\<rparr>), nexta := nexta h + 1\<rparr>)"
  by (simp add: args_table_def lua_newtable_def fold_rawset_args [OF assms, unfolded One_nat_def])

lemma args_table_plain:
  assumes "plain rt h" and "length vs < 2 ^ 31" and "LNil \<notin> set vs"
  shows "plain rt (snd (args_table vs h))"
proof -
  have "k \<noteq> LNil \<and> \<not> is_nan k \<and> v \<noteq> LNil" if "(k, v) \<in> set (zip (up_keys (length vs)) vs)" for k v
  proof -
    from that obtain i where "i < length vs" "k = LInteger (int (Suc i))" "v \<in> set vs"
      by (auto simp: in_set_zip)
    with LInteger_key [of "int (Suc i)"] assms(2,3) show ?thesis by auto
  qed
  then have "good_entries (zip (up_keys (length vs)) vs)"
    using args_keys_apart [OF assms(2)] by (auto simp: good_entries_def)
  then show ?thesis using assms(1) by (auto simp: plain_def args_table_eq [OF assms(2,3)])
qed
text \<open>Unpacking a copy of the table gives copies of the arguments, in order.\<close>

lemma unpack_copy:
  assumes c: "copy h1 (LTable a) h2 w" and t: "tabs h1 a = Some \<lparr>entries = zip (up_keys (length vs)) vs, t_persist = None\<rparr>"
    and b: "border_ok rt" and vs: "length vs < 2 ^ 31" "LNil \<notin> set vs"
  shows "\<exists>ws. lua_unpack rt w h2 = Inr ws \<and> length ws = length vs \<and> list_all2 (\<lambda>v u. copy h1 v h2 u) vs ws"
proof -
  obtain \<rho> where r: "inj_on \<rho> (dom \<rho>)" "\<rho> (LTable a) = Some w" "\<forall>x y. \<rho> x = Some y \<longrightarrow> obj_copy \<rho> h1 x h2 y"
    using c by (auto simp: copy_def ren_def)
  then have "obj_copy \<rho> h1 (LTable a) h2 w" by blast
  then obtain b' t' where w: "w = LTable b'" "tabs h2 b' = Some t'"
    and e: "list_all2 (ren_pair \<rho>) (zip (up_keys (length vs)) vs) (entries t')"
    using t by (cases w) auto
  have l: "length (entries t') = length vs" using e by (auto dest: list_all2_lengthD)
  have nth: "fst (entries t' ! i) = LInteger (int (Suc i)) \<and> ren \<rho> (vs ! i) (snd (entries t' ! i))" if "i < length vs" for i
    using e that l by (auto simp: list_all2_conv_all_nth ren_pair_def ren_def LInteger_def)
  have keys: "map fst (entries t') = map (\<lambda>i. LInteger (int i)) [1..<Suc (length vs)]"
    by (rule nth_equalityI) (use nth l in \<open>simp_all del: upt_Suc\<close>)
  have "y \<noteq> LNil" if "ren \<rho> x y" "x \<noteq> LNil" for x y
    using that r(3) by (cases y) (auto simp: ren_def split: if_splits elim: obj_copy.elims)
  then have "snd (entries t' ! i) \<noteq> LNil" if "i < length vs" for i
    using nth [OF that] vs(2) that by (metis nth_mem)
  then have "LNil \<notin> snd ` set (entries t')" using l by (force simp: in_set_conv_nth)
  then have border: "border rt (entries t') = length vs" using b keys unfolding border_ok_def by blast
  have "sorted_wrt (\<lambda>p q. \<not> key_eq (fst p) (fst q)) (entries t')"
    using nth l vs(1) LInteger_key_eq [of "int (Suc _)" "int (Suc _)"] by (auto simp: sorted_wrt_iff_nth_less)
  then have get: "rawget_entries (LInteger (int (Suc i))) (entries t') = snd (entries t' ! i)" if "i < length vs" for i
    using rawget_nth [of "entries t'" i] nth [OF that] l that by simp
  have "map (\<lambda>i. rawget_entries (LInteger (int i)) (entries t')) [1..<Suc (length vs)] = map snd (entries t')"
    by (rule nth_equalityI) (use l get in \<open>simp_all del: upt_Suc of_nat_Suc\<close>)
  then have "lua_unpack rt w h2 = Inr (map snd (entries t'))"
    using w border by (simp add: lua_unpack_def entries_at_def Let_def del: upt_Suc)
  moreover have "copy h1 (vs ! i) h2 (snd (entries t' ! i))" if "i < length vs" for i
    using nth [OF that] r unfolding copy_def by blast
  then have "list_all2 (\<lambda>v u. copy h1 v h2 u) vs (map snd (entries t'))"
    using l by (simp add: list_all2_conv_all_nth)
  ultimately show ?thesis using l by simp
qed

lemma args_arrive:
  assumes "plain rt h" and "border_ok rt" and vs: "length vs < 2 ^ 31" "LNil \<notin> set vs"
    and e: "mar_encode d (snd (args_table vs h)) [] True (LTable (fst (args_table vs h))) = Inr s" and "length s < 2 ^ 31"
    and "heap_wf h2"
  shows "\<exists>ws h2'. restore_event_to_lua_state rt (Packed s) (dst, h2) = Inr ((dst @ ws, h2'), length vs, destroy_event (Packed s)) \<and>
    list_all2 (\<lambda>v w. copy (snd (args_table vs h)) v h2' w) vs ws \<and> kept h2 h2' {}"
proof -
  let ?h = "snd (args_table vs h)"
  have "plain rt ?h" by (rule args_table_plain [OF assms(1) vs])
  from decode_encode_copy [OF this assms(2) e assms(6,7), of "2 * length s + 1"] obtain w h2' where
    d: "mar_decode (2 * length s + 1) rt [] s h2 = Inr (w, h2')" "copy ?h (LTable (nexta h)) h2' w" "kept h2 h2' {}"
    by (auto simp: args_table_eq [OF vs])
  have "tabs ?h (nexta h) = Some \<lparr>entries = zip (up_keys (length vs)) vs, t_persist = None\<rparr>"
    by (simp add: args_table_eq [OF vs])
  from unpack_copy [OF d(2) this assms(2) vs] obtain ws where
    "lua_unpack rt w h2' = Inr ws" "length ws = length vs" "list_all2 (\<lambda>v u. copy ?h v h2' u) vs ws" by blast
  with d show ?thesis by (intro exI [of _ ws] exI [of _ h2']) (simp add: restore_event_to_lua_state_def)
qed


text \<open>A nil among the arguments is lost: the event for \<open>f(nil)\<close> is the event for \<open>f()\<close>.\<close>

lemma remote_nil_lost: "remote_payload d h [x, LNil] = remote_payload d h [x]"
  by (simp add: remote_payload_def args_table_def)

text \<open>What a handler passes to \<open>quit\<close> is what \<open>leda_run\<close> returns, when it returns.\<close>

lemma quit_values_returned:
  assumes "plain rt h" and "border_ok rt" and "length st < 2 ^ 31" and "LNil \<notin> set st"
    and "leda_raise_yield_event d h st = Inr (Some (Packed s, ys))" and "length s < 2 ^ 31" and "heap_wf h2"
  shows "\<exists>ws h2'. kernel_yield_event rt (Packed s) (dst, h2) = Inr ((dst @ ws, h2'), length st) \<and>
    list_all2 (\<lambda>v w. copy (snd (args_table st h)) v h2' w) st ws"
proof -
  have "mar_encode d (snd (args_table st h)) [] True (LTable (fst (args_table st h))) = Inr s"
    using assms(5) by (auto simp: leda_raise_yield_event_def Let_def split: prod.splits sum.splits c_fault.splits)
  from args_arrive [OF assms(1-4) this assms(6,7), of dst] show ?thesis by (auto simp: kernel_yield_event_def)
qed

text \<open>A cyclic table with a function, and a boolean.\<close>

lemma wit_remote_payload:
  "\<exists>s. remote_payload (Suc (Suc (Suc (Suc 0)))) wit_cycle [LInteger 0, LTable 1, LBoolean True] = Inr s \<and> length s < 2 ^ 31"
proof -
  have l: "ilog2 2 = Suc 0" by (simp add: ilog2.simps [of 2] ilog2.simps [of 1] ilog2.simps [of "Suc 0"])
  have n: "int_to_num 2 = 0x4000000000000000" by (simp add: int_to_num_def l)
  have "up_keys (Suc (Suc 0)) = [LInteger 1, LInteger 2]" by (simp add: up_keys_def)
  then have "args_table [LTable 1, LBoolean True] wit_cycle = (3, wit_cycle\<lparr>tabs := (tabs wit_cycle)(3 \<mapsto>
      \<lparr>entries = [(LInteger 1, LTable 1), (LInteger 2, LBoolean True)], t_persist = None\<rparr>), nexta := 4\<rparr>)"
    by (subst args_table_eq) (simp_all add: wit_cycle_def)
  then show ?thesis by (simp add: remote_payload_def n enc_eval wit_cycle_def)
qed


end
