(* ===== verification/Leda_Sysinfo.thy ===== *)
theory Leda_Sysinfo
  imports Leda_Lua
begin

text \<open>
  What the controller asks the operating system (\<open>src/kernel/kernel.c\<close>): the memory maps of
  the process, the processors, the physical memory. The answers of \<open>fopen\<close> and \<open>sysconf\<close> and
  the content of \<open>/proc/self/smaps\<close> are arguments; \<open>fgets\<close>, \<open>sscanf\<close> and \<open>strcmp\<close> are those of
  the C library.
\<close>

section \<open>Reading lines and fields\<close>

definition BUFSIZ :: nat where "BUFSIZ = 8192"

text \<open>\<open>fgets\<close>: up to \<open>size - 1\<close> bytes, none after a newline.\<close>

definition fgets :: "nat \<Rightarrow> byte list \<Rightarrow> (byte list \<times> byte list) option" where
  "fgets cap bs =
     (if bs = [] then None
      else let pre = take (cap - 1) bs; k = List.length (takeWhile (\<lambda>b. b \<noteq> 10) pre);
               n = (if k < List.length pre then Suc k else k)
           in Some (take n bs, drop n bs))"

definition isspace :: "byte \<Rightarrow> bool" where
  "isspace b \<longleftrightarrow> b = 32 \<or> (9 \<le> b \<and> b \<le> 13)"

definition isdigit :: "byte \<Rightarrow> bool" where
  "isdigit b \<longleftrightarrow> 48 \<le> b \<and> b \<le> 57"

fun digits_value :: "nat \<Rightarrow> byte list \<Rightarrow> nat" where
  "digits_value n [] = n"
| "digits_value n (d # ds) = digits_value (10 * n + (unat d - 48)) ds"

text \<open>
  The conversion \<open>%d\<close>: white space, a sign, digits. The value is read as a \<open>long\<close>, at most the
  greatest and at least the least, and stored in an \<open>int\<close>.
\<close>

definition scan_int :: "byte list \<Rightarrow> int option" where
  "scan_int bs =
     (let bs = dropWhile isspace bs; neg = (bs \<noteq> [] \<and> hd bs = 45);
          bs = (if bs \<noteq> [] \<and> (hd bs = 45 \<or> hd bs = 43) then tl bs else bs);
          ds = takeWhile isdigit bs; z = int (digits_value 0 ds)
      in if ds = [] then None
         else Some (c_int (if neg then max (- z) (- (2 ^ 63)) else min z (2 ^ 63 - 1))))"

text \<open>
  \<open>sscanf(line, "%32[^:]: %d kB", substr, &n) == 2\<close> with \<open>char substr[32]\<close>: up to 32 bytes other
  than a colon are stored, and a zero after them; then a colon, white space and a number have to
  follow. Whether \<open>kB\<close> does makes no difference to the result.
\<close>

definition SUBSTR :: nat where "SUBSTR = 32"

definition scan_entry :: "byte list \<Rightarrow> (byte list \<times> int) option result" where
  "scan_entry line =
     (let s = c_string line; key = take 32 (takeWhile (\<lambda>b. b \<noteq> 58) s); rest = drop (List.length key) s
      in if key = [] then Inr None
         else if SUBSTR < Suc (List.length key) then Inl OutOfBounds
         else if rest = [] \<or> hd rest \<noteq> 58 then Inr None
         else Inr (map_option (Pair key) (scan_int (tl rest))))"

section \<open>\<open>leda_get_smaps\<close>\<close>

record smaps_sizes =
  KernelPageSize :: int
  MMUPageSize :: int
  Private_Clean :: int
  Private_Dirty :: int
  Pss :: int
  Referenced :: int
  Rss :: int
  Shared_Clean :: int
  Shared_Dirty :: int
  Size :: int
  Swap :: int
  total :: int

definition no_sizes :: smaps_sizes where
  "no_sizes = \<lparr>KernelPageSize = 0, MMUPageSize = 0, Private_Clean = 0, Private_Dirty = 0, Pss = 0, Referenced = 0,
     Rss = 0, Shared_Clean = 0, Shared_Dirty = 0, Size = 0, Swap = 0, total = 0\<rparr>"

definition add_size :: "byte list \<Rightarrow> int \<Rightarrow> smaps_sizes \<Rightarrow> smaps_sizes" where
  "add_size key n z =
     (let z = (if key = lit ''KernelPageSize'' then z\<lparr>KernelPageSize := c_int (KernelPageSize z + n)\<rparr>
          else if key = lit ''MMUPageSize'' then z\<lparr>MMUPageSize := c_int (MMUPageSize z + n)\<rparr>
          else if key = lit ''Private_Clean'' then z\<lparr>Private_Clean := c_int (Private_Clean z + n)\<rparr>
          else if key = lit ''Private_Dirty'' then z\<lparr>Private_Dirty := c_int (Private_Dirty z + n)\<rparr>
          else if key = lit ''Pss'' then z\<lparr>Pss := c_int (Pss z + n)\<rparr>
          else if key = lit ''Referenced'' then z\<lparr>Referenced := c_int (Referenced z + n)\<rparr>
          else if key = lit ''Rss'' then z\<lparr>Rss := c_int (Rss z + n)\<rparr>
          else if key = lit ''Shared_Clean'' then z\<lparr>Shared_Clean := c_int (Shared_Clean z + n)\<rparr>
          else if key = lit ''Shared_Dirty'' then z\<lparr>Shared_Dirty := c_int (Shared_Dirty z + n)\<rparr>
          else if key = lit ''Size'' then z\<lparr>Size := c_int (Size z + n)\<rparr>
          else if key = lit ''Swap'' then z\<lparr>Swap := c_int (Swap z + n)\<rparr>
          else z)
      in z\<lparr>total := c_int (total z + n)\<rparr>)"

lemma fgets_shorter: "fgets (Suc (Suc n)) bs = Some (line, rest) \<Longrightarrow> List.length rest < List.length bs"
  by (cases bs) (auto simp: fgets_def Let_def split: if_splits)

function smaps_loop :: "byte list \<Rightarrow> smaps_sizes \<Rightarrow> smaps_sizes result" where
  "smaps_loop bs z = (case fgets BUFSIZ bs of
       None \<Rightarrow> Inr z
     | Some (line, rest) \<Rightarrow> rbind (scan_entry line) (\<lambda>e. smaps_loop rest (case e of
         None \<Rightarrow> z
       | Some (key, n) \<Rightarrow> add_size key n z)))"
  by pat_completeness auto
termination
proof (relation "measure (\<lambda>(bs, z). List.length bs)")
  fix bs :: "byte list" and z :: smaps_sizes and p line rest e
  assume "fgets BUFSIZ bs = Some p" and "(line, rest) = p"
  then have "List.length rest < List.length bs" using fgets_shorter [of 8190 bs line rest] by (simp add: BUFSIZ_def)
  then show "((rest, case e of None \<Rightarrow> z | Some (key, n) \<Rightarrow> add_size key n z), bs, z) \<in> measure (\<lambda>(bs, z). List.length bs)"
    by simp
qed simp

declare smaps_loop.simps [simp del]

text \<open>The table it returns, or \<open>nil\<close> and a message when the file cannot be opened.\<close>

datatype smaps_reply = SmapsTable "(string \<times> int) list" | SmapsFailed "lua_value list"

definition sizes_table :: "smaps_sizes \<Rightarrow> (string \<times> int) list" where
  "sizes_table z = [(''KernelPageSize'', KernelPageSize z), (''MMUPageSize'', MMUPageSize z),
     (''Private_Clean'', Private_Clean z), (''Private_Dirty'', Private_Dirty z), (''Pss'', Pss z),
     (''Referenced'', Referenced z), (''Rss'', Rss z), (''Shared_Clean'', Shared_Clean z),
     (''Shared_Dirty'', Shared_Dirty z), (''Size'', Size z), (''Swap'', Swap z), (''Total'', total z)]"

definition leda_get_smaps :: "byte list + byte list \<Rightarrow> smaps_reply result" where
  "leda_get_smaps file = (case file of
     Inl strerror \<Rightarrow> Inr (SmapsFailed [LNil, LString (lit ''Could not read memory status: '' @ strerror)])
   | Inr content \<Rightarrow> rbind (smaps_loop content no_sizes) (\<lambda>z. Inr (SmapsTable (sizes_table z))))"

section \<open>Processors and memory\<close>

text \<open>The values of \<open>sysconf\<close> and the text of \<open>strerror(errno)\<close> are arguments.\<close>

definition leda_number_of_cpus :: "c_long \<Rightarrow> c_long \<Rightarrow> string \<Rightarrow> lua_value list result" where
  "leda_number_of_cpus nprocs nprocs_max err =
     (if sint nprocs < 1 then Inl (LuaError (''Could not determine number of CPUs online:'' @ [CHR 0x0A] @ err @ [CHR 0x0A]))
      else if sint nprocs_max < 1 then Inl (LuaError (''Could not determine number of CPUs configured:'' @ [CHR 0x0A] @ err @ [CHR 0x0A]))
      else Inr [LNumber (int_to_num (sint nprocs)), LNumber (int_to_num (sint nprocs_max))])"

definition leda_get_system_memory :: "c_long \<Rightarrow> c_long \<Rightarrow> lua_value list" where
  "leda_get_system_memory pages page_size =
     [LNumber (int_to_num (sint (pages * page_size))), LInteger (sint pages), LInteger (sint page_size)]"

text \<open>
  The size of the memory is the product of the two other values below \<open>2 ^ 53\<close> bytes, where
  neither the product of two \<open>long\<close> nor its conversion loses anything.
\<close>

lemma system_memory_product:
  assumes "leda_get_system_memory pages page_size = [LNumber m, LNumber p, LNumber s]"
    and "0 \<le> sint pages" and "0 \<le> sint page_size" and "sint pages * sint page_size < 2 ^ 53"
    and "sint pages < 2 ^ 53" and "sint page_size < 2 ^ 53"
  shows "num_to_int m = num_to_int p * num_to_int s"
proof -
  have "sint (pages * page_size) = signed_take_bit 63 (sint pages * sint page_size)"
    by (simp add: sint_word_mult)
  moreover have "0 \<le> sint pages * sint page_size" using assms(2,3) by simp
  ultimately have "sint (pages * page_size) = sint pages * sint page_size"
    using assms(4) by (simp add: signed_take_bit_int_eq_self)
  then show ?thesis using assms by (auto simp: leda_get_system_memory_def LInteger_def num_to_int_of_int)
qed

section \<open>The lines of the file\<close>

text \<open>
  The lines the kernel of the operating system prints for a map: amounts (\<open>Rss: 12 kB\<close>), words
  (\<open>VmFlags: rd mr\<close>), and a heading with the address range, the permissions and the offset, whose
  numbers have eight hexadecimal digits at least.
\<close>

datatype smaps_line = Amount "byte list" nat "byte list" "byte list" | Words "byte list" "byte list"

fun line_text :: "smaps_line \<Rightarrow> byte list" where
  "line_text (Amount key pad ds unit) = key @ 58 # replicate pad 32 @ ds @ unit"
| "line_text (Words key ws) = key @ 58 # 32 # ws"

definition file_text :: "smaps_line list \<Rightarrow> byte list" where
  "file_text ls = concat (map (\<lambda>l. line_text l @ [10]) ls)"

definition key_ok :: "byte list \<Rightarrow> bool" where
  "key_ok key \<longleftrightarrow> key \<noteq> [] \<and> List.length key < 32 \<and> 58 \<notin> set key"

fun line_ok :: "smaps_line \<Rightarrow> bool" where
  "line_ok (Amount key pad ds unit) \<longleftrightarrow> key_ok key \<and> ds \<noteq> [] \<and> (\<forall>d \<in> set ds. isdigit d) \<and> (unit = [] \<or> \<not> isdigit (hd unit))"
| "line_ok (Words key ws) \<longleftrightarrow> key_ok key \<and> ws \<noteq> [] \<and> 97 \<le> hd ws \<and> hd ws \<le> 122"

definition plain_line :: "smaps_line \<Rightarrow> bool" where
  "plain_line l \<longleftrightarrow> line_ok l \<and> 0 \<notin> set (line_text l) \<and> 10 \<notin> set (line_text l) \<and> List.length (line_text l) \<le> 8190"

fun line_amount :: "smaps_line \<Rightarrow> (byte list \<times> int) list" where
  "line_amount (Amount key pad ds unit) = [(key, int (digits_value 0 ds))]"
| "line_amount (Words key ws) = []"

definition amounts :: "smaps_line list \<Rightarrow> (byte list \<times> int) list" where
  "amounts ls = concat (map line_amount ls)"

definition heading :: "byte list \<Rightarrow> byte list \<Rightarrow> byte list \<Rightarrow> byte list \<Rightarrow> byte list" where
  "heading start stop perms off = start @ 45 # stop @ 32 # perms @ 32 # off @ [32]"

definition isxdigit :: "byte \<Rightarrow> bool" where
  "isxdigit b \<longleftrightarrow> isdigit b \<or> (97 \<le> b \<and> b \<le> 102)"

lemma fgets_line:
  assumes "10 \<notin> set l" and "List.length l \<le> 8190"
  shows "fgets BUFSIZ (l @ 10 # rest) = Some (l @ [10], rest)"
proof -
  have pre: "take (8192 - 1) (l @ 10 # rest) = l @ 10 # take (8190 - List.length l) rest"
    using assms(2) by (simp add: take_Cons' Suc_diff_le)
  have tw: "takeWhile (\<lambda>b. b \<noteq> 10) (l @ 10 # take (8190 - List.length l) rest) = l"
    using assms(1) by (subst takeWhile_append2) auto
  show ?thesis unfolding fgets_def BUFSIZ_def pre Let_def tw by simp
qed

lemma c_string_plain: "0 \<notin> set l \<Longrightarrow> c_string l = l"
  by (simp add: c_string_def takeWhile_eq_all_conv) (metis)

lemma scan_key:
  assumes "key_ok key" and "0 \<notin> set (key @ 58 # rest)"
  shows "scan_entry (key @ 58 # rest) = Inr (map_option (Pair key) (scan_int rest))"
proof -
  have "takeWhile (\<lambda>b. b \<noteq> 58) (key @ 58 # rest) = key"
    using assms(1) by (subst takeWhile_append2) (auto simp: key_ok_def)
  then show ?thesis using assms(1) c_string_plain [OF assms(2)]
    by (simp add: scan_entry_def Let_def key_ok_def SUBSTR_def)
qed

lemma isdigit_first: "isdigit d \<Longrightarrow> \<not> isspace d \<and> d \<noteq> 45 \<and> d \<noteq> 43"
  by (auto simp: isdigit_def isspace_def word_le_nat_alt)

lemma scan_amount:
  assumes "ds \<noteq> []" and "\<forall>d \<in> set ds. isdigit d" and "unit = [] \<or> \<not> isdigit (hd unit)" and "int (digits_value 0 ds) < 2 ^ 31"
  shows "scan_int (replicate pad 32 @ ds @ unit) = Some (int (digits_value 0 ds))"
proof -
  obtain d ds' where ds: "ds = d # ds'" using assms(1) by (cases ds) auto
  have d: "\<not> isspace d" "d \<noteq> 45" "d \<noteq> 43" using isdigit_first assms(2) ds by auto
  have "dropWhile isspace (replicate pad 32 @ ds @ unit) = ds @ unit"
    using d(1) by (subst dropWhile_append2) (auto simp: isspace_def ds)
  moreover have "takeWhile isdigit (ds @ unit) = ds"
    using assms(2,3) by (cases unit) (auto simp: takeWhile_append2 takeWhile_eq_all_conv)
  ultimately show ?thesis using assms(4) ds d(2,3) by (simp add: scan_int_def Let_def)
qed

lemma scan_words:
  assumes "ws \<noteq> []" and "97 \<le> hd ws" and "hd ws \<le> 122"
  shows "scan_int (32 # ws) = None"
proof -
  obtain w ws' where ws: "ws = w # ws'" using assms(1) by (cases ws) auto
  have "\<not> isspace w" "w \<noteq> 45" "w \<noteq> 43" "\<not> isdigit w"
    using assms(2,3) ws by (auto simp: isspace_def isdigit_def word_le_nat_alt)
  moreover have "isspace 32" by (simp add: isspace_def)
  ultimately show ?thesis by (simp add: scan_int_def Let_def ws)
qed

text \<open>Which amount a line gives.\<close>

lemma scan_line:
  assumes "line_ok l" and "0 \<notin> set (line_text l)" and "\<forall>(k, n) \<in> set (line_amount l). n < 2 ^ 31"
  shows "scan_entry (line_text l @ [10]) = Inr (case line_amount l of [] \<Rightarrow> None | e # _ \<Rightarrow> Some e)"
proof (cases l)
  case (Amount key pad ds unit)
  have "scan_int (replicate pad 32 @ ds @ (unit @ [10])) = Some (int (digits_value 0 ds))"
    using assms(1,3) Amount by (intro scan_amount) (auto simp: isdigit_def word_le_nat_alt hd_append)
  then show ?thesis using scan_key [of key "replicate pad 32 @ ds @ unit @ [10]"] assms(1,2) Amount by simp
next
  case (Words key ws)
  have "scan_int (32 # (ws @ [10])) = None" using assms(1) Words by (intro scan_words) auto
  then show ?thesis using scan_key [of key "32 # ws @ [10]"] assms(1,2) Words by simp
qed

section \<open>The sums\<close>

definition sum_of :: "string \<Rightarrow> (byte list \<times> int) list \<Rightarrow> int" where
  "sum_of name es = sum_list (map snd (filter (\<lambda>e. fst e = lit name) es))"

definition sum_all :: "(byte list \<times> int) list \<Rightarrow> int" where
  "sum_all es = sum_list (map snd es)"

definition sizes_of :: "(byte list \<times> int) list \<Rightarrow> smaps_sizes" where
  "sizes_of es = \<lparr>KernelPageSize = sum_of ''KernelPageSize'' es, MMUPageSize = sum_of ''MMUPageSize'' es,
     Private_Clean = sum_of ''Private_Clean'' es, Private_Dirty = sum_of ''Private_Dirty'' es, Pss = sum_of ''Pss'' es,
     Referenced = sum_of ''Referenced'' es, Rss = sum_of ''Rss'' es, Shared_Clean = sum_of ''Shared_Clean'' es,
     Shared_Dirty = sum_of ''Shared_Dirty'' es, Size = sum_of ''Size'' es, Swap = sum_of ''Swap'' es, total = sum_all es\<rparr>"

definition bounded :: "(byte list \<times> int) list \<Rightarrow> bool" where
  "bounded es \<longleftrightarrow> (\<forall>e \<in> set es. 0 \<le> snd e) \<and> sum_all es < 2 ^ 31"

lemma sum_of_snoc: "sum_of name (es @ [(key, n)]) = (if key = lit name then sum_of name es + n else sum_of name es)"
  by (simp add: sum_of_def)

lemma sum_all_snoc: "sum_all (es @ [(key, n)]) = sum_all es + n"
  by (simp add: sum_all_def)

lemma sum_of_bounds:
  assumes "bounded es"
  shows "0 \<le> sum_of name es" and "sum_of name es \<le> sum_all es"
proof -
  have nn: "\<forall>e \<in> set es. 0 \<le> snd e" using assms by (simp add: bounded_def)
  then show "0 \<le> sum_of name es" by (auto simp: sum_of_def intro!: sum_list_nonneg)
  show "sum_of name es \<le> sum_all es" using nn by (induction es) (auto simp: sum_of_def sum_all_def)
qed

lemma sum_all_nonneg: "bounded es \<Longrightarrow> 0 \<le> sum_all es"
  by (auto simp: bounded_def sum_all_def intro!: sum_list_nonneg)

lemma bounded_append:
  assumes "bounded (es @ fs)"
  shows "bounded es"
proof -
  have "0 \<le> sum_all fs" using assms by (auto simp: bounded_def sum_all_def intro!: sum_list_nonneg)
  then show ?thesis using assms by (auto simp: bounded_def sum_all_def)
qed

lemma lit_eq [simp]: "lit a = lit b \<longleftrightarrow> a = b"
proof -
  have "inj (\<lambda>c :: char. of_nat (of_char c) :: byte)"
  proof (rule injI)
    fix c d :: char
    assume "(of_nat (of_char c) :: byte) = of_nat (of_char d)"
    then have "unat (of_nat (of_char c) :: byte) = unat (of_nat (of_char d) :: byte)" by simp
    then have "(of_char c :: nat) = of_char d" by (simp add: unat_of_nat)
    then show "c = d" by simp
  qed
  then show ?thesis unfolding lit_def by (rule inj_map_eq_map)
qed

definition smaps_names :: "string list" where
  "smaps_names = [''KernelPageSize'', ''MMUPageSize'', ''Private_Clean'', ''Private_Dirty'', ''Pss'', ''Referenced'',
     ''Rss'', ''Shared_Clean'', ''Shared_Dirty'', ''Size'', ''Swap'']"

text \<open>One addition, name by name.\<close>

lemma add_size_names:
  "add_size (lit ''KernelPageSize'') n z = z\<lparr>KernelPageSize := c_int (KernelPageSize z + n), total := c_int (total z + n)\<rparr>"
  "add_size (lit ''MMUPageSize'') n z = z\<lparr>MMUPageSize := c_int (MMUPageSize z + n), total := c_int (total z + n)\<rparr>"
  "add_size (lit ''Private_Clean'') n z = z\<lparr>Private_Clean := c_int (Private_Clean z + n), total := c_int (total z + n)\<rparr>"
  "add_size (lit ''Private_Dirty'') n z = z\<lparr>Private_Dirty := c_int (Private_Dirty z + n), total := c_int (total z + n)\<rparr>"
  "add_size (lit ''Pss'') n z = z\<lparr>Pss := c_int (Pss z + n), total := c_int (total z + n)\<rparr>"
  "add_size (lit ''Referenced'') n z = z\<lparr>Referenced := c_int (Referenced z + n), total := c_int (total z + n)\<rparr>"
  "add_size (lit ''Rss'') n z = z\<lparr>Rss := c_int (Rss z + n), total := c_int (total z + n)\<rparr>"
  "add_size (lit ''Shared_Clean'') n z = z\<lparr>Shared_Clean := c_int (Shared_Clean z + n), total := c_int (total z + n)\<rparr>"
  "add_size (lit ''Shared_Dirty'') n z = z\<lparr>Shared_Dirty := c_int (Shared_Dirty z + n), total := c_int (total z + n)\<rparr>"
  "add_size (lit ''Size'') n z = z\<lparr>Size := c_int (Size z + n), total := c_int (total z + n)\<rparr>"
  "add_size (lit ''Swap'') n z = z\<lparr>Swap := c_int (Swap z + n), total := c_int (total z + n)\<rparr>"
  by (simp_all add: add_size_def)

lemma add_size_other: "key \<notin> lit ` set smaps_names \<Longrightarrow> add_size key n z = z\<lparr>total := c_int (total z + n)\<rparr>"
  by (simp add: add_size_def smaps_names_def)

lemma add_size_sum:
  assumes "bounded (es @ [(key, n)])"
  shows "add_size key n (sizes_of es) = sizes_of (es @ [(key, n)])"
proof -
  note es = bounded_append [OF assms]
  have n: "0 \<le> n" "sum_all es + n < 2 ^ 31" using assms by (auto simp: bounded_def sum_all_def)
  have c: "c_int (sum_of name es + n) = sum_of name es + n" for name
    using sum_of_bounds [OF es, of name] n by (intro c_int_small) auto
  have t: "c_int (sum_all es + n) = sum_all es + n" using sum_all_nonneg [OF es] n by (intro c_int_small) auto
  show ?thesis
  proof (cases "key \<in> lit ` set smaps_names")
    case True
    then obtain name where name: "name \<in> set smaps_names" and key: "key = lit name" by blast
    show ?thesis using name unfolding smaps_names_def list.set insert_iff empty_iff key
      by (elim disjE FalseE; simp only:)
        (simp_all add: add_size_names sizes_of_def sum_of_snoc sum_all_snoc c t)
  next
    case False
    note o = add_size_other [OF False]
    show ?thesis using False unfolding o by (simp add: sizes_of_def sum_of_snoc sum_all_snoc t smaps_names_def)
  qed
qed

lemma amounts_Cons: "amounts (l # ls) = line_amount l @ amounts ls"
  by (simp add: amounts_def)

lemma file_text_Cons: "file_text (l # ls) = line_text l @ 10 # file_text ls"
  by (simp add: file_text_def)

lemma smaps_loop_line:
  assumes "plain_line l" and "bounded (es @ line_amount l)"
  shows "smaps_loop (line_text l @ 10 # rest) (sizes_of es) = smaps_loop rest (sizes_of (es @ line_amount l))"
proof -
  have small: "n < 2 ^ 31" if "(k, n) \<in> set (line_amount l)" for k n
  proof -
    have "0 \<le> sum_all es" using sum_all_nonneg bounded_append assms(2) by blast
    then show ?thesis using that assms(2) by (cases l) (auto simp: bounded_def sum_all_def)
  qed
  then have s: "scan_entry (line_text l @ [10]) = Inr (case line_amount l of [] \<Rightarrow> None | e # _ \<Rightarrow> Some e)"
    using assms(1) by (intro scan_line) (auto simp: plain_line_def)
  have f: "fgets BUFSIZ (line_text l @ 10 # rest) = Some (line_text l @ [10], rest)"
    using assms(1) by (intro fgets_line) (auto simp: plain_line_def)
  show ?thesis
    using assms(2) unfolding smaps_loop.simps [of "line_text l @ 10 # rest"] f option.case prod.case s rbind_simps
    by (cases l) (simp_all add: add_size_sum)
qed

lemma smaps_loop_lines:
  assumes "\<forall>l \<in> set ls. plain_line l" and "bounded (es @ amounts ls)"
  shows "smaps_loop (file_text ls @ rest) (sizes_of es) = smaps_loop rest (sizes_of (es @ amounts ls))"
  using assms
proof (induction ls arbitrary: es)
  case Nil
  then show ?case by (simp add: file_text_def amounts_def)
next
  case (Cons l ls)
  have b: "bounded ((es @ line_amount l) @ amounts ls)" using Cons.prems(2) by (simp add: amounts_Cons)
  then have "bounded (es @ line_amount l)" by (rule bounded_append)
  then have "smaps_loop (line_text l @ 10 # (file_text ls @ rest)) (sizes_of es) = smaps_loop (file_text ls @ rest) (sizes_of (es @ line_amount l))"
    using Cons.prems(1) by (intro smaps_loop_line) auto
  then show ?case using Cons.IH [OF _ b] Cons.prems(1) by (simp add: file_text_Cons amounts_Cons)
qed

lemma bounded_amounts:
  assumes "sum_all (amounts ls) < 2 ^ 31"
  shows "bounded (amounts ls)"
proof -
  have "0 \<le> snd e" if "e \<in> set (amounts ls)" for e
  proof -
    from that obtain l where "e \<in> set (line_amount l)" by (auto simp: amounts_def)
    then show ?thesis by (cases l) auto
  qed
  then show ?thesis using assms by (simp add: bounded_def)
qed

lemma no_sizes_of: "no_sizes = sizes_of []"
  by (simp add: no_sizes_def sizes_of_def sum_of_def sum_all_def)

lemma smaps_loop_end: "smaps_loop [] z = Inr z"
  by (subst smaps_loop.simps) (simp add: fgets_def)

text \<open>
  C29. The report on the memory maps. On lines of amounts and words whose names fit the buffer,
  \<open>leda_get_smaps\<close> returns for each of its eleven names the sum of the amounts under that name,
  and as the total the sum of all amounts, as long as this fits an \<open>int\<close>.
\<close>

theorem smaps_sums_amounts:
  assumes "\<forall>l \<in> set ls. plain_line l" and "sum_all (amounts ls) < 2 ^ 31"
  shows "leda_get_smaps (Inr (file_text ls)) =
     Inr (SmapsTable (map (\<lambda>name. (name, sum_of name (amounts ls))) smaps_names @ [(''Total'', sum_all (amounts ls))]))"
proof -
  have "bounded ([] @ amounts ls)" using bounded_amounts [OF assms(2)] by simp
  from smaps_loop_lines [OF assms(1) this, of "[]"]
  show ?thesis by (simp add: leda_get_smaps_def no_sizes_of smaps_loop_end sizes_table_def sizes_of_def smaps_names_def)
qed

theorem smaps_sums_amounts_witness:
  "leda_get_smaps (Inr (lit ''Rss:  8 kB'' @ [10] @ lit ''Swap: 0 kB'' @ [10] @ lit ''Rss: 34 kB'' @ [10] @ lit ''VmFlags: rd'' @ [10])) =
     Inr (SmapsTable [(''KernelPageSize'', 0), (''MMUPageSize'', 0), (''Private_Clean'', 0), (''Private_Dirty'', 0), (''Pss'', 0),
       (''Referenced'', 0), (''Rss'', 42), (''Shared_Clean'', 0), (''Shared_Dirty'', 0), (''Size'', 0), (''Swap'', 0), (''Total'', 42)])"
proof -
  let ?ls = "[Amount (lit ''Rss'') (Suc (Suc 0)) (lit ''8'') (lit '' kB''), Amount (lit ''Swap'') (Suc 0) (lit ''0'') (lit '' kB''),
    Amount (lit ''Rss'') (Suc 0) (lit ''34'') (lit '' kB''), Words (lit ''VmFlags'') (lit ''rd'')]"
  have ok: "\<forall>l \<in> set ?ls. plain_line l"
    by (simp add: plain_line_def key_ok_def isdigit_def lit_def)
  have am: "amounts ?ls = [(lit ''Rss'', 8), (lit ''Swap'', 0), (lit ''Rss'', 34)]"
    by (simp add: amounts_def lit_def)
  have tx: "file_text ?ls = lit ''Rss:  8 kB'' @ [10] @ lit ''Swap: 0 kB'' @ [10] @ lit ''Rss: 34 kB'' @ [10] @ lit ''VmFlags: rd'' @ [10]"
    by (simp add: file_text_def lit_def)
  have "sum_all (amounts ?ls) < 2 ^ 31" unfolding am by (simp add: sum_all_def)
  from smaps_sums_amounts [OF ok this] show ?thesis unfolding tx am by (simp add: sum_of_def sum_all_def smaps_names_def)
qed

text \<open>A line that starts with 32 bytes other than a colon.\<close>

lemma smaps_loop_long:
  assumes "\<forall>b \<in> set h. b \<noteq> 0 \<and> b \<noteq> 10 \<and> b \<noteq> 58" and "List.length h = 32"
  shows "smaps_loop (h @ rest) z = Inl OutOfBounds"
proof -
  have h: "h \<noteq> []" using assms(2) by auto
  have pre: "take (8192 - 1) (h @ rest) = h @ take 8159 rest" using assms(2) by simp
  have tw: "takeWhile (\<lambda>b. b \<noteq> 10) (h @ xs) = h @ takeWhile (\<lambda>b. b \<noteq> 10) xs" for xs
    using assms(1) by (simp add: takeWhile_append2)
  obtain x r where f: "fgets BUFSIZ (h @ rest) = Some (h @ x, r)"
    unfolding fgets_def BUFSIZ_def pre Let_def tw using h by simp
  have "c_string (h @ x) = h @ c_string x" using assms(1) by (simp add: c_string_def takeWhile_append2)
  moreover have "takeWhile (\<lambda>b. b \<noteq> 58) (h @ xs) = h @ takeWhile (\<lambda>b. b \<noteq> 58) xs" for xs
    using assms(1) by (simp add: takeWhile_append2)
  ultimately have "scan_entry (h @ x) = Inl OutOfBounds" using assms(2) h by (simp add: scan_entry_def Let_def SUBSTR_def)
  then show ?thesis unfolding smaps_loop.simps [of "h @ rest"] f by simp
qed

text \<open>
  C35. The heading of a map overflows the buffer. After any such lines, \<open>leda_get_smaps\<close> stores 33
  bytes in the 32 of \<open>substr\<close> when it comes to a heading: the format allows 32 bytes and adds a
  zero. In the real file the first line is a heading.
\<close>

theorem smaps_heading_overflow:
  assumes "\<forall>l \<in> set ls. plain_line l" and "sum_all (amounts ls) < 2 ^ 31"
    and "\<forall>b \<in> set (start @ stop @ off). isxdigit b" and "\<forall>b \<in> set perms. b \<in> set (lit ''rwxps-'')"
    and "8 \<le> List.length start" and "8 \<le> List.length stop" and "List.length perms = 4" and "8 \<le> List.length off"
  shows "leda_get_smaps (Inr (file_text ls @ heading start stop perms off @ rest)) = Inl OutOfBounds"
proof -
  let ?h = "heading start stop perms off"
  have "\<forall>b \<in> set ?h. isxdigit b \<or> b \<in> set (lit ''rwxps-'') \<or> b = 45 \<or> b = 32"
    using assms(3,4) by (auto simp: heading_def)
  moreover have "isxdigit b \<or> b \<in> set (lit ''rwxps-'') \<or> b = 45 \<or> b = 32 \<Longrightarrow> b \<noteq> 0 \<and> b \<noteq> 10 \<and> b \<noteq> 58" for b
    by (auto simp: isxdigit_def isdigit_def lit_def word_le_nat_alt)
  ultimately have "\<forall>b \<in> set (take 32 ?h). b \<noteq> 0 \<and> b \<noteq> 10 \<and> b \<noteq> 58" by (meson in_set_takeD)
  moreover have "List.length (take 32 ?h) = 32" using assms(5-8) by (simp add: heading_def)
  ultimately have o: "smaps_loop (take 32 ?h @ drop 32 ?h @ rest) z = Inl OutOfBounds" for z by (rule smaps_loop_long)
  have "smaps_loop (file_text ls @ ?h @ rest) (sizes_of []) = smaps_loop (?h @ rest) (sizes_of ([] @ amounts ls))"
    using smaps_loop_lines [OF assms(1), of "[]"] bounded_amounts [OF assms(2)] by simp
  moreover have "smaps_loop (?h @ rest) z = Inl OutOfBounds" for z using o by (metis append.assoc append_take_drop_id)
  ultimately show ?thesis by (simp only: leda_get_smaps_def no_sizes_of sum.case rbind_simps)
qed

theorem smaps_heading_overflow_witness:
  "leda_get_smaps (Inr (lit ''55d0c8a00000-55d0c8a21000 r--p 00000000 08:02 42 /bin/leda'' @ [10])) = Inl OutOfBounds"
proof -
  have x: "\<forall>b \<in> set (lit ''55d0c8a00000'' @ lit ''55d0c8a21000'' @ lit ''00000000''). isxdigit b"
    by (simp add: lit_def isxdigit_def isdigit_def)
  have p: "\<forall>b \<in> set (lit ''r--p''). b \<in> set (lit ''rwxps-'')" by (simp add: lit_def)
  have h: "heading (lit ''55d0c8a00000'') (lit ''55d0c8a21000'') (lit ''r--p'') (lit ''00000000'') @ lit ''08:02 42 /bin/leda'' @ [10]
     = lit ''55d0c8a00000-55d0c8a21000 r--p 00000000 08:02 42 /bin/leda'' @ [10]"
    by (simp add: heading_def lit_def)
  from smaps_heading_overflow [of "[]", OF _ _ x p, of "lit ''08:02 42 /bin/leda'' @ [10]"]
  show ?thesis unfolding h by (simp add: lit_def amounts_def sum_all_def file_text_def)
qed

end
