(* ===== verification/Leda_Tbb.thy ===== *)
theory Leda_Tbb
  imports Leda_Atomic Leda_Queue
begin

text \<open>
  The back ends the Makefile selects by default: queues and atomic integers over Intel TBB
  (\<open>src/kernel/tbb_queue.cpp\<close>, \<open>tbb_atomic.cpp\<close>). The classes of TBB are arguments, records of
  their member functions; what their documentation promises is stated by \<open>bounded_queue_laws\<close> and
  \<open>atomic_laws\<close>. Both back ends are compared with those in C.
\<close>

section \<open>Queues\<close>

text \<open>
  \<open>tbb::concurrent_bounded_queue\<close>. A \<open>push\<close> or \<open>pop\<close> that has to wait gives \<open>None\<close>.
\<close>

record ('b, 'x) tbb_class =
  cb_new :: 'b
  cb_push :: "'b \<Rightarrow> 'x \<Rightarrow> 'b option"
  cb_try_push :: "'b \<Rightarrow> 'x \<Rightarrow> bool \<times> 'b"
  cb_pop :: "'b \<Rightarrow> ('x \<times> 'b) option"
  cb_try_pop :: "'b \<Rightarrow> 'x option \<times> 'b"
  cb_size :: "'b \<Rightarrow> int"
  cb_empty :: "'b \<Rightarrow> bool"
  cb_capacity :: "'b \<Rightarrow> int"
  cb_set_capacity :: "'b \<Rightarrow> int \<Rightarrow> 'b"
  cb_clear :: "'b \<Rightarrow> 'b"

definition tbb_queue_new :: "('b, 'x) tbb_class \<Rightarrow> 'b" where
  "tbb_queue_new T = cb_new T"

definition tbb_queue_push :: "('b, 'x) tbb_class \<Rightarrow> 'b \<Rightarrow> 'x \<Rightarrow> 'b option" where
  "tbb_queue_push T q source = cb_push T q source"

definition tbb_queue_set_capacity :: "('b, 'x) tbb_class \<Rightarrow> 'b \<Rightarrow> int \<Rightarrow> 'b" where
  "tbb_queue_set_capacity T q n = cb_set_capacity T q n"

text \<open>Size and capacity are \<open>ptrdiff_t\<close>; the functions return an \<open>int\<close>.\<close>

definition tbb_queue_size :: "('b, 'x) tbb_class \<Rightarrow> 'b \<Rightarrow> int" where
  "tbb_queue_size T q = c_int (cb_size T q)"

definition tbb_queue_capacity :: "('b, 'x) tbb_class \<Rightarrow> 'b \<Rightarrow> int" where
  "tbb_queue_capacity T q = c_int (cb_capacity T q)"

definition tbb_queue_try_push :: "('b, 'x) tbb_class \<Rightarrow> 'b \<Rightarrow> 'x \<Rightarrow> (bool \<times> 'b) result" where
  "tbb_queue_try_push T q source = Inr (cb_try_push T q source)"

definition tbb_queue_isempty :: "('b, 'x) tbb_class \<Rightarrow> 'b \<Rightarrow> bool" where
  "tbb_queue_isempty T q = cb_empty T q"

definition tbb_queue_pop :: "('b, 'x) tbb_class \<Rightarrow> 'b \<Rightarrow> ('x \<times> 'b) option" where
  "tbb_queue_pop T q = cb_pop T q"

definition tbb_queue_try_pop :: "('b, 'x) tbb_class \<Rightarrow> 'b \<Rightarrow> ('x option \<times> 'b) result" where
  "tbb_queue_try_pop T q = Inr (cb_try_pop T q)"

text \<open>\<open>queue_free\<close> of a pointer: the queue is cleared, both objects are deleted.\<close>

definition tbb_queue_free :: "('b, 'x) tbb_class \<Rightarrow> 'b option \<Rightarrow> 'b option" where
  "tbb_queue_free T q = map_option (cb_clear T) q"

text \<open>
  The documented behaviour: a queue \<open>q\<close> of capacity \<open>c\<close>, unbounded when negative, holds the list
  \<open>xs\<close>. It is full when it holds \<open>c\<close> elements or more.
\<close>

definition full :: "int \<Rightarrow> 'x list \<Rightarrow> bool" where
  "full c xs \<longleftrightarrow> 0 \<le> c \<and> c \<le> int (length xs)"

definition bounded_queue_laws :: "('b, 'x) tbb_class \<Rightarrow> ('b \<Rightarrow> int \<Rightarrow> 'x list \<Rightarrow> bool) \<Rightarrow> bool" where
  "bounded_queue_laws T holds \<longleftrightarrow>
     holds (cb_new T) (- 1) [] \<and>
     (\<forall>q c xs. holds q c xs \<longrightarrow>
        (\<forall>n. holds (cb_set_capacity T q n) n xs) \<and>
        (\<forall>x. fst (cb_try_push T q x) = (\<not> full c xs) \<and>
             holds (snd (cb_try_push T q x)) c (if full c xs then xs else xs @ [x])) \<and>
        fst (cb_try_pop T q) = (case xs of [] \<Rightarrow> None | x # _ \<Rightarrow> Some x) \<and>
        holds (snd (cb_try_pop T q)) c (tl xs))"

text \<open>The capacity is never set below the number of elements.\<close>

fun capacity_kept :: "int \<Rightarrow> nat \<Rightarrow> 'x qcall list \<Rightarrow> bool" where
  "capacity_kept c n [] \<longleftrightarrow> True"
| "capacity_kept c n (TryPush x # cs) \<longleftrightarrow> capacity_kept c (if 0 \<le> c \<and> int n = c then n else Suc n) cs"
| "capacity_kept c n (TryPop # cs) \<longleftrightarrow> capacity_kept c (n - 1) cs"
| "capacity_kept c n (SetCapacity m # cs) \<longleftrightarrow> (m < 0 \<or> int n \<le> m) \<and> capacity_kept m n cs"

lemma bounded_queue_lawsD:
  assumes "bounded_queue_laws T holds" and "holds q c xs"
  shows "holds (cb_set_capacity T q n) n xs"
    and "\<exists>q'. cb_try_push T q x = (\<not> full c xs, q') \<and> holds q' c (if full c xs then xs else xs @ [x])"
    and "\<exists>q'. cb_try_pop T q = ((case xs of [] \<Rightarrow> None | x # _ \<Rightarrow> Some x), q') \<and> holds q' c (tl xs)"
proof -
  have law: "(\<forall>n. holds (cb_set_capacity T q n) n xs) \<and>
        (\<forall>x. fst (cb_try_push T q x) = (\<not> full c xs) \<and>
             holds (snd (cb_try_push T q x)) c (if full c xs then xs else xs @ [x])) \<and>
        fst (cb_try_pop T q) = (case xs of [] \<Rightarrow> None | x # _ \<Rightarrow> Some x) \<and>
        holds (snd (cb_try_pop T q)) c (tl xs)"
    using assms unfolding bounded_queue_laws_def by blast
  then show "holds (cb_set_capacity T q n) n xs" by blast
  show "\<exists>q'. cb_try_push T q x = (\<not> full c xs, q') \<and> holds q' c (if full c xs then xs else xs @ [x])"
    by (rule exI [of _ "snd (cb_try_push T q x)"]) (use law in \<open>auto simp: prod_eq_iff\<close>)
  show "\<exists>q'. cb_try_pop T q = ((case xs of [] \<Rightarrow> None | x # _ \<Rightarrow> Some x), q') \<and> holds q' c (tl xs)"
    by (rule exI [of _ "snd (cb_try_pop T q)"]) (use law in \<open>auto simp: prod_eq_iff\<close>)
qed

abbreviation tbb_run :: "('b, 'x) tbb_class \<Rightarrow> 'b \<Rightarrow> 'x qcall list \<Rightarrow> ('x qret list \<times> 'b) result" where
  "tbb_run T \<equiv> run_queue (tbb_queue_set_capacity T) (tbb_queue_try_push T) (tbb_queue_try_pop T)"

lemma tbb_runs_fifo:
  assumes "bounded_queue_laws T holds"
  shows "holds q c xs \<Longrightarrow> c < 0 \<or> int (length xs) \<le> c \<Longrightarrow> capacity_kept c (length xs) cs \<Longrightarrow>
     \<exists>q'. tbb_run T q cs = Inr (fst (fifo_spec c xs cs), q')"
proof (induction cs arbitrary: q c xs)
  case Nil
  then show ?case by simp
next
  case (Cons a cs)
  note law = bounded_queue_lawsD [OF assms Cons.prems(1)]
  show ?case
  proof (cases a)
    case (TryPush x)
    have f: "full c xs \<longleftrightarrow> 0 \<le> c \<and> int (length xs) = c" using Cons.prems(2) by (auto simp: full_def)
    define ys where "ys = (if full c xs then xs else xs @ [x])"
    from law(2) [of x] obtain q1 where q1: "cb_try_push T q x = (\<not> full c xs, q1)" "holds q1 c ys" unfolding ys_def by blast
    have "c < 0 \<or> int (length ys) \<le> c" using Cons.prems(2) f by (auto simp: ys_def)
    moreover have "capacity_kept c (length ys) cs" using Cons.prems(3) f by (auto simp: TryPush ys_def split: if_splits)
    ultimately obtain q' where "tbb_run T q1 cs = Inr (fst (fifo_spec c ys cs), q')" using Cons.IH q1(2) by blast
    moreover have "tbb_queue_try_push T q x = Inr (\<not> full c xs, q1)" by (simp add: tbb_queue_try_push_def q1(1))
    ultimately show ?thesis using f by (cases "full c xs") (auto simp: TryPush ys_def split_beta Let_def)
  next
    case TryPop
    from law(3) obtain q1 where q1: "cb_try_pop T q = ((case xs of [] \<Rightarrow> None | x # _ \<Rightarrow> Some x), q1)" "holds q1 c (tl xs)" by blast
    have "c < 0 \<or> int (length (tl xs)) \<le> c" "capacity_kept c (length (tl xs)) cs" using Cons.prems(2,3) by (auto simp: TryPop)
    then obtain q' where "tbb_run T q1 cs = Inr (fst (fifo_spec c (tl xs) cs), q')" using Cons.IH q1(2) by blast
    moreover have "tbb_queue_try_pop T q = Inr ((case xs of [] \<Rightarrow> None | x # _ \<Rightarrow> Some x), q1)" by (simp add: tbb_queue_try_pop_def q1(1))
    ultimately show ?thesis by (cases xs) (simp_all add: TryPop split_beta Let_def)
  next
    case (SetCapacity m)
    have "m < 0 \<or> int (length xs) \<le> m" "capacity_kept m (length xs) cs" using Cons.prems(3) by (auto simp: SetCapacity)
    then obtain q' where "tbb_run T (cb_set_capacity T q m) cs = Inr (fst (fifo_spec m xs cs), q')" using Cons.IH law(1) by blast
    moreover have "tbb_queue_set_capacity T q m = cb_set_capacity T q m" by (simp add: tbb_queue_set_capacity_def)
    ultimately show ?thesis by (simp add: SetCapacity split_beta Let_def)
  qed
qed

text \<open>
  C14. The two back ends of the queues agree. From new queues, every sequence of \<open>queue_try_push\<close>,
  \<open>queue_try_pop\<close> and \<open>queue_set_capacity\<close> calls that never sets the capacity below the number of
  elements gives the same results with the code in C and with TBB, and neither runs into a fault.
\<close>

theorem queue_backends_agree:
  assumes "bounded_queue_laws T holds" and "capacity_kept (- 1) 0 cs"
  shows "\<exists>q rs q' t. queue_new True = Some q \<and>
     run_queue queue_set_capacity queue_try_push queue_try_pop q cs = Inr (rs, q') \<and>
     tbb_run T (tbb_queue_new T) cs = Inr (rs, t)"
proof -
  obtain q :: "'b LFQueue" where q: "queue_new True = Some q" and c: "capacity q = -1" by (simp add: queue_new_def)
  from lfq.refines_fifo [OF rep_new [OF q], of cs] c
  obtain q' where "run_queue queue_set_capacity queue_try_push queue_try_pop q cs = Inr (fst (fifo_spec (- 1) [] cs), q')" by auto
  moreover have "holds (tbb_queue_new T) (- 1) []" using assms(1) by (simp add: bounded_queue_laws_def tbb_queue_new_def)
  from tbb_runs_fifo [OF assms(1) this] assms(2) obtain t where "tbb_run T (tbb_queue_new T) cs = Inr (fst (fifo_spec (- 1) [] cs), t)" by auto
  ultimately show ?thesis using q by blast
qed

text \<open>
  They differ when the capacity is set below the number of elements: with the code in C the
  queue has no bound any more (\<open>queue_capacity_below_size\<close>), with TBB it is full.
\<close>

lemma tbb_capacity_below_size:
  assumes "bounded_queue_laws T holds" and "holds q c xs" and "0 \<le> n" and "n < int (length xs)"
  shows "\<exists>q'. tbb_run T q [SetCapacity n, TryPush x] = Inr ([Unit, Pushed False], q') \<and> holds q' n xs"
proof -
  have h: "holds (cb_set_capacity T q n) n xs" using bounded_queue_lawsD(1) [OF assms(1,2)] .
  have "full n xs" using assms(3,4) by (simp add: full_def)
  with bounded_queue_lawsD(2) [OF assms(1) h, of x] show ?thesis
    by (auto simp: tbb_queue_set_capacity_def tbb_queue_try_push_def)
qed

text \<open>The laws hold of a list with a bound.\<close>

definition list_class :: "(int \<times> 'x list, 'x) tbb_class" where
  "list_class = \<lparr>cb_new = (- 1, []),
     cb_push = (\<lambda>(c, xs) x. if full c xs then None else Some (c, xs @ [x])),
     cb_try_push = (\<lambda>(c, xs) x. if full c xs then (False, c, xs) else (True, c, xs @ [x])),
     cb_pop = (\<lambda>(c, xs). case xs of [] \<Rightarrow> None | x # ys \<Rightarrow> Some (x, c, ys)),
     cb_try_pop = (\<lambda>(c, xs). case xs of [] \<Rightarrow> (None, c, []) | x # ys \<Rightarrow> (Some x, c, ys)),
     cb_size = (\<lambda>(c, xs). int (length xs)), cb_empty = (\<lambda>(c, xs). xs = []), cb_capacity = fst,
     cb_set_capacity = (\<lambda>(c, xs) n. (n, xs)), cb_clear = (\<lambda>(c, xs). (c, []))\<rparr>"

lemma list_class_laws: "bounded_queue_laws list_class (\<lambda>q c xs. q = (c, xs))"
  by (simp add: bounded_queue_laws_def list_class_def split: list.split)

theorem queue_backends_agree_witness:
  "\<exists>q rs q' t. queue_new True = Some q \<and>
     run_queue queue_set_capacity queue_try_push queue_try_pop q [SetCapacity 1, TryPush (7 :: nat), TryPush 8, TryPop, TryPop] = Inr (rs, q') \<and>
     tbb_run list_class (tbb_queue_new list_class) [SetCapacity 1, TryPush 7, TryPush 8, TryPop, TryPop] = Inr (rs, t)"
  using queue_backends_agree [OF list_class_laws, of "[SetCapacity 1, TryPush (7 :: nat), TryPush 8, TryPop, TryPop]"] by simp

section \<open>Atomic integers\<close>

text \<open>\<open>tbb::atomic<long int>\<close>: the member functions return the old value.\<close>

record 'a atomic_class =
  at_store :: "c_long \<Rightarrow> 'a"
  at_value :: "'a \<Rightarrow> c_long"
  at_fetch_and_store :: "'a \<Rightarrow> c_long \<Rightarrow> c_long \<times> 'a"
  at_fetch_and_add :: "'a \<Rightarrow> c_long \<Rightarrow> c_long \<times> 'a"
  at_compare_and_swap :: "'a \<Rightarrow> c_long \<Rightarrow> c_long \<Rightarrow> c_long \<times> 'a"

definition tbb_atomic_new :: "'a atomic_class \<Rightarrow> c_long \<Rightarrow> 'a" where
  "tbb_atomic_new A i = at_store A i"

definition tbb_atomic_value :: "'a atomic_class \<Rightarrow> 'a \<Rightarrow> c_long" where
  "tbb_atomic_value A x = at_value A x"

definition tbb_atomic_fetch_and_store :: "'a atomic_class \<Rightarrow> 'a \<Rightarrow> c_long \<Rightarrow> c_long \<times> 'a" where
  "tbb_atomic_fetch_and_store A x y = at_fetch_and_store A x y"

definition tbb_atomic_fetch_and_add :: "'a atomic_class \<Rightarrow> 'a \<Rightarrow> c_long \<Rightarrow> c_long \<times> 'a" where
  "tbb_atomic_fetch_and_add A x y = at_fetch_and_add A x y"

definition tbb_atomic_compare_and_swap :: "'a atomic_class \<Rightarrow> 'a \<Rightarrow> c_long \<Rightarrow> c_long \<Rightarrow> c_long \<times> 'a" where
  "tbb_atomic_compare_and_swap A x y z = at_compare_and_swap A x y z"

definition atomic_laws :: "'a atomic_class \<Rightarrow> bool" where
  "atomic_laws A \<longleftrightarrow> (\<forall>i. at_value A (at_store A i) = i) \<and>
     (\<forall>a y. fst (at_fetch_and_store A a y) = at_value A a \<and> at_value A (snd (at_fetch_and_store A a y)) = y) \<and>
     (\<forall>a y. fst (at_fetch_and_add A a y) = at_value A a \<and> at_value A (snd (at_fetch_and_add A a y)) = at_value A a + y) \<and>
     (\<forall>a y z. fst (at_compare_and_swap A a y z) = at_value A a \<and>
        at_value A (snd (at_compare_and_swap A a y z)) = (if at_value A a = z then y else at_value A a))"

fun tbb_atomic_call :: "'a atomic_class \<Rightarrow> aop \<Rightarrow> 'a \<Rightarrow> c_long \<times> 'a" where
  "tbb_atomic_call A (AStore y) x = tbb_atomic_fetch_and_store A x y"
| "tbb_atomic_call A (AAdd y) x = tbb_atomic_fetch_and_add A x y"
| "tbb_atomic_call A (ACas y z) x = tbb_atomic_compare_and_swap A x y z"

fun atomic_calls :: "(aop \<Rightarrow> 'a \<Rightarrow> c_long \<times> 'a) \<Rightarrow> aop list \<Rightarrow> 'a \<Rightarrow> c_long list \<times> 'a" where
  "atomic_calls f [] x = ([], x)"
| "atomic_calls f (c # cs) x = (let (r, y) = f c x; (rs, z) = atomic_calls f cs y in (r # rs, z))"

text \<open>The two back ends of the atomic integers return the same values on every sequence of calls.\<close>

lemma atomic_backends_agree:
  assumes "atomic_laws A"
  shows "at_value A a = atomic_value x \<Longrightarrow>
     fst (atomic_calls (tbb_atomic_call A) cs a) = fst (atomic_calls atomic_call cs x) \<and>
     at_value A (snd (atomic_calls (tbb_atomic_call A) cs a)) = atomic_value (snd (atomic_calls atomic_call cs x))"
proof (induction cs arbitrary: a x)
  case (Cons c cs)
  have "fst (tbb_atomic_call A c a) = fst (atomic_call c x) \<and> at_value A (snd (tbb_atomic_call A c a)) = atomic_value (snd (atomic_call c x))"
    using assms Cons.prems
    by (cases c) (auto simp: atomic_laws_def tbb_atomic_fetch_and_store_def tbb_atomic_fetch_and_add_def
        tbb_atomic_compare_and_swap_def atomic_defs Let_def)
  with Cons.IH [of "snd (tbb_atomic_call A c a)" "snd (atomic_call c x)"] show ?case by (simp add: split_beta Let_def)
qed simp

end
