(* ===== verification/Leda_Timers.thy ===== *)
theory Leda_Timers
  imports Leda_Double
begin

text \<open>
  Timers and sleeping for the controller (\<open>src/kernel/kernel.c\<close>): the conversion of a Lua number
  of seconds into the \<open>struct timeval\<close> of a timer and into the microseconds of \<open>usleep\<close>.
\<close>

section \<open>Timers\<close>

record timeval =
  tm_sec :: int
  tm_usec :: int

definition timer_interval :: "rat \<Rightarrow> timeval" where
  "timer_interval t = \<lparr>tm_sec = to_long t, tm_usec = to_long (rnd (rnd (t - of_int (to_int t)) * 1000000))\<rparr>"

text \<open>
  \<open>add_timer\<close>: the identifier that the handler gets and the interval. An infinite number and NaN
  convert to the least integer, in both fields.
\<close>

definition add_timer :: "(byte list \<Rightarrow> lua_Number option) \<Rightarrow> lua_value list \<Rightarrow> int \<times> timeval" where
  "add_timer conv st =
     (let t = lua_tonumber conv st 1; n = c_int (lua_tointeger conv st 2)
      in (n, if num_exp t = 2047 then \<lparr>tm_sec = - (2 ^ 63), tm_usec = - (2 ^ 63)\<rparr> else timer_interval (num_val t)))"

text \<open>A double below 1 is at most the predecessor of 1.\<close>

lemma double_below_one:
  assumes "is_double d" and "0 \<le> d" and "d < 1"
  shows "d \<le> 1 - 1 / 2 ^ 53"
proof -
  from assms(1) obtain m e where d: "d = of_int m * 2 powi e" "\<bar>m\<bar> < 2 ^ 53" by (auto simp: is_double_def)
  show ?thesis
  proof (cases "- 53 \<le> e")
    case True
    define k where "k = m * 2 ^ nat (e + 53)"
    have "d = rat_of_int k * 2 powi (- 53)" using powi_split [of "- 53" e] True d(1) by (simp add: k_def)
    then have dk: "d = of_int k / 2 ^ 53" by (simp add: power_int_minus field_simps)
    then have "rat_of_int k < of_int (2 ^ 53)" using assms(3) by (simp add: pos_divide_less_eq)
    then have "k \<le> 2 ^ 53 - 1" by (simp only: of_int_less_iff zle_diff1_eq)
    then have "rat_of_int k \<le> of_int (2 ^ 53 - 1)" by (simp only: of_int_le_iff)
    then show ?thesis unfolding dk by (simp add: field_simps)
  next
    case False
    have "of_int \<bar>m\<bar> < rat_of_int (2 ^ 53)" using d(2) by (simp only: of_int_less_iff)
    then have "rat_of_int m \<le> 2 ^ 53" by simp
    then have "d \<le> 2 ^ 53 * 2 powi e" unfolding d(1) by (rule mult_right_mono) simp
    also have "\<dots> = 2 powi (53 + e)" by (simp add: power_int_add)
    also have "\<dots> \<le> 2 powi (- 1)" using False by (intro powi_mono) simp
    finally show ?thesis by (simp add: power_int_minus)
  qed
qed

text \<open>
  C34. The interval of a timer of \<open>t\<close> seconds, up to 2 ^ 31: the microseconds are below a million,
  and what is lost is less than a microsecond, a rounding error of the doubles aside.
\<close>

theorem timer_interval_normalised:
  assumes "is_double t" and "0 \<le> t" and "t < 2 ^ 31"
  shows "tm_sec (timer_interval t) = \<lfloor>t\<rfloor> \<and> 0 \<le> tm_usec (timer_interval t) \<and> tm_usec (timer_interval t) < 1000000 \<and>
     \<bar>of_int \<lfloor>t\<rfloor> + of_int (tm_usec (timer_interval t)) / 1000000 - t\<bar> \<le> 1000001 / 1000000000000"
proof -
  define d where "d = t - of_int \<lfloor>t\<rfloor>"
  have f: "0 \<le> \<lfloor>t\<rfloor>" "\<lfloor>t\<rfloor> < 2 ^ 31" using assms(2,3) by (simp_all add: floor_less_iff)
  then have c: "to_int t = \<lfloor>t\<rfloor>" "to_long t = \<lfloor>t\<rfloor>" using assms(2) by (simp_all add: to_int_def to_long_def trunc_def)
  have dd: "is_double d" unfolding d_def using double_parts(2) [OF assms(1,2)] .
  have d: "0 \<le> d" "d < 1" unfolding d_def by linarith+
  note d1 = double_below_one [OF dd d]
  define y where "y = rnd (d * 1000000)"
  have y: "0 \<le> y" using d rnd_nonneg [of "d * 1000000"] by (simp add: y_def)
  have u: "2 powi (20 - 54) = 1 / (17179869184 :: rat)" by (simp add: power_int_def power_divide)
  have ye: "\<bar>y - d * 1000000\<bar> \<le> 1 / 17179869184" unfolding u [symmetric] y_def using d by (intro rnd_error) simp_all
  have "y < 1000000" using ye d1 by (simp only: abs_le_iff) (simp add: field_simps)
  then have n: "0 \<le> \<lfloor>y\<rfloor>" "\<lfloor>y\<rfloor> < 1000000" "of_int \<lfloor>y\<rfloor> \<le> y" "y < of_int \<lfloor>y\<rfloor> + 1" using y by linarith+
  have t: "tm_usec (timer_interval t) = \<lfloor>y\<rfloor>"
    using n y c rnd_is_double [OF dd] by (simp add: timer_interval_def d_def [symmetric] y_def [symmetric] to_long_def trunc_def)
  have "t = of_int \<lfloor>t\<rfloor> + d" by (simp add: d_def)
  then have "\<bar>of_int \<lfloor>t\<rfloor> + of_int \<lfloor>y\<rfloor> / 1000000 - t\<bar> \<le> 1000001 / 1000000000000" using n ye by linarith
  then show ?thesis unfolding t using n c by (simp add: timer_interval_def)
qed

text \<open>Beyond, the conversion to \<open>int\<close> gives the least \<open>int\<close>, and the time is counted twice.\<close>

lemma long_timer_counted_twice:
  assumes "2 ^ 31 \<le> t"
  shows "timer_interval t = \<lparr>tm_sec = to_long t, tm_usec = to_long (rnd (rnd (t + 2147483648) * 1000000))\<rparr>"
proof -
  have "2 ^ 31 \<le> \<lfloor>t\<rfloor>" using assms by (simp add: le_floor_iff)
  then have "to_int t = - (2 ^ 31)" using assms by (simp add: to_int_def trunc_def)
  then show ?thesis by (simp add: timer_interval_def)
qed

theorem timer_interval_normalised_witness:
  "tm_sec (timer_interval (5 / 2)) = 2 \<and> tm_usec (timer_interval (5 / 2)) < 1000000 \<and>
     \<bar>2 + of_int (tm_usec (timer_interval (5 / 2))) / 1000000 - (5 / 2 :: rat)\<bar> \<le> 1000001 / 1000000000000"
proof -
  have "is_double (5 / 2)" unfolding is_double_def by (intro exI [of _ 5] exI [of _ "- 1"]) (simp add: power_int_minus)
  moreover have "\<lfloor>5 / 2 :: rat\<rfloor> = 2" by (rule floor_unique) simp_all
  ultimately show ?thesis using timer_interval_normalised [of "5 / 2"] by simp
qed

section \<open>Sleeping\<close>

text \<open>\<open>leda_sleep_\<close>: the argument of \<open>usleep\<close>, a \<open>useconds_t\<close> of 32 bits.\<close>

definition leda_sleep_usecs :: "rat \<Rightarrow> int" where
  "leda_sleep_usecs n = to_unsigned (rnd (n * 1000000))"

text \<open>Sleeping for 4295 seconds ends after less than a tenth of a second.\<close>

lemma long_sleep_wraps: "leda_sleep_usecs 4295 = 32704"
proof -
  have "rnd (4295 * 1000000) = 4295 * 1000000" using rnd_is_double [OF is_double_int [of "4295 * 1000000"]] by simp
  then show ?thesis by (simp add: leda_sleep_usecs_def to_unsigned_def to_long_def trunc_def)
qed

end
