(* ===== verification/Leda_Windows.thy ===== *)
theory Leda_Windows
  imports Leda_Threading
begin

text \<open>
  The Windows branch of the portability layer (\<open>src/kernel/extra/threading.c\<close>), and what is left of
  its pthread branch. The functions of Win32 are an argument: what each call returns, and the code
  \<open>GetLastError\<close> gives after it. A handle is a number; \<open>0\<close> is \<open>NULL\<close>. A function that writes
  through \<open>ref\<close> returns the handle it writes; \<open>FAIL\<close> aborts the process.
\<close>

datatype win_call =
    CreateMutex
  | CreateEvent bool bool
  | CloseHandle int
  | WaitForSingleObject int int
  | ReleaseMutex int
  | BeginThreadEx
  | SetThreadPriority int win_prio
  | TerminateThread int int
  | SignalObjectAndWait int int int
  | PulseEvent int

record win_api =
  returned :: "win_call \<Rightarrow> int"
  last_error :: "win_call \<Rightarrow> int"

definition INVALID_HANDLE_VALUE :: int where "INVALID_HANDLE_VALUE = - 1"
definition WAIT_TIMEOUT :: int where "WAIT_TIMEOUT = 258"
definition WAIT_FAILED :: int where "WAIT_FAILED = 2 ^ 32 - 1"

section \<open>Mutexes\<close>

text \<open>\<open>MUTEX_INIT\<close> tests the address of the handle, which is never null, and not the handle.\<close>

definition win_MUTEX_INIT :: "win_api \<Rightarrow> int or_abort" where
  "win_MUTEX_INIT w = Finishes (returned w CreateMutex)"

definition win_MUTEX_FREE :: "win_api \<Rightarrow> int \<Rightarrow> int or_abort" where
  "win_MUTEX_FREE w h =
     (if returned w (CloseHandle h) = 0 then Aborts ''CloseHandle (mutex)'' (c_int (last_error w (CloseHandle h))) else Finishes 0)"

definition win_MUTEX_LOCK :: "win_api \<Rightarrow> int \<Rightarrow> unit or_abort" where
  "win_MUTEX_LOCK w h =
     (let c = WaitForSingleObject h INFINITE; rc = returned w c
      in if rc \<noteq> 0 then Aborts ''WaitForSingleObject'' (c_int (if rc = WAIT_FAILED then last_error w c else rc)) else Finishes ())"

definition win_MUTEX_UNLOCK :: "win_api \<Rightarrow> int \<Rightarrow> unit or_abort" where
  "win_MUTEX_UNLOCK w h =
     (if returned w (ReleaseMutex h) = 0 then Aborts ''ReleaseMutex'' (c_int (last_error w (ReleaseMutex h))) else Finishes ())"

section \<open>Threads\<close>

definition win_THREAD_CREATE :: "win_api \<Rightarrow> int \<Rightarrow> int or_abort" where
  "win_THREAD_CREATE w prio =
     (let h = returned w BeginThreadEx
      in if h = INVALID_HANDLE_VALUE then Aborts ''CreateThread'' (c_int (last_error w BeginThreadEx))
         else case win_thread_prio prio of
           None \<Rightarrow> Finishes h
         | Some p \<Rightarrow>
             if returned w (SetThreadPriority h p) = 0
             then Aborts ''SetThreadPriority'' (c_int (last_error w (SetThreadPriority h p))) else Finishes h)"

text \<open>\<open>THREAD_WAIT_IMPL\<close> clears the handle of a thread that has ended.\<close>

definition win_THREAD_WAIT :: "win_api \<Rightarrow> int \<Rightarrow> rat \<Rightarrow> (bool \<times> int) or_abort" where
  "win_THREAD_WAIT w h secs =
     (let rc = returned w (WaitForSingleObject h (win_thread_wait_ms secs))
      in if rc = WAIT_TIMEOUT then Finishes (False, h)
         else if rc \<noteq> 0 then Aborts ''WaitForSingleObject'' (c_int rc)
         else Finishes (True, 0))"

definition win_THREAD_KILL :: "win_api \<Rightarrow> int \<Rightarrow> int or_abort" where
  "win_THREAD_KILL w h =
     (if returned w (TerminateThread h 0) = 0 then Aborts ''TerminateThread'' (c_int (last_error w (TerminateThread h 0))) else Finishes 0)"

section \<open>Signals\<close>

definition win_SIGNAL_INIT :: "win_api \<Rightarrow> int or_abort" where
  "win_SIGNAL_INIT w =
     (let c = CreateEvent True False; h = returned w c
      in if h = 0 then Aborts ''CreateEvent'' (c_int (last_error w c)) else Finishes h)"

definition win_SIGNAL_FREE :: "win_api \<Rightarrow> int \<Rightarrow> int or_abort" where
  "win_SIGNAL_FREE w h =
     (if returned w (CloseHandle h) = 0 then Aborts ''CloseHandle (event)'' (c_int (last_error w (CloseHandle h))) else Finishes 0)"

text \<open>The milliseconds are a \<open>long\<close>, converted to \<open>DWORD\<close> by the call.\<close>

definition win_SIGNAL_WAIT :: "win_api \<Rightarrow> int \<Rightarrow> int \<Rightarrow> rat \<Rightarrow> rat \<Rightarrow> bool or_abort" where
  "win_SIGNAL_WAIT w h mu clock abs_secs =
     (let rc = returned w (SignalObjectAndWait mu h (win_signal_wait_ms clock abs_secs mod 2 ^ 32))
      in case win_MUTEX_LOCK w mu of
        Aborts n c \<Rightarrow> Aborts n c
      | Finishes _ \<Rightarrow>
          if rc = WAIT_TIMEOUT then Finishes False
          else if rc \<noteq> 0 then Aborts ''SignalObjectAndWait'' (c_int rc)
          else Finishes True)"

definition win_SIGNAL_ALL :: "win_api \<Rightarrow> int \<Rightarrow> unit or_abort" where
  "win_SIGNAL_ALL w h =
     (if returned w (PulseEvent h) = 0 then Aborts ''PulseEvent'' (c_int (last_error w (PulseEvent h))) else Finishes ())"

section \<open>The pthread branch\<close>

definition SIGNAL_INIT :: "int \<Rightarrow> unit or_abort" where
  "SIGNAL_INIT rc = PT_CALL ''pthread_cond_init(ref,NULL )'' rc"

definition SIGNAL_FREE :: "int \<Rightarrow> unit or_abort" where
  "SIGNAL_FREE rc = PT_CALL ''pthread_cond_destroy(ref)'' rc"

definition SIGNAL_ONE :: "int \<Rightarrow> unit or_abort" where
  "SIGNAL_ONE rc = PT_CALL ''pthread_cond_signal(ref)'' rc"

definition SIGNAL_ALL :: "int \<Rightarrow> unit or_abort" where
  "SIGNAL_ALL rc = PT_CALL ''pthread_cond_broadcast(ref)'' rc"

text \<open>\<open>THREAD_KILL\<close> ignores what \<open>pthread_cancel\<close> returns.\<close>

definition THREAD_KILL :: "int \<Rightarrow> unit or_abort" where
  "THREAD_KILL rc = Finishes ()"

section \<open>The two branches compared\<close>

text \<open>
  Corresponding answers of the two libraries to a wait: woken, timed out, and the mutex is free
  again in the end.
\<close>

definition same_wait :: "win_api \<Rightarrow> int \<Rightarrow> int \<Rightarrow> rat \<Rightarrow> rat \<Rightarrow> int \<Rightarrow> bool" where
  "same_wait w h mu clock abs_secs rc =
     (returned w (WaitForSingleObject mu INFINITE) = 0 \<and>
      (rc, returned w (SignalObjectAndWait mu h (win_signal_wait_ms clock abs_secs mod 2 ^ 32))) \<in>
        (if abs_secs < 0 then {(0, 0)} else {(0, 0), (ETIMEDOUT, WAIT_TIMEOUT)}))"

text \<open>
  Waiting for a signal has the same answer on both platforms, without a timeout and with every
  deadline later than zero.
\<close>

theorem signal_wait_backends_agree:
  assumes "same_wait w h mu clock abs_secs rc" and "abs_secs \<noteq> 0" and "is_double abs_secs" and "abs_secs < 2 ^ 63 - 1"
  shows "\<exists>b. win_SIGNAL_WAIT w h mu clock abs_secs = Finishes b \<and> SIGNAL_WAIT rc clock abs_secs = Finishes b"
proof (cases "abs_secs < 0")
  case True
  with assms(1) show ?thesis
    by (auto simp: same_wait_def win_SIGNAL_WAIT_def win_MUTEX_LOCK_def SIGNAL_WAIT_def PT_CALL_def WAIT_TIMEOUT_def)
next
  case False
  with assms(2) have "0 < abs_secs" by simp
  from prepare_timeout_value [OF assms(3) this assms(4), of clock] obtain ts where "prepare_timeout clock abs_secs = Finishes ts" by blast
  with False assms(1,2) show ?thesis
    by (auto simp: same_wait_def win_SIGNAL_WAIT_def win_MUTEX_LOCK_def SIGNAL_WAIT_def WAIT_TIMEOUT_def ETIMEDOUT_def Let_def)
qed

theorem signal_wait_backends_agree_witness:
  "\<exists>b. win_SIGNAL_WAIT \<lparr>returned = \<lambda>_. 0, last_error = \<lambda>_. 0\<rparr> 5 6 1000 (- 1) = Finishes b \<and> SIGNAL_WAIT 0 1000 (- 1) = Finishes b"
  using is_double_int [of "- 1"]
  by (intro signal_wait_backends_agree) (simp_all add: same_wait_def)

text \<open>
  A deadline of zero means an instant check on Windows, and aborts the process on Linux.
\<close>

lemma instant_check_differs:
  "same_wait w h mu clock 0 rc \<Longrightarrow> SIGNAL_WAIT rc clock 0 = Aborts ''assert'' 0 \<and> (\<exists>b. win_SIGNAL_WAIT w h mu clock 0 = Finishes b)"
  by (auto simp: same_wait_def win_SIGNAL_WAIT_def win_MUTEX_LOCK_def SIGNAL_WAIT_def WAIT_TIMEOUT_def ETIMEDOUT_def Let_def)

text \<open>
  \<open>CreateMutex\<close> returns \<open>NULL\<close> when it fails: the failure shows only when the mutex is taken.
  \<open>_beginthreadex\<close> returns \<open>0\<close> when it fails, which \<open>THREAD_CREATE\<close> takes for a handle.
\<close>

lemma win_failed_mutex:
  "returned w CreateMutex = 0 \<Longrightarrow> returned w (WaitForSingleObject 0 INFINITE) = WAIT_FAILED \<Longrightarrow>
     win_MUTEX_INIT w = Finishes 0 \<and> win_MUTEX_LOCK w 0 = Aborts ''WaitForSingleObject'' (c_int (last_error w (WaitForSingleObject 0 INFINITE)))"
  by (simp add: win_MUTEX_INIT_def win_MUTEX_LOCK_def WAIT_FAILED_def)

lemma win_failed_thread:
  "returned w BeginThreadEx = 0 \<Longrightarrow> win_THREAD_CREATE w 0 = Finishes 0"
  by (simp add: win_THREAD_CREATE_def INVALID_HANDLE_VALUE_def win_thread_prio_def)

text \<open>A mutex whose owner has died is taken, with \<open>WAIT_ABANDONED\<close>: the process aborts all the same.\<close>

lemma win_abandoned_mutex:
  "returned w (WaitForSingleObject h INFINITE) = 128 \<Longrightarrow> win_MUTEX_LOCK w h = Aborts ''WaitForSingleObject'' 128"
  by (simp add: win_MUTEX_LOCK_def WAIT_FAILED_def c_int_def)

end
