(* ===== verification/Spec2Isabelle.thy ===== *)
theory Spec2Isabelle
  imports Leda_Prelude Leda_Atomic Leda_Queue Leda_Lua Leda_Stats Leda_Graph Leda_Marshal
    Leda_Marshal_Roundtrip Leda_Marshal_Total Leda_Event Leda_Instance Leda_Pool Leda_Async
    Leda_Network Leda_Scheduler Leda_Work Leda_Receive Leda_Emit Leda_Api Leda_Double
    Leda_Eventloop Leda_Host Leda_Io Leda_Kernel Leda_Memarray Leda_Memarray_Access
    Leda_Memarray_Safe Leda_Memory Leda_Meta Leda_Mutex Leda_Remote Leda_Shutdown Leda_Sysinfo
    Leda_Tbb Leda_Threading Leda_Threads Leda_Timers Leda_Windows
begin

text \<open>
  The kernel of Leda, a runtime for staged, event-driven Lua programs
  (\<open>src/kernel\<close> of the repository). A program is a graph of stages joined by
  connectors and placed on clusters of processes. The kernel keeps, per stage, Lua
  states that run its handler (instances), a queue of idle instances and a queue of
  pending events; threads take instances from one ready queue and run them; an event
  thread resumes instances that wait for I/O and receives events of other
  processes.

  How the parts interact. A handler emits an event (\<open>emmit\<close>, scheduler.c): the kernel
  acquires an instance of the destination (\<open>instance_aquire\<close>, instance.c), copies the
  arguments into it and pushes it on the ready queue (queue.c); without an instance the
  arguments become an event (event.c) in the pending queue. A thread that leaves an
  instance releases it (\<open>instance_release\<close>), which loads the oldest pending event or
  makes the instance idle. Events for other clusters are encoded (lmarshal.c) and sent
  over a connection (event.c); the receiving process hands them to
  \<open>emmit_packed_event\<close>. Counters (atomic.c, stats.c) follow every step.

  Theories and what they model, in the order of the code:

  \<^item> Leda_Prelude: machine types, the faults of C as values (\<open>c_fault\<close>), the result type
    \<open>c_fault + 'a\<close> with its bind, C arrays and loops, little-endian integers.
  \<^item> Leda_Atomic (atomic.c): the cells as statements of concurrent threads; linearizability.
  \<^item> Leda_Queue (queue.c): the linked queue on an explicit heap of cells with its lock and
    signal calls; refinement of a bounded FIFO, stated as the locale \<open>bounded_queue\<close> and
    interpreted on the model; the cases in which the queue loses elements, its bound, or
    does not end.
  \<^item> Leda_Lua: the documented part of the Lua interface the sources use: values, numbers as
    IEEE doubles and their conversions, the stack. Not code of the repository.
  \<^item> Leda_Stats (stats.c): counters of stages and connectors, their reset and report.
  \<^item> Leda_Graph (graph.c, graph.h): building the read-only graph from a Lua object, the getters,
    the release. The Lua object is a list of answers (\<open>lua_graph\<close>); \<open>represents\<close> is the
    specification of the arrays built.
  \<^item> Leda_Marshal, Leda_Marshal_Roundtrip, Leda_Marshal_Total (extra/lmarshal.c): encoder and
    decoder over a heap of tables, functions and userdata, byte for byte; decoding inverts
    encoding up to a renaming of objects; both end; the inputs on which they go wrong.
  \<^item> Leda_Event (event.c, first part): events, their memory, extraction and restoration.
  \<^item> Leda_Instance and Leda_Pool (instance.c): the instance subsystem, the invariant of its
    counters, and the refinement of an abstract pool (idle, pending, ready), stated as the
    locale \<open>instance_pool\<close> and interpreted on the model.
  \<^item> Leda_Async (event.c, last part): instances that wait for descriptors, timers and files.
  \<^item> Leda_Network (event.c, middle part): connections, wire format, sending, acknowledgements.
  \<^item> Leda_Scheduler (scheduler.c): emitting, running and leaving instances, thread descriptors.
  \<^item> Leda_Threads: the threads of the pool created, run, ended and killed in any order; the invariant
    of their counter.
  \<^item> Leda_Work: the whole system as the step relation \<open>node_step\<close> and its invariant.
  \<^item> Leda_Receive (event.c, \<open>read_event\<close>): receiving events; both ends of the wire together.
  \<^item> Leda_Emit: the outcomes of \<open>emmit\<close>, case by case.
  \<^item> Leda_Kernel (kernel.c): starting a graph and emitting what was sent before, sends and callbacks
    of the controller, quitting. Leda_Remote: the arguments of an event on their way to another
    state, table, encoder, decoder and unpacking together. Leda_Shutdown: the end of \<open>leda_run\<close>.
  \<^item> Leda_Api (instance.c, kernel.c, scheduler.c, graph.c, extra/memarray.c): the functions, libraries
    and metatables a Lua state is given, as sequences of calls on a stack with tables.
    Leda_Meta (kernel.c): reading and setting the metatable of any value.
  \<^item> Leda_Sysinfo (kernel.c): reading \<open>/proc/self/smaps\<close> through \<open>fgets\<close> and \<open>sscanf\<close>; processors, memory.
  \<^item> Leda_Timers and Leda_Host (kernel.c): the intervals of timers, sleeping, the addresses of the host.
    Leda_Eventloop (event.c): the main function of the event thread.
  \<^item> Leda_Double: the arithmetic of C doubles on rational numbers, rounding to nearest even.
    Leda_Threading (extra/threading.c, scheduler.c): the clock, deadlines, waits and thread creation.
  \<^item> Leda_Mutex (extra/mutex.c, extra/threading.h): mutexes, and threads that share them from Lua.
    Leda_Windows (extra/threading.c): the Windows branch, compared with the one over pthread.
  \<^item> Leda_Tbb (tbb_queue.cpp, tbb_atomic.cpp): the back ends over Intel TBB, compared with those in C.
  \<^item> Leda_Io (extra/leda-io.c): the owner of a FILE that moves between Lua states, AIO requests.
  \<^item> Leda_Memory: the C heap as bytes and blocks, with the laws of \<open>malloc\<close>, \<open>free\<close> and writes.
  \<^item> Leda_Memarray, Leda_Memarray_Safe, Leda_Memarray_Access (extra/memarray.c): typed access of
    Lua code to C memory. The state is the heap with the descriptors of the arrays; \<open>ma_wf\<close> is
    their well-typedness, kept by every registered function under the conditions \<open>ma_allowed\<close>
    the Lua program has to meet; what reads, writes and conversions give; what is unchecked.

  Conventions. A C function is a definition of the same name on explicit states (records
  with the fields of the C structures or the static variables of the file); pointers are
  natural numbers with 0 for NULL and a heap of what is allocated; a fault (use of NULL or
  freed memory, access outside an array, division by zero, exhausted C stack) and an error
  raised by Lua are values, so that a theorem about a result says that none occurs. Integers
  wrap at their width: \<open>c_long\<close> is a 64-bit word, \<open>c_int\<close> and \<open>size_of_int\<close> are the
  conversions of C. The platform is 64-bit and little endian.

  Parameters stand for what is not code of the repository: the Lua interpreter (the code of a
  stage, \<open>pcall_result\<close>, string conversions, \<open>lua_dump\<close> and \<open>lua_load\<close>), the operating system
  and libevent (answers to \<open>read\<close>, \<open>write\<close>, \<open>connect\<close>, which event is ready), the functions of
  pthread and Win32 (what they return), the classes of Intel TBB (with the laws their documentation
  gives), and time.

  Bounds and fuel. The encoder and the decoder recurse on the C stack, whose depth is the
  argument of their models: Leda_Marshal_Total shows that the number of objects, or twice the
  length of the message plus one, is enough. \<open>queue_free\<close>, which may not end, is a
  \<open>partial_function (option)\<close>, and ends on every consistent queue. Loops that wait for the
  network recurse on the list of answers.

  Concurrency. Leda_Atomic interleaves single statements; the queue operations are critical
  sections, and Leda_Queue also runs poppers that block between the two halves of \<open>queue_pop\<close>.
  Leda_Work interleaves whole calls of the scheduler and instance functions: races between
  the statements of two such calls are outside of its model. The invariant there is for an
  unbounded ready queue, as \<open>instance_init\<close> sets it up.

  Not modelled: the size of the stacks of threads; functions that only pass a system call on; the text of
  \<open>__tostring\<close> of memory arrays and the dumps of graphs, stacks and events for debugging; debug
  output.
\<close>

end
